(* ===== verification/Prelude.thy ===== *)
theory Prelude
  imports Complex_Main "HOL-Library.Word"
begin

text \<open>
  Shared vocabulary of the development: Go's byte strings, times and durations, 64-bit
  wrap-around, and the functions of package \<^verbatim>\<open>strings\<close> the sources call. A Go string is a
  sequence of bytes and an Isabelle \<^typ>\<open>string\<close> is a list of 8-bit characters, so the two
  agree byte for byte.
\<close>

named_theorems go_simps \<open>equations that evaluate the model of Go's library on closed terms\<close>
named_theorems wf_intros \<open>introduction rules for the well-formedness invariants\<close>

subsection \<open>Times and integers\<close>

text \<open>
  A \<^verbatim>\<open>time.Time\<close> is the number of nanoseconds since the Unix epoch, a \<^verbatim>\<open>time.Duration\<close> is a
  signed 64-bit number of nanoseconds. Both are integers here, and 64-bit products that the
  code forms are wrapped explicitly by \<open>int64_of\<close>.
\<close>

type_synonym gotime = int
type_synonym duration = int

definition nanosecond :: int where "nanosecond = 1"
definition microsecond :: int where "microsecond = 1000"
definition second :: int where "second = 1000000000"
definition minute :: int where "minute = 60 * second"
definition hour :: int where "hour = 3600 * second"

lemmas time_units [go_simps] = nanosecond_def microsecond_def second_def minute_def hour_def

text \<open>The zero \<^verbatim>\<open>time.Time\<close>: midnight, 1 January of year 1, UTC.\<close>

definition zero_time :: gotime where "zero_time = - 62135596800 * second"

definition int64_of :: "int \<Rightarrow> int" where
  "int64_of x = (x + 2 ^ 63) mod 2 ^ 64 - 2 ^ 63"

lemma int64_of_id [simp]: "- (2 ^ 63) \<le> x \<Longrightarrow> x < 2 ^ 63 \<Longrightarrow> int64_of x = x"
  by (simp add: int64_of_def)

lemma int64_of_range: "- (2 ^ 63) \<le> int64_of x \<and> int64_of x < 2 ^ 63"
  by (simp add: int64_of_def)

text \<open>Rounding a time down to a multiple of a unit, as a column of coarser resolution does.\<close>

definition truncate_to :: "int \<Rightarrow> gotime \<Rightarrow> gotime" where
  "truncate_to u t = (t div u) * u"

lemma truncate_to_le: "0 < u \<Longrightarrow> truncate_to u t \<le> t"
  by (simp add: truncate_to_def minus_mod_eq_div_mult [symmetric])

lemma truncate_to_gt: "0 < u \<Longrightarrow> t - u < truncate_to u t"
  using pos_mod_bound [of u t] by (simp add: truncate_to_def minus_mod_eq_div_mult [symmetric])

lemma truncate_to_mono: "0 < u \<Longrightarrow> s \<le> t \<Longrightarrow> truncate_to u s \<le> truncate_to u t"
  by (simp add: truncate_to_def zdiv_mono1)

lemma truncate_to_idem [simp]: "truncate_to u (truncate_to u t) = truncate_to u t"
  by (cases "u = 0") (simp_all add: truncate_to_def)

text \<open>A reading clock that is a whole unit past an instant is past it after truncation too.\<close>

lemma truncate_to_less: "0 < u \<Longrightarrow> s + u \<le> t \<Longrightarrow> truncate_to u s < truncate_to u t"
  using truncate_to_le [of u s] truncate_to_gt [of u t] by linarith

subsection \<open>Package strings\<close>

definition has_prefix :: "string \<Rightarrow> string \<Rightarrow> bool" where
  "has_prefix s p \<longleftrightarrow> take (length p) s = p"

definition has_suffix :: "string \<Rightarrow> string \<Rightarrow> bool" where
  "has_suffix s p \<longleftrightarrow> length p \<le> length s \<and> drop (length s - length p) s = p"

fun contains_sub :: "string \<Rightarrow> string \<Rightarrow> bool" where
  "contains_sub [] p = (p = [])"
| "contains_sub (c # s) p = (has_prefix (c # s) p \<or> contains_sub s p)"

text \<open>\<^verbatim>\<open>strings.Split\<close> with a one-byte separator, and \<^verbatim>\<open>strings.Join\<close>.\<close>

fun split_char :: "char \<Rightarrow> string \<Rightarrow> string list" where
  "split_char c [] = [[]]"
| "split_char c (x # xs) =
     (if x = c then [] # split_char c xs
      else (case split_char c xs of [] \<Rightarrow> [[x]] | y # ys \<Rightarrow> (x # y) # ys))"

fun join_char :: "char \<Rightarrow> string list \<Rightarrow> string" where
  "join_char c [] = []"
| "join_char c [s] = s"
| "join_char c (s # t # ts) = s @ [c] @ join_char c (t # ts)"

text \<open>\<^verbatim>\<open>strings.SplitN(s, sep, 2)\<close>: one part when the separator is absent, else two.\<close>

fun split_n2 :: "char \<Rightarrow> string \<Rightarrow> string list" where
  "split_n2 c [] = [[]]"
| "split_n2 c (x # xs) =
     (if x = c then [[], xs]
      else (case split_n2 c xs of [] \<Rightarrow> [[x]] | y # ys \<Rightarrow> (x # y) # ys))"

lemma split_char_nonempty [simp]: "split_char c s \<noteq> []"
  by (cases s) (auto split: list.splits)

lemma split_n2_nonempty [simp]: "split_n2 c s \<noteq> []"
  by (cases s) (auto split: list.splits)

lemma join_split_char [simp]: "join_char c (split_char c s) = s"
proof (induction s)
  case Nil
  then show ?case by simp
next
  case (Cons x xs)
  obtain y ys where "split_char c xs = y # ys"
    by (meson list.exhaust split_char_nonempty)
  with Cons show ?case by (cases ys) auto
qed

lemma split_char_parts: "p \<in> set (split_char c s) \<Longrightarrow> c \<notin> set p"
  by (induction s arbitrary: p) (auto split: list.splits if_splits)

lemma split_char_noocc: "c \<notin> set s \<Longrightarrow> split_char c s = [s]"
  by (induction s) auto

lemma split_char_append:
  "c \<notin> set p \<Longrightarrow> split_char c (p @ c # s) = p # split_char c s"
  by (induction p) auto

lemma split_join_char:
  "xs \<noteq> [] \<Longrightarrow> (\<And>x. x \<in> set xs \<Longrightarrow> c \<notin> set x) \<Longrightarrow> split_char c (join_char c xs) = xs"
  by (induction xs rule: induct_list012) (simp_all add: split_char_noocc split_char_append)

lemma split_n2_append: "c \<notin> set p \<Longrightarrow> split_n2 c (p @ c # s) = [p, s]"
  by (induction p) auto

lemma split_n2_noocc: "c \<notin> set s \<Longrightarrow> split_n2 c s = [s]"
  by (induction s) auto

lemma has_prefix_iff: "has_prefix s p \<longleftrightarrow> (\<exists>t. s = p @ t)"
  by (metis append_eq_conv_conj append_take_drop_id has_prefix_def)

lemma has_prefix_append [simp]: "has_prefix (p @ s) p"
  by (simp add: has_prefix_def)

lemma contains_sub_iff: "contains_sub s p \<longleftrightarrow> (\<exists>a b. s = a @ p @ b)"
proof (induction s)
  case Nil
  then show ?case by auto
next
  case (Cons c s)
  have "(\<exists>a b. c # s = a @ p @ b) \<longleftrightarrow> has_prefix (c # s) p \<or> (\<exists>a b. s = a @ p @ b)"
    unfolding has_prefix_iff by (metis append_Cons append_Nil append_eq_Cons_conv)
  with Cons show ?case by simp
qed

text \<open>\<^verbatim>\<open>strconv.Itoa\<close>.\<close>

fun nat_digits :: "nat \<Rightarrow> string" where
  "nat_digits n =
     (if n < 10 then [char_of (48 + n)] else nat_digits (n div 10) @ [char_of (48 + n mod 10)])"

declare nat_digits.simps [simp del, go_simps]

definition itoa :: "int \<Rightarrow> string" where
  "itoa i = (if i < 0 then CHR ''-'' # nat_digits (nat (- i)) else nat_digits (nat i))"

subsection \<open>Helpers on options, sums and maps\<close>

lemma Inl_or_Inr: "(\<exists>a. x = Inl a) \<or> (\<exists>b. x = Inr b)"
  by (cases x) auto

text \<open>A property of all numbers below a bound, checked by evaluation.\<close>

lemma all_below_upt: "list_all P [0..<k] \<Longrightarrow> n < k \<Longrightarrow> P n"
  by (simp add: list_all_iff)

definition is_ok :: "'e + 'a \<Rightarrow> bool" where
  "is_ok r \<longleftrightarrow> (case r of Inl _ \<Rightarrow> False | Inr _ \<Rightarrow> True)"

lemma is_ok_simps [simp]: "is_ok (Inr a)" "\<not> is_ok (Inl e)"
  by (simp_all add: is_ok_def)

lemma is_ok_iff: "is_ok r \<longleftrightarrow> (\<exists>a. r = Inr a)"
  by (cases r) auto

end
