(* ===== verification/Codec.thy ===== *)
theory Codec
  imports Prelude
begin

text \<open>
  Packages \<^verbatim>\<open>encoding/hex\<close> and \<^verbatim>\<open>encoding/base64\<close> as the sources use them: the four base64
  encodings (\<^verbatim>\<open>StdEncoding\<close>, \<^verbatim>\<open>URLEncoding\<close>, \<^verbatim>\<open>RawStdEncoding\<close>, \<^verbatim>\<open>RawURLEncoding\<close>), with the
  decoder's treatment of line breaks, padding and trailing garbage, and their round trips.
\<close>

subsection \<open>Bytes\<close>

abbreviation byte :: "char \<Rightarrow> nat" where "byte c \<equiv> of_char c"

lemma byte_less [simp]: "byte c < 256"
  by simp

subsection \<open>Hexadecimal\<close>

definition hex_digit :: "nat \<Rightarrow> char" where
  "hex_digit n = ''0123456789abcdef'' ! n"

fun hex_encode :: "string \<Rightarrow> string" where
  "hex_encode [] = []"
| "hex_encode (c # s) = hex_digit (byte c div 16) # hex_digit (byte c mod 16) # hex_encode s"

definition hex_value :: "char \<Rightarrow> nat option" where
  "hex_value c =
     (let n = byte c in
      if 48 \<le> n \<and> n \<le> 57 then Some (n - 48)
      else if 97 \<le> n \<and> n \<le> 102 then Some (n - 87)
      else if 65 \<le> n \<and> n \<le> 70 then Some (n - 55) else None)"

fun hex_decode :: "string \<Rightarrow> string option" where
  "hex_decode [] = Some []"
| "hex_decode [c] = None"
| "hex_decode (a # b # s) =
     (case (hex_value a, hex_value b) of
        (Some x, Some y) \<Rightarrow> map_option ((#) (char_of (16 * x + y))) (hex_decode s)
      | _ \<Rightarrow> None)"

lemma length_hex_encode [simp]: "length (hex_encode s) = 2 * length s"
  by (induction s) auto

lemma hex_value_digit: "n < 16 \<Longrightarrow> hex_value (hex_digit n) = Some n"
proof (rule all_below_upt [where k = 16])
  show "list_all (\<lambda>n. hex_value (hex_digit n) = Some n) [0..<16]"
    by code_simp
qed

lemma hex_roundtrip [simp]: "hex_decode (hex_encode s) = Some s"
proof (induction s)
  case (Cons c s)
  have "byte c div 16 < 16" by (simp add: less_mult_imp_div_less)
  then show ?case using Cons by (simp add: hex_value_digit)
qed simp

subsection \<open>Base64\<close>

record b64_encoding =
  alphabet :: string
  padded :: bool

definition std_alphabet :: string where
  "std_alphabet = ''ABCDEFGHIJKLMNOPQRSTUVWXYZabcdefghijklmnopqrstuvwxyz0123456789+/''"

definition url_alphabet :: string where
  "url_alphabet = ''ABCDEFGHIJKLMNOPQRSTUVWXYZabcdefghijklmnopqrstuvwxyz0123456789-_''"

definition StdEncoding :: b64_encoding where
  "StdEncoding = \<lparr>alphabet = std_alphabet, padded = True\<rparr>"
definition URLEncoding :: b64_encoding where
  "URLEncoding = \<lparr>alphabet = url_alphabet, padded = True\<rparr>"
definition RawStdEncoding :: b64_encoding where
  "RawStdEncoding = \<lparr>alphabet = std_alphabet, padded = False\<rparr>"
definition RawURLEncoding :: b64_encoding where
  "RawURLEncoding = \<lparr>alphabet = url_alphabet, padded = False\<rparr>"

lemmas b64_encodings = StdEncoding_def URLEncoding_def RawStdEncoding_def RawURLEncoding_def

definition b64_char :: "b64_encoding \<Rightarrow> nat \<Rightarrow> char" where
  "b64_char e n = alphabet e ! n"

definition b64_value :: "b64_encoding \<Rightarrow> char \<Rightarrow> nat option" where
  "b64_value e c = map_of (zip (alphabet e) [0..<64]) c"

fun b64_encode :: "b64_encoding \<Rightarrow> string \<Rightarrow> string" where
  "b64_encode e [] = []"
| "b64_encode e [a] =
     [b64_char e (byte a div 4), b64_char e (byte a mod 4 * 16)] @
     (if padded e then ''=='' else [])"
| "b64_encode e [a, b] =
     [b64_char e (byte a div 4), b64_char e (byte a mod 4 * 16 + byte b div 16),
      b64_char e (byte b mod 16 * 4)] @
     (if padded e then ''='' else [])"
| "b64_encode e (a # b # c # s) =
     [b64_char e (byte a div 4), b64_char e (byte a mod 4 * 16 + byte b div 16),
      b64_char e (byte b mod 16 * 4 + byte c div 64), b64_char e (byte c mod 64)] @
     b64_encode e s"

text \<open>
  \<^verbatim>\<open>decodeQuantum\<close> reads four characters at a time and skips carriage returns and line feeds
  wherever they stand. A padding character is accepted only as the last one or two of a final
  quantum; anything after it is an error. An encoding without padding takes a final quantum of
  two or three characters. Bits left over in the last character are ignored, as by the
  non-strict encodings of the package.
\<close>

definition b64_byte1 :: "nat \<Rightarrow> nat \<Rightarrow> char" where
  "b64_byte1 v w = char_of (v * 4 + w div 16)"
definition b64_byte2 :: "nat \<Rightarrow> nat \<Rightarrow> char" where
  "b64_byte2 w x = char_of (w mod 16 * 16 + x div 4)"
definition b64_byte3 :: "nat \<Rightarrow> nat \<Rightarrow> char" where
  "b64_byte3 x y = char_of (x mod 4 * 64 + y)"

fun b64_quanta :: "b64_encoding \<Rightarrow> string \<Rightarrow> string option" where
  "b64_quanta e [] = Some []"
| "b64_quanta e [a] = None"
| "b64_quanta e [a, b] =
     (if padded e then None
      else (case (b64_value e a, b64_value e b) of
              (Some v, Some w) \<Rightarrow> Some [b64_byte1 v w] | _ \<Rightarrow> None))"
| "b64_quanta e [a, b, c] =
     (if padded e then None
      else (case (b64_value e a, b64_value e b, b64_value e c) of
              (Some v, Some w, Some x) \<Rightarrow> Some [b64_byte1 v w, b64_byte2 w x] | _ \<Rightarrow> None))"
| "b64_quanta e (a # b # c # d # s) =
     (case (b64_value e a, b64_value e b) of
        (Some v, Some w) \<Rightarrow>
          (case b64_value e c of
             None \<Rightarrow> if padded e \<and> c = CHR ''='' \<and> d = CHR ''='' \<and> s = []
                     then Some [b64_byte1 v w] else None
           | Some x \<Rightarrow>
               (case b64_value e d of
                  None \<Rightarrow> if padded e \<and> d = CHR ''='' \<and> s = []
                          then Some [b64_byte1 v w, b64_byte2 w x] else None
                | Some y \<Rightarrow> map_option (\<lambda>t. b64_byte1 v w # b64_byte2 w x # b64_byte3 x y # t)
                              (b64_quanta e s)))
      | _ \<Rightarrow> None)"

definition is_newline :: "char \<Rightarrow> bool" where
  "is_newline c \<longleftrightarrow> c = CHR 10 \<or> c = CHR 13"

definition b64_decode :: "b64_encoding \<Rightarrow> string \<Rightarrow> string option" where
  "b64_decode e s = b64_quanta e (filter (\<lambda>c. \<not> is_newline c) s)"

text \<open>The facts of an alphabet that the round trip needs.\<close>

definition good_encoding :: "b64_encoding \<Rightarrow> bool" where
  "good_encoding e \<longleftrightarrow> length (alphabet e) = 64 \<and> distinct (alphabet e) \<and>
     CHR ''='' \<notin> set (alphabet e) \<and> CHR 10 \<notin> set (alphabet e) \<and> CHR 13 \<notin> set (alphabet e)"

lemma good_encodings [simp]:
  "good_encoding StdEncoding" "good_encoding URLEncoding"
  "good_encoding RawStdEncoding" "good_encoding RawURLEncoding"
  by (simp_all add: good_encoding_def b64_encodings std_alphabet_def url_alphabet_def)

lemma b64_value_char:
  "good_encoding e \<Longrightarrow> n < 64 \<Longrightarrow> b64_value e (b64_char e n) = Some n"
  by (simp add: good_encoding_def b64_value_def b64_char_def map_of_zip_nth)

lemma b64_char_mem: "good_encoding e \<Longrightarrow> n < 64 \<Longrightarrow> b64_char e n \<in> set (alphabet e)"
  by (simp add: good_encoding_def b64_char_def)

lemma b64_value_pad: "good_encoding e \<Longrightarrow> b64_value e (CHR ''='') = None"
  by (auto simp: good_encoding_def b64_value_def map_of_eq_None_iff dest: set_zip_leftD)

lemma b64_value_less: "good_encoding e \<Longrightarrow> b64_value e c = Some v \<Longrightarrow> v < 64"
  by (auto simp: b64_value_def dest!: map_of_SomeD set_zip_rightD)

lemma b64_bits:
  fixes a b c :: nat
  assumes "a < 256" "b < 256" "c < 256"
  shows "a div 4 < 64" "a mod 4 * 16 < 64" "a mod 4 * 16 + b div 16 < 64"
    "b mod 16 * 4 < 64" "b mod 16 * 4 + c div 64 < 64" "c mod 64 < 64"
proof -
  have q: "a mod 4 < 4" "b mod 16 < 16" "b div 16 < 16" "c div 64 < 4"
    using assms by (simp_all add: less_mult_imp_div_less)
  show "a div 4 < 64" "c mod 64 < 64"
    using assms by (simp_all add: less_mult_imp_div_less)
  show "a mod 4 * 16 < 64" "a mod 4 * 16 + b div 16 < 64"
    "b mod 16 * 4 < 64" "b mod 16 * 4 + c div 64 < 64"
    using q by linarith+
qed

lemma b64_unbits:
  fixes a b c :: nat
  assumes "a < 256" "b < 256" "c < 256"
  shows "a div 4 * 4 + (a mod 4 * 16) div 16 = a"
    "a div 4 * 4 + (a mod 4 * 16 + b div 16) div 16 = a"
    "(a mod 4 * 16 + b div 16) mod 16 * 16 + (b mod 16 * 4) div 4 = b"
    "(a mod 4 * 16 + b div 16) mod 16 * 16 + (b mod 16 * 4 + c div 64) div 4 = b"
    "(b mod 16 * 4 + c div 64) mod 4 * 64 + c mod 64 = c"
proof -
  have q: "b div 16 < 16" "c div 64 < 4"
    using assms by (simp_all add: less_mult_imp_div_less)
  have "(a mod 4 * 16 + b div 16) div 16 = a mod 4" "(a mod 4 * 16 + b div 16) mod 16 = b div 16"
    "(b mod 16 * 4 + c div 64) div 4 = b mod 16" "(b mod 16 * 4 + c div 64) mod 4 = c div 64"
    using q by simp_all
  then show "a div 4 * 4 + (a mod 4 * 16) div 16 = a"
    "a div 4 * 4 + (a mod 4 * 16 + b div 16) div 16 = a"
    "(a mod 4 * 16 + b div 16) mod 16 * 16 + (b mod 16 * 4) div 4 = b"
    "(a mod 4 * 16 + b div 16) mod 16 * 16 + (b mod 16 * 4 + c div 64) div 4 = b"
    "(b mod 16 * 4 + c div 64) mod 4 * 64 + c mod 64 = c"
    by simp_all
qed

lemma b64_bits_char:
  "byte a div 4 < 64" "byte a mod 4 * 16 < 64" "byte a mod 4 * 16 + byte b div 16 < 64"
  "byte b mod 16 * 4 < 64" "byte b mod 16 * 4 + byte c div 64 < 64" "byte c mod 64 < 64"
  "b64_byte1 (byte a div 4) (byte a mod 4 * 16) = a"
  "b64_byte1 (byte a div 4) (byte a mod 4 * 16 + byte b div 16) = a"
  "b64_byte2 (byte a mod 4 * 16 + byte b div 16) (byte b mod 16 * 4) = b"
  "b64_byte2 (byte a mod 4 * 16 + byte b div 16) (byte b mod 16 * 4 + byte c div 64) = b"
  "b64_byte3 (byte b mod 16 * 4 + byte c div 64) (byte c mod 64) = c"
  by (simp_all only: b64_byte1_def b64_byte2_def b64_byte3_def b64_bits [OF byte_less byte_less byte_less]
        b64_unbits [OF byte_less byte_less byte_less] char_of_char)

lemma b64_quanta_encode: "good_encoding e \<Longrightarrow> b64_quanta e (b64_encode e s) = Some s"
  by (induction e s rule: b64_encode.induct)
     (simp_all add: b64_value_char b64_value_pad b64_bits_char)

lemma b64_encode_chars:
  "good_encoding e \<Longrightarrow> set (b64_encode e s) \<subseteq> set (alphabet e) \<union> (if padded e then {CHR ''=''} else {})"
  by (induction e s rule: b64_encode.induct) (auto simp: b64_char_mem b64_bits_char)

lemma b64_encode_no_newline:
  assumes "good_encoding e"
  shows "filter (\<lambda>c. \<not> is_newline c) (b64_encode e s) = b64_encode e s"
proof -
  have "\<not> is_newline c" if "c \<in> set (b64_encode e s)" for c
    using that b64_encode_chars [OF assms, of s] assms
    by (auto simp: is_newline_def good_encoding_def split: if_splits)
  then show ?thesis by (simp add: filter_id_conv)
qed

theorem b64_roundtrip: "good_encoding e \<Longrightarrow> b64_decode e (b64_encode e s) = Some s"
  by (simp add: b64_decode_def b64_encode_no_newline b64_quanta_encode)

lemma length_b64_encode_padded:
  "padded e \<Longrightarrow> length (b64_encode e s) = 4 * ((length s + 2) div 3)"
proof (induction e s rule: b64_encode.induct)
  case (4 e a b c s)
  have "(length (a # b # c # s) + 2) div 3 = (length s + 2) div 3 + 1" by simp
  with 4 show ?case by simp
qed simp_all

lemma length_b64_encode_raw:
  "\<not> padded e \<Longrightarrow> length (b64_encode e s) = (4 * length s + 2) div 3"
proof (induction e s rule: b64_encode.induct)
  case (4 e a b c s)
  have "(4 * length (a # b # c # s) + 2) div 3 = (4 * length s + 2) div 3 + 4" by simp
  with 4 show ?case by simp
qed simp_all

text \<open>Decoding never produces more than three bytes per four characters read.\<close>

lemma length_b64_quanta: "b64_quanta e s = Some t \<Longrightarrow> 4 * length t \<le> 3 * length s"
  by (induction e s arbitrary: t rule: b64_quanta.induct)
     (fastforce split: option.splits if_splits)+

lemma length_b64_decode:
  assumes "b64_decode e s = Some t"
  shows "4 * length t \<le> 3 * length s"
proof -
  have "4 * length t \<le> 3 * length (filter (\<lambda>c. \<not> is_newline c) s)"
    using assms unfolding b64_decode_def by (rule length_b64_quanta)
  also have "\<dots> \<le> 3 * length s"
    by simp
  finally show ?thesis .
qed

end
