(* ===== verification/Utf8.thy ===== *)
theory Utf8
  imports Codec
begin

text \<open>
  Package \<^verbatim>\<open>unicode/utf8\<close> and the functions of package \<^verbatim>\<open>strings\<close> that walk over runes:
  \<^verbatim>\<open>DecodeRuneInString\<close>, \<^verbatim>\<open>AppendRune\<close>, \<^verbatim>\<open>strings.Map\<close> and \<^verbatim>\<open>strings.TrimSpace\<close>. An invalid byte
  decodes to the replacement rune with width one, as in Go.
\<close>

definition rune_error :: nat where "rune_error = 65533"

definition continuation :: "nat \<Rightarrow> nat \<Rightarrow> char \<Rightarrow> bool" where
  "continuation lo hi c \<longleftrightarrow> lo \<le> byte c \<and> byte c \<le> hi"

text \<open>The accepted range of the second byte, which excludes overlong forms, surrogates and
  values past U+10FFFF.\<close>

definition second_lo :: "nat \<Rightarrow> nat" where
  "second_lo b = (if b = 224 then 160 else if b = 240 then 144 else 128)"
definition second_hi :: "nat \<Rightarrow> nat" where
  "second_hi b = (if b = 237 then 159 else if b = 244 then 143 else 191)"

fun decode_rune :: "string \<Rightarrow> nat \<times> nat" where
  "decode_rune [] = (rune_error, 0)"
| "decode_rune (c # s) =
     (let b = byte c; bad = (rune_error, 1) in
      if b < 128 then (b, 1)
      else if 194 \<le> b \<and> b \<le> 223 then
        (case s of
           c1 # _ \<Rightarrow> if continuation 128 191 c1
                     then (b mod 32 * 64 + byte c1 mod 64, 2) else bad
         | _ \<Rightarrow> bad)
      else if 224 \<le> b \<and> b \<le> 239 then
        (case s of
           c1 # c2 # _ \<Rightarrow>
             if continuation (second_lo b) (second_hi b) c1 \<and> continuation 128 191 c2
             then (b mod 16 * 4096 + byte c1 mod 64 * 64 + byte c2 mod 64, 3) else bad
         | _ \<Rightarrow> bad)
      else if 240 \<le> b \<and> b \<le> 244 then
        (case s of
           c1 # c2 # c3 # _ \<Rightarrow>
             if continuation (second_lo b) (second_hi b) c1 \<and> continuation 128 191 c2
                  \<and> continuation 128 191 c3
             then (b mod 8 * 262144 + byte c1 mod 64 * 4096 + byte c2 mod 64 * 64 + byte c3 mod 64, 4)
             else bad
         | _ \<Rightarrow> bad)
      else bad)"

fun encode_rune :: "nat \<Rightarrow> string" where
  "encode_rune r =
     (if r < 128 then [char_of r]
      else if r < 2048 then [char_of (192 + r div 64), char_of (128 + r mod 64)]
      else if (55296 \<le> r \<and> r \<le> 57343) \<or> 1114111 < r
        then [char_of (239::nat), char_of (191::nat), char_of (189::nat)]
      else if r < 65536
        then [char_of (224 + r div 4096), char_of (128 + r div 64 mod 64), char_of (128 + r mod 64)]
      else [char_of (240 + r div 262144), char_of (128 + r div 4096 mod 64),
            char_of (128 + r div 64 mod 64), char_of (128 + r mod 64)])"

declare encode_rune.simps [simp del, go_simps]

lemma decode_rune_width_pos: "s \<noteq> [] \<Longrightarrow> 0 < snd (decode_rune s)"
  by (cases s) (auto simp: Let_def split: list.splits)

lemma decode_rune_ascii [simp]: "byte c < 128 \<Longrightarrow> decode_rune (c # s) = (byte c, 1)"
  by simp

lemma encode_rune_ascii: "byte c < 128 \<Longrightarrow> encode_rune (byte c) = [c]"
  by (simp add: encode_rune.simps)

text \<open>\<^verbatim>\<open>strings.Map\<close>: a negative result of the mapping (here \<^const>\<open>None\<close>) drops the rune.\<close>

function strings_map :: "(nat \<Rightarrow> nat option) \<Rightarrow> string \<Rightarrow> string" where
  "strings_map f s =
     (if s = [] then []
      else (case f (fst (decode_rune s)) of None \<Rightarrow> [] | Some r \<Rightarrow> encode_rune r)
             @ strings_map f (drop (snd (decode_rune s)) s))"
  by pat_completeness auto
termination
proof (relation "measure (\<lambda>(f, s). length s)")
  fix f :: "nat \<Rightarrow> nat option" and s :: string
  assume "s \<noteq> []"
  then show "((f, drop (snd (decode_rune s)) s), f, s) \<in> measure (\<lambda>(f, s). length s)"
    using decode_rune_width_pos [of s] by (simp add: diff_less)
qed simp

declare strings_map.simps [simp del]

definition ascii :: "string \<Rightarrow> bool" where
  "ascii s \<longleftrightarrow> list_all (\<lambda>c. byte c < 128) s"

text \<open>On ASCII text \<^verbatim>\<open>strings.Map\<close> works byte by byte.\<close>

lemma strings_map_ascii:
  "ascii s \<Longrightarrow> strings_map f s =
     concat (map (\<lambda>c. case f (byte c) of None \<Rightarrow> [] | Some r \<Rightarrow> encode_rune r) s)"
proof (induction s)
  case Nil
  then show ?case by (simp add: strings_map.simps)
next
  case (Cons c s)
  then have "byte c < 128" "ascii s" by (simp_all add: ascii_def)
  with Cons.IH show ?case
    by (subst strings_map.simps) (simp del: decode_rune.simps)
qed

lemma strings_map_ascii_id:
  assumes "ascii s" and "\<And>c. c \<in> set s \<Longrightarrow> f (byte c) = Some (byte c)"
  shows "strings_map f s = s"
proof -
  have "concat (map (\<lambda>c. case f (byte c) of None \<Rightarrow> [] | Some r \<Rightarrow> encode_rune r) s) = concat (map (\<lambda>c. [c]) s)"
    using assms by (intro arg_cong [where f = concat] map_cong)
      (auto simp: ascii_def list_all_iff encode_rune_ascii)
  then show ?thesis using assms by (simp add: strings_map_ascii)
qed

subsection \<open>TrimSpace\<close>

text \<open>The UTF-8 encodings of the runes with the White\_Space property.\<close>

definition unicode_spaces :: "string list" where
  "unicode_spaces =
     map (\<lambda>n. [char_of n]) [9, 10, 11, 12, 13, 32 :: nat] @
     map encode_rune [133, 160, 5760, 8192, 8193, 8194, 8195, 8196, 8197, 8198, 8199, 8200, 8201,
       8202, 8232, 8233, 8239, 8287, 12288]"

fun strip_prefix_of :: "string list \<Rightarrow> string \<Rightarrow> string option" where
  "strip_prefix_of [] s = None"
| "strip_prefix_of (p # ps) s =
     (if p \<noteq> [] \<and> has_prefix s p then Some (drop (length p) s) else strip_prefix_of ps s)"

lemma strip_prefix_of_shorter: "strip_prefix_of ps s = Some t \<Longrightarrow> length t < length s"
  by (induction ps) (auto simp: has_prefix_iff split: if_splits)

function trim_left_of :: "string list \<Rightarrow> string \<Rightarrow> string" where
  "trim_left_of ps s = (case strip_prefix_of ps s of None \<Rightarrow> s | Some t \<Rightarrow> trim_left_of ps t)"
  by pat_completeness auto
termination
  by (relation "measure (\<lambda>(ps, s). length s)") (auto dest: strip_prefix_of_shorter)

declare trim_left_of.simps [simp del, go_simps]

definition trim_space :: "string \<Rightarrow> string" where
  "trim_space s =
     rev (trim_left_of (map rev unicode_spaces) (rev (trim_left_of unicode_spaces s)))"

lemma strip_prefix_of_None:
  "(\<And>p. p \<in> set ps \<Longrightarrow> p = [] \<or> \<not> has_prefix s p) \<Longrightarrow> strip_prefix_of ps s = None"
  by (induction ps) auto

lemma trim_left_of_None: "strip_prefix_of ps s = None \<Longrightarrow> trim_left_of ps s = s"
  by (subst trim_left_of.simps) simp

text \<open>Text made of printable ASCII characters has nothing to trim.\<close>

definition space_byte :: "nat \<Rightarrow> bool" where
  "space_byte b \<longleftrightarrow> b \<in> {9, 10, 11, 12, 13, 32}"

lemma unicode_spaces_bytes:
  "list_all (\<lambda>p. list_all (\<lambda>c. space_byte (byte c) \<or> 128 \<le> byte c) p \<and> p \<noteq> []) unicode_spaces"
  by (simp add: unicode_spaces_def encode_rune.simps space_byte_def)

definition solid :: "string \<Rightarrow> bool" where
  "solid s \<longleftrightarrow> list_all (\<lambda>c. byte c < 128 \<and> \<not> space_byte (byte c)) s"

lemma trim_left_of_solid:
  assumes "solid s"
    and "list_all (\<lambda>p. list_all (\<lambda>c. space_byte (byte c) \<or> 128 \<le> byte c) p \<and> p \<noteq> []) ps"
  shows "trim_left_of ps s = s"
proof (rule trim_left_of_None [OF strip_prefix_of_None])
  fix p
  assume "p \<in> set ps"
  with assms(2) obtain c q where p: "p = c # q" and c: "space_byte (byte c) \<or> 128 \<le> byte c"
    by (cases p) (auto simp: list_all_iff)
  show "p = [] \<or> \<not> has_prefix s p"
    using assms(1) c unfolding p by (cases s) (auto simp: has_prefix_def solid_def)
qed

lemma trim_space_solid: "solid s \<Longrightarrow> trim_space s = s"
proof -
  assume s: "solid s"
  have "list_all (\<lambda>p. list_all (\<lambda>c. space_byte (byte c) \<or> 128 \<le> byte c) p \<and> p \<noteq> [])
      (map rev unicode_spaces)"
    using unicode_spaces_bytes by (auto simp: list_all_iff)
  moreover have "solid (rev s)"
    using s by (simp add: solid_def)
  ultimately show ?thesis
    using s by (simp add: trim_space_def trim_left_of_solid unicode_spaces_bytes)
qed

end
