(* ===== verification/Json.thy ===== *)
theory Json
  imports Utf8
begin

text \<open>
  Package \<^verbatim>\<open>encoding/json\<close> as the sources use it: \<^verbatim>\<open>json.Marshal\<close> of a map, and
  \<^verbatim>\<open>json.Unmarshal\<close> into a \<^verbatim>\<open>map[string]interface{}\<close>. A value is what the decoder stores in an
  \<^verbatim>\<open>interface{}\<close>; a number is kept as the literal the encoder prints for it. That
  the decoder reads back what the encoder printed is shown in \<^verbatim>\<open>JsonRoundtrip\<close>.
\<close>

datatype json =
    JNull
  | JBool bool
  | JNum string
  | JStr string
  | JArr "json list"
  | JObj "(string \<times> json) list"

subsection \<open>Strings\<close>

text \<open>\<^verbatim>\<open>htmlSafeSet\<close>: the ASCII bytes the encoder copies.\<close>

definition html_safe :: "nat \<Rightarrow> bool" where
  "html_safe b \<longleftrightarrow> 32 \<le> b \<and> b < 128 \<and> b \<notin> {34, 38, 60, 62, 92}"

definition u_escape :: "nat \<Rightarrow> string" where
  "u_escape r = [CHR 92, CHR ''u'', hex_digit (r div 4096 mod 16), hex_digit (r div 256 mod 16),
     hex_digit (r div 16 mod 16), hex_digit (r mod 16)]"

definition quote_ascii :: "char \<Rightarrow> string" where
  "quote_ascii c =
     (let b = byte c in
      if html_safe b then [c]
      else if b = 34 \<or> b = 92 then [CHR 92, c]
      else if b = 8 then [CHR 92, CHR ''b'']
      else if b = 12 then [CHR 92, CHR ''f'']
      else if b = 10 then [CHR 92, CHR ''n'']
      else if b = 13 then [CHR 92, CHR ''r'']
      else if b = 9 then [CHR 92, CHR ''t'']
      else u_escape b)"

function quote_body :: "string \<Rightarrow> string" where
  "quote_body s =
     (if s = [] then []
      else (let r = fst (decode_rune s); w = snd (decode_rune s) in
            (if byte (hd s) < 128 then quote_ascii (hd s)
             else if r = rune_error \<and> w = 1 then u_escape rune_error
             else if r = 8232 \<or> r = 8233 then u_escape r
             else take w s) @ quote_body (drop w s)))"
  by pat_completeness auto
termination
proof (relation "measure length")
  fix s :: string and r w :: nat
  assume "s \<noteq> []" "w = snd (decode_rune s)"
  then show "(drop w s, s) \<in> measure length"
    using decode_rune_width_pos [of s] by (cases s) auto
qed simp

declare quote_body.simps [simp del]

definition json_quote :: "string \<Rightarrow> string" where
  "json_quote s = CHR 34 # quote_body s @ [CHR 34]"

text \<open>\<^verbatim>\<open>getu4\<close>: four hexadecimal digits, with the text after them.\<close>

fun get_u4 :: "string \<Rightarrow> (nat \<times> string) option" where
  "get_u4 (a # b # c # d # s) =
     (case (hex_value a, hex_value b, hex_value c, hex_value d) of
        (Some w, Some x, Some y, Some z) \<Rightarrow> Some (((w * 16 + x) * 16 + y) * 16 + z, s)
      | _ \<Rightarrow> None)"
| "get_u4 _ = None"

definition is_surrogate :: "nat \<Rightarrow> bool" where
  "is_surrogate r \<longleftrightarrow> 55296 \<le> r \<and> r \<le> 57343"

text \<open>\<^verbatim>\<open>utf16.DecodeRune\<close> on a pair.\<close>

definition decode_pair :: "nat \<Rightarrow> nat \<Rightarrow> nat option" where
  "decode_pair r1 r2 =
     (if 55296 \<le> r1 \<and> r1 < 56320 \<and> 56320 \<le> r2 \<and> r2 < 57344
      then Some ((r1 - 55296) * 1024 + (r2 - 56320) + 65536) else None)"

text \<open>The escape after \<^verbatim>\<open>\u\<close>: the rune it denotes and the text after it.\<close>

definition unquote_u :: "string \<Rightarrow> (nat \<times> string) option" where
  "unquote_u s =
     (case get_u4 s of
        None \<Rightarrow> None
      | Some (r, t) \<Rightarrow>
          if is_surrogate r then
            (case t of
               a # b # t' \<Rightarrow>
                 (if a = CHR 92 \<and> b = CHR ''u'' then
                    (case get_u4 t' of
                       Some (r2, t'') \<Rightarrow>
                         (case decode_pair r r2 of
                            Some p \<Rightarrow> Some (p, t'') | None \<Rightarrow> Some (rune_error, t))
                     | None \<Rightarrow> Some (rune_error, t))
                  else Some (rune_error, t))
             | _ \<Rightarrow> Some (rune_error, t))
          else Some (r, t))"

definition simple_escape :: "char \<Rightarrow> char option" where
  "simple_escape c =
     (if c = CHR 34 \<or> c = CHR 92 \<or> c = CHR ''/'' then Some c
      else if c = CHR ''b'' then Some (CHR 8)
      else if c = CHR ''f'' then Some (CHR 12)
      else if c = CHR ''n'' then Some (CHR 10)
      else if c = CHR ''r'' then Some (CHR 13)
      else if c = CHR ''t'' then Some (CHR 9)
      else None)"

lemma get_u4_shorter: "get_u4 s = Some (r, t) \<Longrightarrow> length t < length s"
  by (induction s rule: get_u4.induct) (auto split: option.splits)

lemma unquote_u_shorter: "unquote_u s = Some (r, t) \<Longrightarrow> length t < length s"
  by (fastforce simp: unquote_u_def split: option.splits if_splits list.splits
      dest: get_u4_shorter)

text \<open>
  The body of a string literal, after the opening quote: its value and the text after the
  closing quote. Unescaped control characters are errors; invalid bytes become U+FFFD.
\<close>

function scan_string :: "string \<Rightarrow> (string \<times> string) option" where
  "scan_string s =
     (case s of
        [] \<Rightarrow> None
      | c # t \<Rightarrow>
          if c = CHR 34 then Some ([], t)
          else if c = CHR 92 then
            (case t of
               [] \<Rightarrow> None
             | e # u \<Rightarrow>
                 if e = CHR ''u'' then
                   (case unquote_u u of
                      None \<Rightarrow> None
                    | Some (r, v) \<Rightarrow>
                        map_option (\<lambda>(x, y). (encode_rune r @ x, y)) (scan_string v))
                 else
                   (case simple_escape e of
                      None \<Rightarrow> None
                    | Some d \<Rightarrow> map_option (\<lambda>(x, y). (d # x, y)) (scan_string u)))
          else if byte c < 32 then None
          else map_option (\<lambda>(x, y). (encode_rune (fst (decode_rune s)) @ x, y))
                 (scan_string (drop (snd (decode_rune s)) s)))"
  by pat_completeness auto
termination
proof (relation "measure length", goal_cases)
  case (4 s c t)
  then show ?case using decode_rune_width_pos [of s] by (simp add: diff_less del: decode_rune.simps)
qed (auto dest: unquote_u_shorter)

declare scan_string.simps [simp del]

subsection \<open>Numbers\<close>

definition is_digit :: "char \<Rightarrow> bool" where
  "is_digit c \<longleftrightarrow> 48 \<le> byte c \<and> byte c \<le> 57"

definition span_digits :: "string \<Rightarrow> string \<times> string" where
  "span_digits s = (takeWhile is_digit s, dropWhile is_digit s)"

text \<open>The parts of a number literal: each takes the text and returns what it read and the rest.\<close>

definition scan_int :: "string \<Rightarrow> (string \<times> string) option" where
  "scan_int s =
     (case s of
        [] \<Rightarrow> None
      | c # t \<Rightarrow> if c = CHR ''0'' then Some ([c], t)
                 else if is_digit c then Some (span_digits s) else None)"

definition scan_frac :: "string \<Rightarrow> (string \<times> string) option" where
  "scan_frac s =
     (case s of
        [] \<Rightarrow> Some ([], s)
      | c # t \<Rightarrow> if c = CHR ''.'' then
                   (if fst (span_digits t) = [] then None
                    else Some (c # fst (span_digits t), snd (span_digits t)))
                 else Some ([], s))"

definition scan_sign :: "string \<Rightarrow> string \<times> string" where
  "scan_sign s =
     (case s of [] \<Rightarrow> ([], s)
      | c # t \<Rightarrow> if c = CHR ''+'' \<or> c = CHR ''-'' then ([c], t) else ([], s))"

definition scan_exp :: "string \<Rightarrow> (string \<times> string) option" where
  "scan_exp s =
     (case s of
        [] \<Rightarrow> Some ([], s)
      | c # t \<Rightarrow> if c = CHR ''e'' \<or> c = CHR ''E'' then
                   (let (sg, u) = scan_sign t; (ds, v) = span_digits u in
                    if ds = [] then None else Some (c # sg @ ds, v))
                 else Some ([], s))"

definition scan_number :: "string \<Rightarrow> (string \<times> string) option" where
  "scan_number s =
     (let (neg, s0) = (case s of [] \<Rightarrow> ([], s)
                       | c # t \<Rightarrow> if c = CHR ''-'' then ([c], t) else ([], s)) in
      case scan_int s0 of None \<Rightarrow> None
      | Some (i, s1) \<Rightarrow>
        (case scan_frac s1 of None \<Rightarrow> None
         | Some (f, s2) \<Rightarrow>
           (case scan_exp s2 of None \<Rightarrow> None
            | Some (e, s3) \<Rightarrow> Some (neg @ i @ f @ e, s3))))"

subsection \<open>Values\<close>

definition is_ws :: "char \<Rightarrow> bool" where
  "is_ws c \<longleftrightarrow> byte c \<in> {9, 10, 13, 32}"

definition skip_ws :: "string \<Rightarrow> string" where
  "skip_ws s = dropWhile is_ws s"

text \<open>
  The parser keeps every member in the order of the text. A Go map is built key by key: a later
  value replaces an earlier one.
\<close>

fun go_map :: "(string \<times> json) list \<Rightarrow> (string \<times> json) list" where
  "go_map [] = []"
| "go_map ((k, v) # m) = (if k \<in> set (map fst m) then go_map m else (k, v) # go_map m)"

fun parse_value :: "nat \<Rightarrow> int \<Rightarrow> string \<Rightarrow> (json \<times> string) option"
  and parse_elems :: "nat \<Rightarrow> int \<Rightarrow> string \<Rightarrow> (json list \<times> string) option"
  and parse_members :: "nat \<Rightarrow> int \<Rightarrow> string \<Rightarrow> ((string \<times> json) list \<times> string) option" where
  "parse_value 0 d s = None"
| "parse_value (Suc n) d s =
     (case skip_ws s of
        [] \<Rightarrow> None
      | c # t \<Rightarrow>
          if c = CHR 34 then map_option (\<lambda>(x, r). (JStr x, r)) (scan_string t)
          else if c = CHR ''{'' then
            (if d = 0 then None
             else if has_prefix (skip_ws t) ''}'' then Some (JObj [], tl (skip_ws t))
             else map_option (\<lambda>(m, r). (JObj m, r)) (parse_members n (d - 1) t))
          else if c = CHR ''['' then
            (if d = 0 then None
             else if has_prefix (skip_ws t) '']'' then Some (JArr [], tl (skip_ws t))
             else map_option (\<lambda>(xs, r). (JArr xs, r)) (parse_elems n (d - 1) t))
          else if has_prefix (c # t) ''true'' then Some (JBool True, drop 4 (c # t))
          else if has_prefix (c # t) ''false'' then Some (JBool False, drop 5 (c # t))
          else if has_prefix (c # t) ''null'' then Some (JNull, drop 4 (c # t))
          else map_option (\<lambda>(x, r). (JNum x, r)) (scan_number (c # t)))"
| "parse_elems 0 d s = None"
| "parse_elems (Suc n) d s =
     (case parse_value n d s of
        None \<Rightarrow> None
      | Some (v, r) \<Rightarrow>
          (case skip_ws r of
             [] \<Rightarrow> None
           | c # t \<Rightarrow>
               if c = CHR '','' then map_option (\<lambda>(vs, u). (v # vs, u)) (parse_elems n d t)
               else if c = CHR '']'' then Some ([v], t) else None))"
| "parse_members 0 d s = None"
| "parse_members (Suc n) d s =
     (case skip_ws s of
        [] \<Rightarrow> None
      | q # s1 \<Rightarrow>
          if q \<noteq> CHR 34 then None
          else (case scan_string s1 of
             None \<Rightarrow> None
           | Some (k, s2) \<Rightarrow>
               (case skip_ws s2 of
                  [] \<Rightarrow> None
                | col # s3 \<Rightarrow>
                    if col \<noteq> CHR '':'' then None
                    else (case parse_value n d s3 of
                       None \<Rightarrow> None
                     | Some (v, r) \<Rightarrow>
                         (case skip_ws r of
                            [] \<Rightarrow> None
                          | c # t \<Rightarrow>
                              if c = CHR '','' then
                                map_option (\<lambda>(m, u). ((k, v) # m, u)) (parse_members n d t)
                              else if c = CHR ''}'' then Some ([(k, v)], t) else None)))))"

text \<open>
  The decoder's nesting limit is \<^verbatim>\<open>maxNestingDepth = 10000\<close>. Every two calls of the parser read
  at least one character, so the fuel below is never exhausted by a text that parses.
\<close>

definition max_nesting_depth :: int where "max_nesting_depth = 10000"

definition json_parse :: "string \<Rightarrow> json option" where
  "json_parse s =
     (case parse_value (2 * length s + 2) max_nesting_depth s of
        None \<Rightarrow> None
      | Some (v, r) \<Rightarrow> if skip_ws r = [] then Some v else None)"

text \<open>
  A number decoded into an \<^verbatim>\<open>interface{}\<close> becomes a \<^verbatim>\<open>float64\<close>; a literal whose magnitude rounds
  past the largest one is an error of the whole call. The bound is halfway between the largest
  \<^verbatim>\<open>float64\<close> and the next power of two.
\<close>

fun digits_value :: "string \<Rightarrow> nat \<Rightarrow> nat" where
  "digits_value [] acc = acc"
| "digits_value (c # s) acc = digits_value s (10 * acc + (byte c - 48))"

definition float64_limit :: nat where "float64_limit = (2 ^ 54 - 1) * 2 ^ 970"

definition number_in_range :: "string \<Rightarrow> bool" where
  "number_in_range s =
     (let t = (if has_prefix s ''-'' then tl s else s);
          mant = takeWhile (\<lambda>c. c \<noteq> CHR ''e'' \<and> c \<noteq> CHR ''E'') t;
          ex = tl (dropWhile (\<lambda>c. c \<noteq> CHR ''e'' \<and> c \<noteq> CHR ''E'') t);
          frac = filter is_digit (dropWhile is_digit mant);
          m = digits_value (filter is_digit mant) 0;
          en = digits_value (filter is_digit ex) 0;
          e = (if has_prefix ex ''-'' then - int en else int en) - int (length frac)
      in if 0 \<le> e then m * 10 ^ nat e < float64_limit
         else m < float64_limit * 10 ^ nat (- e))"

fun numbers_in_range :: "json \<Rightarrow> bool" where
  "numbers_in_range (JNum s) = number_in_range s"
| "numbers_in_range (JArr xs) = (\<forall>x \<in> set xs. numbers_in_range x)"
| "numbers_in_range (JObj m) = (\<forall>p \<in> set m. case p of (k, v) \<Rightarrow> numbers_in_range v)"
| "numbers_in_range _ = True"

text \<open>The value an \<^verbatim>\<open>interface{}\<close> gets: every object becomes a map.\<close>

fun json_go :: "json \<Rightarrow> json" where
  "json_go (JArr xs) = JArr (map json_go xs)"
| "json_go (JObj m) = JObj (go_map (map (\<lambda>(k, v). (k, json_go v)) m))"
| "json_go v = v"

text \<open>\<^verbatim>\<open>json.Unmarshal(data, &m)\<close> for a map: \<^verbatim>\<open>null\<close> leaves the map nil, other values are errors.\<close>

definition unmarshal_map :: "string \<Rightarrow> (string \<times> json) list option" where
  "unmarshal_map s =
     (case json_parse s of
        Some (JObj m) \<Rightarrow>
          if numbers_in_range (JObj m) then Some (go_map (map (\<lambda>(k, v). (k, json_go v)) m)) else None
      | Some JNull \<Rightarrow> Some []
      | _ \<Rightarrow> None)"

function json_encode :: "json \<Rightarrow> string" where
  "json_encode JNull = ''null''"
| "json_encode (JBool b) = (if b then ''true'' else ''false'')"
| "json_encode (JNum s) = s"
| "json_encode (JStr s) = json_quote s"
| "json_encode (JArr xs) = CHR ''['' # join_char (CHR '','') (map json_encode xs) @ '']''"
| "json_encode (JObj m) =
     CHR ''{'' # join_char (CHR '','') (map (\<lambda>kv. json_quote (fst kv) @ CHR '':'' # json_encode (snd kv)) m) @ ''}''"
  by pat_completeness auto
termination
proof (relation "measure size", goal_cases)
  case (2 xs x)
  then show ?case by (induction xs) auto
next
  case (3 m kv)
  then show ?case
  proof (induction m)
    case (Cons p m)
    then show ?case by (cases p; cases kv) auto
  qed simp
qed simp

end
