(* ===== verification/Gotime.thy ===== *)
theory Gotime
  imports Json
begin

text \<open>
  The text forms of \<^verbatim>\<open>time.Time\<close> the sources use, for times in UTC: the civil date of a day
  number in the proleptic Gregorian calendar, and the layouts \<^verbatim>\<open>time.RFC3339\<close> and
  \<^verbatim>\<open>time.RFC3339Nano\<close> (the one \<^verbatim>\<open>MarshalJSON\<close> uses, which refuses years outside 0..9999).
\<close>

record civil =
  year :: int
  month :: int
  day :: int

definition civil_of_day :: "int \<Rightarrow> civil" where
  "civil_of_day n =
     (let z = n + 719468; era = z div 146097; doe = z mod 146097;
          yoe = (doe - doe div 1460 + doe div 36524 - doe div 146096) div 365;
          doy = doe - (365 * yoe + yoe div 4 - yoe div 100);
          mp = (5 * doy + 2) div 153;
          m = (if mp < 10 then mp + 3 else mp - 9)
      in \<lparr>year = yoe + era * 400 + (if m \<le> 2 then 1 else 0), month = m,
          day = doy - (153 * mp + 2) div 5 + 1\<rparr>)"

definition unix_seconds :: "gotime \<Rightarrow> int" where "unix_seconds t = t div second"
definition day_number :: "gotime \<Rightarrow> int" where "day_number t = unix_seconds t div 86400"
definition day_second :: "gotime \<Rightarrow> int" where "day_second t = unix_seconds t mod 86400"
definition nanos :: "gotime \<Rightarrow> int" where "nanos t = t mod second"
definition year_of :: "gotime \<Rightarrow> int" where "year_of t = year (civil_of_day (day_number t))"

text \<open>A number in a fixed count of decimal digits.\<close>

fun pad_digits :: "nat \<Rightarrow> int \<Rightarrow> string" where
  "pad_digits 0 n = []"
| "pad_digits (Suc k) n = pad_digits k (n div 10) @ [char_of (48 + n mod 10)]"

lemma length_pad_digits [simp]: "length (pad_digits k n) = k"
  by (induction k arbitrary: n) auto

definition trim_zeros :: "string \<Rightarrow> string" where
  "trim_zeros s = rev (dropWhile (\<lambda>c. c = CHR ''0'') (rev s))"

lemma length_trim_zeros: "length (trim_zeros s) \<le> length s"
  by (simp add: trim_zeros_def length_dropWhile_le [of _ "rev s", simplified])

definition date_clock :: "gotime \<Rightarrow> string" where
  "date_clock t =
     (let c = civil_of_day (day_number t); s = day_second t in
      pad_digits 4 (year c) @ ''-'' @ pad_digits 2 (month c) @ ''-'' @ pad_digits 2 (day c) @ ''T'' @
      pad_digits 2 (s div 3600) @ '':'' @ pad_digits 2 (s div 60 mod 60) @ '':'' @ pad_digits 2 (s mod 60))"

definition format_rfc3339 :: "gotime \<Rightarrow> string" where
  "format_rfc3339 t = date_clock t @ ''Z''"

definition format_rfc3339_nano :: "gotime \<Rightarrow> string" where
  "format_rfc3339_nano t =
     date_clock t @ (if nanos t = 0 then [] else CHR ''.'' # trim_zeros (pad_digits 9 (nanos t))) @ ''Z''"

definition time_marshal_json :: "gotime \<Rightarrow> string option" where
  "time_marshal_json t =
     (if 0 \<le> year_of t \<and> year_of t \<le> 9999
      then Some (CHR 34 # format_rfc3339_nano t @ [CHR 34]) else None)"

lemma length_date_clock [simp]: "length (date_clock t) = 19"
  by (simp add: date_clock_def Let_def)

lemma length_time_json: "time_marshal_json t = Some s \<Longrightarrow> length s \<le> 32"
  using length_trim_zeros [of "pad_digits 9 (nanos t)"]
  by (auto simp: time_marshal_json_def format_rfc3339_nano_def split: if_splits)

end
