(* ===== verification/Sha256.thy ===== *)
theory Sha256
  imports Codec
begin

text \<open>
  Packages \<^verbatim>\<open>crypto/sha256\<close> and \<^verbatim>\<open>crypto/hmac\<close> as the sources use them: SHA-256 (FIPS 180-4) on
  32-bit words, and HMAC (RFC 2104) over it. Everything is executable; the only facts the
  rest of the development uses are the lengths of the digests and that both are functions.
\<close>

unbundle bit_operations_syntax

type_synonym w32 = "32 word"

definition sha_k :: "w32 list" where
  "sha_k =
    [1116352408, 1899447441, 3049323471, 3921009573, 961987163, 1508970993, 2453635748, 2870763221,
     3624381080, 310598401, 607225278, 1426881987, 1925078388, 2162078206, 2614888103, 3248222580,
     3835390401, 4022224774, 264347078, 604807628, 770255983, 1249150122, 1555081692, 1996064986,
     2554220882, 2821834349, 2952996808, 3210313671, 3336571891, 3584528711, 113926993, 338241895,
     666307205, 773529912, 1294757372, 1396182291, 1695183700, 1986661051, 2177026350, 2456956037,
     2730485921, 2820302411, 3259730800, 3345764771, 3516065817, 3600352804, 4094571909, 275423344,
     430227734, 506948616, 659060556, 883997877, 958139571, 1322822218, 1537002063, 1747873779,
     1955562222, 2024104815, 2227730452, 2361852424, 2428436474, 2756734187, 3204031479, 3329325298]"

record sha_state =
  hA :: w32  hB :: w32  hC :: w32  hD :: w32  hE :: w32  hF :: w32  hG :: w32  hH :: w32

definition sha_init :: sha_state where
  "sha_init = \<lparr>hA = 1779033703, hB = 3144134277, hC = 1013904242, hD = 2773480762,
               hE = 1359893119, hF = 2600822924, hG = 528734635, hH = 1541459225\<rparr>"

definition rotr :: "nat \<Rightarrow> w32 \<Rightarrow> w32" where
  "rotr n x = drop_bit n x OR push_bit (32 - n) x"

definition sha_ch :: "w32 \<Rightarrow> w32 \<Rightarrow> w32 \<Rightarrow> w32" where
  "sha_ch x y z = (x AND y) XOR (NOT x AND z)"
definition sha_maj :: "w32 \<Rightarrow> w32 \<Rightarrow> w32 \<Rightarrow> w32" where
  "sha_maj x y z = (x AND y) XOR (x AND z) XOR (y AND z)"
definition big_sigma0 :: "w32 \<Rightarrow> w32" where
  "big_sigma0 x = rotr 2 x XOR rotr 13 x XOR rotr 22 x"
definition big_sigma1 :: "w32 \<Rightarrow> w32" where
  "big_sigma1 x = rotr 6 x XOR rotr 11 x XOR rotr 25 x"
definition small_sigma0 :: "w32 \<Rightarrow> w32" where
  "small_sigma0 x = rotr 7 x XOR rotr 18 x XOR drop_bit 3 x"
definition small_sigma1 :: "w32 \<Rightarrow> w32" where
  "small_sigma1 x = rotr 17 x XOR rotr 19 x XOR drop_bit 10 x"

text \<open>The message schedule, kept newest word first.\<close>

fun sha_extend :: "nat \<Rightarrow> w32 list \<Rightarrow> w32 list" where
  "sha_extend 0 ws = ws"
| "sha_extend (Suc n) ws =
     sha_extend n ((small_sigma1 (ws ! 1) + ws ! 6 + small_sigma0 (ws ! 14) + ws ! 15) # ws)"

definition sha_round :: "w32 \<times> w32 \<Rightarrow> sha_state \<Rightarrow> sha_state" where
  "sha_round kw s =
     (let t1 = hH s + big_sigma1 (hE s) + sha_ch (hE s) (hF s) (hG s) + fst kw + snd kw;
          t2 = big_sigma0 (hA s) + sha_maj (hA s) (hB s) (hC s)
      in \<lparr>hA = t1 + t2, hB = hA s, hC = hB s, hD = hC s,
          hE = hD s + t1, hF = hE s, hG = hF s, hH = hG s\<rparr>)"

definition sha_block :: "w32 list \<Rightarrow> sha_state \<Rightarrow> sha_state" where
  "sha_block ws s =
     (let r = fold sha_round (zip sha_k (rev (sha_extend 48 (rev ws)))) s
      in \<lparr>hA = hA s + hA r, hB = hB s + hB r, hC = hC s + hC r, hD = hD s + hD r,
          hE = hE s + hE r, hF = hF s + hF r, hG = hG s + hG r, hH = hH s + hH r\<rparr>)"

fun words_of :: "string \<Rightarrow> w32 list" where
  "words_of (a # b # c # d # s) =
     word_of_int (((of_char a * 256 + of_char b) * 256 + of_char c) * 256 + of_char d) # words_of s"
| "words_of _ = []"

fun sha_blocks :: "nat \<Rightarrow> w32 list \<Rightarrow> sha_state \<Rightarrow> sha_state" where
  "sha_blocks 0 ws s = s"
| "sha_blocks (Suc n) ws s = sha_blocks n (drop 16 ws) (sha_block (take 16 ws) s)"

fun be_bytes :: "nat \<Rightarrow> int \<Rightarrow> string" where
  "be_bytes 0 n = []"
| "be_bytes (Suc k) n = be_bytes k (n div 256) @ [char_of (n mod 256)]"

definition sha_pad :: "string \<Rightarrow> string" where
  "sha_pad s =
     s @ [char_of (128::nat)] @ replicate ((119 - length s mod 64) mod 64) (char_of (0::nat))
       @ be_bytes 8 (8 * int (length s))"

definition sha256 :: "string \<Rightarrow> string" where
  "sha256 s =
     (let p = sha_pad s; r = sha_blocks (length p div 64) (words_of p) sha_init
      in concat (map (\<lambda>w. be_bytes 4 (uint w)) [hA r, hB r, hC r, hD r, hE r, hF r, hG r, hH r]))"

lemma length_be_bytes [simp]: "length (be_bytes k n) = k"
  by (induction k arbitrary: n) auto

lemma length_sha256 [simp]: "length (sha256 s) = 32"
  by (simp add: sha256_def Let_def)

text \<open>Padding fills whole 64-byte blocks, so every byte of the message is hashed.\<close>

lemma pad_to_block: "(n + 9 + (119 - n mod 64) mod 64) mod 64 = (0::nat)"
proof -
  define m where "m = n mod 64"
  then have m: "m < 64" and n: "n = 64 * (n div 64) + m" by simp_all
  show ?thesis
  proof (cases "m < 56")
    case True
    then have "(119 - m) mod 64 = 55 - m" by (simp add: mod_if)
    then have "n + 9 + (119 - m) mod 64 = 64 * (n div 64 + 1)" using n True by simp
    then show ?thesis by (simp only: m_def mod_mult_self1_is_0)
  next
    case False
    then have "(119 - m) mod 64 = 119 - m" using m by simp
    then have "n + 9 + (119 - m) mod 64 = 64 * (n div 64 + 2)" using n m by simp
    then show ?thesis by (simp only: m_def mod_mult_self1_is_0)
  qed
qed

lemma sha_pad_blocks: "length (sha_pad s) mod 64 = 0"
  using pad_to_block [of "length s"] by (simp add: sha_pad_def ac_simps)

text \<open>\<^verbatim>\<open>hex.EncodeToString(sha256.Sum256(s))\<close>, the content hash of the storage backends.\<close>

definition sha256_hex :: "string \<Rightarrow> string" where
  "sha256_hex s = hex_encode (sha256 s)"

lemma length_sha256_hex [simp]: "length (sha256_hex s) = 64"
  by (simp add: sha256_hex_def)

lemma sha256_hex_nonempty [simp]: "sha256_hex s \<noteq> []"
  using length_sha256_hex [of s] by force

definition xor_byte :: "nat \<Rightarrow> char \<Rightarrow> char" where
  "xor_byte n c = char_of (byte c XOR n)"

definition hmac_key :: "string \<Rightarrow> string" where
  "hmac_key k =
     (let h = (if 64 < length k then sha256 k else k)
      in h @ replicate (64 - length h) (char_of (0::nat)))"

definition hmac_sha256 :: "string \<Rightarrow> string \<Rightarrow> string" where
  "hmac_sha256 k m =
     sha256 (map (xor_byte 92) (hmac_key k) @ sha256 (map (xor_byte 54) (hmac_key k) @ m))"

lemma length_hmac_sha256 [simp]: "length (hmac_sha256 k m) = 32"
  by (simp add: hmac_sha256_def)

lemma length_hmac_key: "length (hmac_key k) = 64"
  by (simp add: hmac_key_def Let_def)

end
