(* ===== verification/Strconv.thy ===== *)
theory Strconv
  imports Codec
begin

text \<open>
  Package \<^verbatim>\<open>strconv\<close>: decimal numbers as text. \<^verbatim>\<open>Atoi\<close> and \<^verbatim>\<open>ParseInt(s, 10, 64)\<close> accept the same texts on a
  64-bit machine: an optional sign and digits within range.
\<close>

definition decimal_digit :: "char \<Rightarrow> bool" where
  "decimal_digit c \<longleftrightarrow> 48 \<le> byte c \<and> byte c \<le> 57"

fun decimal_value :: "string \<Rightarrow> nat \<Rightarrow> nat" where
  "decimal_value [] acc = acc"
| "decimal_value (c # s) acc = decimal_value s (10 * acc + (byte c - 48))"

definition atoi :: "string \<Rightarrow> int option" where
  "atoi s =
     (let neg = has_prefix s ''-''; t = (if neg \<or> has_prefix s ''+'' then tl s else s);
          n = (if neg then - int (decimal_value t 0) else int (decimal_value t 0))
      in if t \<noteq> [] \<and> list_all decimal_digit t \<and> - (2 ^ 63) \<le> n \<and> n < 2 ^ 63 then Some n else None)"

definition format_bool :: "bool \<Rightarrow> string" where
  "format_bool b = (if b then ''true'' else ''false'')"

lemma digit_byte [simp]: "d < 10 \<Longrightarrow> byte (char_of (48 + d)) = 48 + d"
  by simp

lemma nat_digits_digits: "list_all decimal_digit (nat_digits n)"
proof (induction n rule: nat_digits.induct)
  case (1 n)
  have "n mod 10 \<le> 9" by presburger
  with 1 show ?case
    by (subst nat_digits.simps) (simp, simp add: decimal_digit_def)
qed

lemma nat_digits_nonempty: "nat_digits n \<noteq> []"
  by (subst nat_digits.simps) simp

lemma decimal_value_snoc: "decimal_value (s @ [c]) acc = 10 * decimal_value s acc + (byte c - 48)"
  by (induction s arbitrary: acc) simp_all

lemma decimal_value_digits: "decimal_value (nat_digits n) 0 = n"
  by (induction n rule: nat_digits.induct) (subst nat_digits.simps, simp add: decimal_value_snoc)

lemma nat_digits_leading: "n \<noteq> 0 \<Longrightarrow> hd (nat_digits n) \<noteq> CHR ''0''"
proof (induction n rule: nat_digits.induct)
  case (1 n)
  have "char_of (48 + n) \<noteq> CHR ''0''" if "n < 10"
    using that 1(2) digit_byte [of n] by (auto dest: arg_cong [where f = byte])
  with 1 show ?case
    by (subst nat_digits.simps) (auto simp: nat_digits_nonempty)
qed

lemma nat_digits_first: "nat_digits n = c # s \<Longrightarrow> decimal_digit c"
  using nat_digits_digits [of n] by simp

text \<open>What \<^verbatim>\<open>Itoa\<close> or \<^verbatim>\<open>FormatInt\<close> wrote reads back.\<close>

lemma atoi_itoa:
  assumes "- (2 ^ 63) \<le> i" "i < 2 ^ 63"
  shows "atoi (itoa i) = Some i"
proof (cases "i < 0")
  case True
  then show ?thesis
    using assms by (simp add: atoi_def itoa_def has_prefix_def nat_digits_nonempty nat_digits_digits decimal_value_digits)
next
  case False
  obtain c s where c: "nat_digits (nat i) = c # s" by (cases "nat_digits (nat i)") (simp_all add: nat_digits_nonempty)
  then have "c \<noteq> CHR ''-''" "c \<noteq> CHR ''+''" using nat_digits_first [OF c] by (auto simp: decimal_digit_def)
  then have "\<not> has_prefix (nat_digits (nat i)) ''-''" "\<not> has_prefix (nat_digits (nat i)) ''+''"
    using c by (simp_all add: has_prefix_def)
  then show ?thesis
    using assms False by (simp add: atoi_def itoa_def nat_digits_nonempty nat_digits_digits decimal_value_digits)
qed

lemma format_bool_true [simp]: "format_bool b = ''true'' \<longleftrightarrow> b"
  by (simp add: format_bool_def)

end
