(* ===== verification/Models.thy ===== *)
theory Models
  imports Gotime Sha256
begin

text \<open>
  Package \<^verbatim>\<open>models\<close> (\<^verbatim>\<open>src/models/\<close>): the paste metadata, the requests and responses of the API,
  validation errors, and \<^verbatim>\<open>Paste.Validate\<close>.
\<close>

record paste =
  p_id :: string
  p_expires_at :: gotime
  p_burn_after_read :: bool
  p_size_bytes :: int
  p_created_at :: gotime
  p_is_burned :: bool

record save_paste_result =
  sr_paste :: paste
  sr_was_deduplicated :: bool
  sr_references_id :: string
  sr_content_hash :: string

text \<open>The decoded request; \<^verbatim>\<open>Metadata\<close> is nil when the field is absent or null.\<close>

record create_paste_request =
  ciphertext :: string
  plaintext :: string
  metadata :: "json option"
  expiry_seconds :: int
  burn_after_read :: bool
  turnstile_token :: string

record paste_response =
  resp_id :: string
  resp_expires_at :: gotime

record validation_error =
  ve_field :: string
  ve_message :: string

text \<open>The literal \<^verbatim>\<open>&models.Paste{ID: id, IsBurned: true}\<close>: every other field has its zero value.\<close>

definition burned_paste :: "string \<Rightarrow> paste" where
  "burned_paste i = \<lparr>p_id = i, p_expires_at = zero_time, p_burn_after_read = False,
     p_size_bytes = 0, p_created_at = zero_time, p_is_burned = True\<rparr>"

subsection \<open>Paste identifiers\<close>

text \<open>The pattern \<^verbatim>\<open>^[A-Za-z0-9_-]{43}$\<close>.\<close>

definition id_char :: "char \<Rightarrow> bool" where
  "id_char c \<longleftrightarrow> (65 \<le> byte c \<and> byte c \<le> 90) \<or> (97 \<le> byte c \<and> byte c \<le> 122) \<or>
     (48 \<le> byte c \<and> byte c \<le> 57) \<or> c = CHR ''_'' \<or> c = CHR ''-''"

definition id_pattern :: "string \<Rightarrow> bool" where
  "id_pattern s \<longleftrightarrow> length s = 43 \<and> list_all id_char s"

lemma url_alphabet_id_chars: "list_all id_char url_alphabet"
  by (simp add: url_alphabet_def id_char_def)

lemma id_char_solid: "id_char c \<Longrightarrow> byte c < 128 \<and> \<not> space_byte (byte c)"
  by (auto simp: id_char_def space_byte_def)

lemma id_pattern_solid: "id_pattern s \<Longrightarrow> solid s"
  by (auto simp: id_pattern_def solid_def list_all_iff dest: id_char_solid)

lemma id_pattern_ascii: "id_pattern s \<Longrightarrow> ascii s"
  by (auto simp: id_pattern_def ascii_def list_all_iff dest: id_char_solid)

lemma id_pattern_no_slash: "id_pattern s \<Longrightarrow> CHR ''/'' \<notin> set s"
  by (auto simp: id_pattern_def list_all_iff id_char_def)

lemma id_char_html_safe: "id_char c \<Longrightarrow> html_safe (byte c)"
  by (auto simp: id_char_def html_safe_def)

subsection \<open>Paste.Validate\<close>

definition bool_text :: "bool \<Rightarrow> string" where
  "bool_text b = (if b then ''true'' else ''false'')"

text \<open>\<^verbatim>\<open>json.Marshal\<close> of a \<^verbatim>\<open>Paste\<close>; it fails when a time cannot be marshalled.\<close>

definition marshal_paste :: "paste \<Rightarrow> string option" where
  "marshal_paste p =
     (case (time_marshal_json (p_expires_at p), time_marshal_json (p_created_at p)) of
        (Some e, Some c) \<Rightarrow>
          Some (''{\"id\":'' @ json_quote (p_id p) @ '',\"expires_at\":'' @ e @
            '',\"burn_after_read\":'' @ bool_text (p_burn_after_read p) @
            '',\"size_bytes\":'' @ itoa (p_size_bytes p) @ '',\"created_at\":'' @ c @
            '',\"is_burned\":'' @ bool_text (p_is_burned p) @ ''}'')
      | _ \<Rightarrow> None)"

text \<open>\<^const>\<open>None\<close> is Go's nil error.\<close>

definition paste_validate :: "paste \<Rightarrow> string option" where
  "paste_validate p =
     (if \<not> id_pattern (p_id p) then Some ''invalid paste ID format''
      else (case marshal_paste p of
              None \<Rightarrow> Some ''invalid paste metadata''
            | Some d \<Rightarrow> if length d > 1024 then Some ''paste metadata exceeds 1KB limit'' else None))"

lemma quote_body_safe:
  "list_all (\<lambda>c. html_safe (byte c)) s \<Longrightarrow> quote_body s = s"
proof (induction s)
  case Nil
  then show ?case by (simp add: quote_body.simps)
next
  case (Cons c s)
  then have "html_safe (byte c)" "byte c < 128" by (auto simp: html_safe_def)
  with Cons show ?case
    by (subst quote_body.simps) (simp add: quote_ascii_def Let_def del: decode_rune.simps)
qed

lemma json_quote_id: "id_pattern s \<Longrightarrow> json_quote s = CHR 34 # s @ [CHR 34]"
  unfolding json_quote_def
  by (subst quote_body_safe) (auto simp: id_pattern_def list_all_iff id_char_html_safe)

lemma length_nat_digits: "n < 10 ^ Suc k \<Longrightarrow> length (nat_digits n) \<le> Suc k"
proof (induction n arbitrary: k rule: nat_digits.induct)
  case (1 n)
  show ?case
  proof (cases "n < 10")
    case True
    then show ?thesis by (subst nat_digits.simps) simp
  next
    case False
    with "1.prems" obtain j where k: "k = Suc j" by (cases k) auto
    have "n div 10 < 10 ^ Suc j"
      using "1.prems" k by (simp add: less_mult_imp_div_less)
    then have "length (nat_digits (n div 10)) \<le> Suc j" using "1.IH" False by blast
    with False k show ?thesis by (subst nat_digits.simps) simp
  qed
qed

lemma length_itoa: "\<bar>n\<bar> < 10 ^ 19 \<Longrightarrow> length (itoa n) \<le> 20"
  using length_nat_digits [of "nat \<bar>n\<bar>" 18]
  by (auto simp: itoa_def nat_less_iff split: abs_split)

text \<open>
  The metadata of a paste with a well-formed identifier is far below the limit, so only the
  identifier and the range of the two times decide validity.
\<close>

lemma length_marshal_paste:
  assumes "id_pattern (p_id p)" "\<bar>p_size_bytes p\<bar> < 10 ^ 19" "marshal_paste p = Some d"
  shows "length d \<le> 1024"
proof -
  obtain e c where e: "time_marshal_json (p_expires_at p) = Some e"
    and c: "time_marshal_json (p_created_at p) = Some c"
    and d: "d = ''{\"id\":'' @ json_quote (p_id p) @ '',\"expires_at\":'' @ e @
            '',\"burn_after_read\":'' @ bool_text (p_burn_after_read p) @
            '',\"size_bytes\":'' @ itoa (p_size_bytes p) @ '',\"created_at\":'' @ c @
            '',\"is_burned\":'' @ bool_text (p_is_burned p) @ ''}''"
    using assms(3) by (auto simp: marshal_paste_def split: option.splits)
  have "length (json_quote (p_id p)) = 45"
    using assms(1) by (simp add: json_quote_id id_pattern_def)
  moreover have "length (itoa (p_size_bytes p)) \<le> 20"
    using assms(2) by (rule length_itoa)
  moreover have "length e \<le> 32" "length c \<le> 32"
    using length_time_json e c by blast+
  moreover have "length (bool_text b) \<le> 5" for b by (simp add: bool_text_def)
  then have "length (bool_text (p_burn_after_read p)) \<le> 5" "length (bool_text (p_is_burned p)) \<le> 5"
    by blast+
  ultimately show ?thesis unfolding d by simp
qed

lemma paste_validate_iff:
  assumes "\<bar>p_size_bytes p\<bar> < 10 ^ 19"
  shows "paste_validate p = None \<longleftrightarrow>
    id_pattern (p_id p) \<and> year_of (p_expires_at p) \<in> {0..9999} \<and> year_of (p_created_at p) \<in> {0..9999}"
proof (cases "id_pattern (p_id p)")
  case True
  show ?thesis
  proof (cases "marshal_paste p")
    case None
    then show ?thesis using True
      by (auto simp: paste_validate_def marshal_paste_def time_marshal_json_def split: if_splits)
  next
    case (Some d)
    then have "length d \<le> 1024" using True assms length_marshal_paste by blast
    then show ?thesis using True Some
      by (auto simp: paste_validate_def marshal_paste_def time_marshal_json_def split: if_splits option.splits)
  qed
qed (simp add: paste_validate_def)

end
