(* ===== verification/Storage.thy ===== *)
theory Storage
  imports Models
begin

text \<open>
  \<^verbatim>\<open>src/services/storage_backend.go\<close>: the \<^verbatim>\<open>StorageBackend\<close> interface as a record of functions
  over a backend's state, the \<^verbatim>\<open>StorageService\<close> facade over it, sequences of storage operations,
  and the contract of the interface as the locale \<open>paste_store\<close>.
\<close>

datatype storage_error =
    ErrNotFound
  | ErrAlreadyBurned
  | ErrBannedContent
  | ErrWrapped string \<comment> \<open>\<^verbatim>\<open>fmt.Errorf\<close> around a driver's error: its fixed prefix\<close>

type_synonym 'a result = "storage_error + 'a"

record 'db backend =
  SavePaste :: "'db \<Rightarrow> string \<Rightarrow> string \<Rightarrow> int \<Rightarrow> bool \<Rightarrow> bool \<Rightarrow> save_paste_result result \<times> 'db"
  GetPaste :: "'db \<Rightarrow> string \<Rightarrow> (string \<times> paste) result \<times> 'db"
  MarkBurned :: "'db \<Rightarrow> string \<Rightarrow> unit result \<times> 'db"
  DeletePaste :: "'db \<Rightarrow> string \<Rightarrow> unit result \<times> 'db"
  BanContentHash :: "'db \<Rightarrow> string \<Rightarrow> string \<Rightarrow> unit result \<times> 'db"
  BanPlaintextHash :: "'db \<Rightarrow> string \<Rightarrow> string \<Rightarrow> unit result \<times> 'db"
  Ping :: "'db \<Rightarrow> unit result"
  Close :: "'db \<Rightarrow> unit result"

subsection \<open>StorageService\<close>

text \<open>The facade delegates; only \<^verbatim>\<open>Close\<close> allows for a missing backend.\<close>

record 'db storage_service =
  svc_backend :: "'db backend option"

definition NewStorageServiceWithBackend :: "'db backend \<Rightarrow> 'db storage_service" where
  "NewStorageServiceWithBackend b = \<lparr>svc_backend = Some b\<rparr>"

text \<open>A call through a nil interface panics; \<^const>\<open>None\<close> is that panic.\<close>

definition service_save ::
  "'db storage_service \<Rightarrow> 'db \<Rightarrow> string \<Rightarrow> string \<Rightarrow> int \<Rightarrow> bool \<Rightarrow> bool \<Rightarrow>
   (save_paste_result result \<times> 'db) option" where
  "service_save s db i c x b p = map_option (\<lambda>k. SavePaste k db i c x b p) (svc_backend s)"

definition service_get ::
  "'db storage_service \<Rightarrow> 'db \<Rightarrow> string \<Rightarrow> ((string \<times> paste) result \<times> 'db) option" where
  "service_get s db i = map_option (\<lambda>k. GetPaste k db i) (svc_backend s)"

definition service_delete ::
  "'db storage_service \<Rightarrow> 'db \<Rightarrow> string \<Rightarrow> (unit result \<times> 'db) option" where
  "service_delete s db i = map_option (\<lambda>k. DeletePaste k db i) (svc_backend s)"

definition service_mark_burned ::
  "'db storage_service \<Rightarrow> 'db \<Rightarrow> string \<Rightarrow> (unit result \<times> 'db) option" where
  "service_mark_burned s db i = map_option (\<lambda>k. MarkBurned k db i) (svc_backend s)"

definition service_ban_content ::
  "'db storage_service \<Rightarrow> 'db \<Rightarrow> string \<Rightarrow> string \<Rightarrow> (unit result \<times> 'db) option" where
  "service_ban_content s db h r = map_option (\<lambda>k. BanContentHash k db h r) (svc_backend s)"

definition service_ban_plaintext ::
  "'db storage_service \<Rightarrow> 'db \<Rightarrow> string \<Rightarrow> string \<Rightarrow> (unit result \<times> 'db) option" where
  "service_ban_plaintext s db h r = map_option (\<lambda>k. BanPlaintextHash k db h r) (svc_backend s)"

definition service_ping :: "'db storage_service \<Rightarrow> 'db \<Rightarrow> unit result option" where
  "service_ping s db = map_option (\<lambda>k. Ping k db) (svc_backend s)"

definition service_close :: "'db storage_service \<Rightarrow> 'db \<Rightarrow> unit result" where
  "service_close s db = (case svc_backend s of Some k \<Rightarrow> Close k db | None \<Rightarrow> Inr ())"

subsection \<open>Plaintext hashes\<close>

text \<open>
  Every backend hashes the \<^verbatim>\<open>content\<close> field of a decoded no-password paste; content that is not a
  JSON object with a string there has no plaintext hash, which the code writes as \<^verbatim>\<open>""\<close>.
\<close>

definition plaintext_hash_of :: "string \<Rightarrow> string" where
  "plaintext_hash_of decoded =
     (case unmarshal_map decoded of
        None \<Rightarrow> []
      | Some m \<Rightarrow> (case map_of m ''content'' of Some (JStr c) \<Rightarrow> sha256_hex c | _ \<Rightarrow> []))"

text \<open>\<^verbatim>\<open>sqliteNullString\<close> and \<^verbatim>\<open>nullString\<close>: the empty string is stored as NULL.\<close>

definition null_string :: "string \<Rightarrow> string option" where
  "null_string s = (if s = [] then None else Some s)"

text \<open>\<^verbatim>\<open>now.Add(time.Duration(expirySeconds) * time.Second)\<close>.\<close>

definition expiry_time :: "gotime \<Rightarrow> int \<Rightarrow> gotime" where
  "expiry_time t n = t + int64_of (n * second)"

lemma expiry_time_small: "\<bar>n\<bar> \<le> 9000000000 \<Longrightarrow> expiry_time t n = t + n * second"
  by (simp add: expiry_time_def second_def)

subsection \<open>Sequences of operations\<close>

text \<open>
  Each backend operation takes effect atomically (its transaction), so a concurrent history is
  a sequence of operations, each under its own environment: the clocks it reads and the driver
  calls that fail in it.
\<close>

datatype store_op =
    OpSave string string int bool bool
  | OpGet string
  | OpMarkBurned string
  | OpDelete string
  | OpBanContent string string
  | OpBanPlaintext string string

datatype store_out =
    OutSave "save_paste_result result"
  | OutGet "(string \<times> paste) result"
  | OutUnit "unit result"

fun store_step :: "'db backend \<Rightarrow> store_op \<Rightarrow> 'db \<Rightarrow> store_out \<times> 'db" where
  "store_step k (OpSave i c x b p) db = (case SavePaste k db i c x b p of (r, db') \<Rightarrow> (OutSave r, db'))"
| "store_step k (OpGet i) db = (case GetPaste k db i of (r, db') \<Rightarrow> (OutGet r, db'))"
| "store_step k (OpMarkBurned i) db = (case MarkBurned k db i of (r, db') \<Rightarrow> (OutUnit r, db'))"
| "store_step k (OpDelete i) db = (case DeletePaste k db i of (r, db') \<Rightarrow> (OutUnit r, db'))"
| "store_step k (OpBanContent h r) db = (case BanContentHash k db h r of (x, db') \<Rightarrow> (OutUnit x, db'))"
| "store_step k (OpBanPlaintext h r) db = (case BanPlaintextHash k db h r of (x, db') \<Rightarrow> (OutUnit x, db'))"

lemma store_step_pair:
  "store_step k (OpSave i c x b p) db = (OutSave (fst (SavePaste k db i c x b p)), snd (SavePaste k db i c x b p))"
  "store_step k (OpGet i) db = (OutGet (fst (GetPaste k db i)), snd (GetPaste k db i))"
  by (simp_all split: prod.splits)

fun store_run :: "('e \<Rightarrow> 'db backend) \<Rightarrow> ('e \<times> store_op) list \<Rightarrow> 'db \<Rightarrow> store_out list \<times> 'db" where
  "store_run K [] db = ([], db)"
| "store_run K ((e, x) # xs) db =
     (let (y, db1) = store_step (K e) x db; (ys, db2) = store_run K xs db1 in (y # ys, db2))"

fun out_failed :: "store_out \<Rightarrow> bool" where
  "out_failed (OutSave r) = (\<not> is_ok r)"
| "out_failed (OutGet r) = (\<not> is_ok r)"
| "out_failed (OutUnit r) = (\<not> is_ok r)"

text \<open>An operation that creates a given identifier, and one whose answer carries its content.\<close>

fun saves :: "string \<Rightarrow> store_op \<Rightarrow> bool" where
  "saves i (OpSave j c x b p) = (i = j)"
| "saves i _ = False"

fun delivers :: "string \<Rightarrow> store_op \<Rightarrow> store_out \<Rightarrow> bool" where
  "delivers i (OpGet j) (OutGet (Inr (c, p))) = (i = j \<and> c \<noteq> [])"
| "delivers i _ _ = False"

definition deliveries :: "string \<Rightarrow> ('e \<times> store_op) list \<Rightarrow> store_out list \<Rightarrow> nat" where
  "deliveries i xs ys = length (filter (\<lambda>(x, y). delivers i (snd x) y) (zip xs ys))"

lemma deliveries_simps [simp]:
  "deliveries i [] ys = 0"
  "deliveries i (x # xs) (y # ys) =
     (if delivers i (snd x) y then 1 else 0) + deliveries i xs ys"
  by (simp_all add: deliveries_def)

lemma length_store_run [simp]: "length (fst (store_run K xs db)) = length xs"
  by (induction xs arbitrary: db) (auto split: prod.splits, metis fst_conv)

subsection \<open>The contract\<close>

text \<open>
  What \<^verbatim>\<open>StorageBackend\<close> asks of an implementation (\<^verbatim>\<open>src/services/storage_backend.go\<close>, "burn-after-read
  with race-free marking"), for a state invariant \<open>inv\<close>: \<open>pending\<close> marks a burn-after-read
  paste that is stored and unread, \<open>spent\<close> one that no read will ever answer with content. A
  failed operation leaves the state as it was; only a save can bring content back to a spent
  identifier; a read that answers a pending one with content spends it in the same step.
\<close>

locale paste_store =
  fixes K :: "'e \<Rightarrow> 'db backend"
    and inv :: "'db \<Rightarrow> bool"
    and pending :: "'db \<Rightarrow> string \<Rightarrow> bool"
    and spent :: "'db \<Rightarrow> string \<Rightarrow> bool"
  assumes step_inv: "inv db \<Longrightarrow> inv (snd (store_step (K e) x db))"
    and failed_frame: "inv db \<Longrightarrow> out_failed (fst (store_step (K e) x db)) \<Longrightarrow> snd (store_step (K e) x db) = db"
    and spent_silent: "inv db \<Longrightarrow> spent db i \<Longrightarrow> \<not> delivers i x (fst (store_step (K e) x db))"
    and spent_step: "inv db \<Longrightarrow> spent db i \<Longrightarrow> \<not> saves i x \<Longrightarrow> spent (snd (store_step (K e) x db)) i"
    and pending_step: "inv db \<Longrightarrow> pending db i \<Longrightarrow> \<not> saves i x \<Longrightarrow>
      pending (snd (store_step (K e) x db)) i \<or> spent (snd (store_step (K e) x db)) i"
    and pending_delivers: "inv db \<Longrightarrow> pending db i \<Longrightarrow> delivers i x (fst (store_step (K e) x db)) \<Longrightarrow>
      spent (snd (store_step (K e) x db)) i"
begin

lemma run_inv: "inv db \<Longrightarrow> inv (snd (store_run K xs db))"
proof (induction xs arbitrary: db)
  case (Cons a xs)
  obtain e x where a: "a = (e, x)" by fastforce
  have "inv (snd (store_step (K e) x db))" using Cons.prems by (rule step_inv)
  then show ?case using Cons.IH by (simp add: a split: prod.splits) (metis snd_conv)
qed simp

lemma spent_run:
  "inv db \<Longrightarrow> spent db i \<Longrightarrow> list_all (\<lambda>a. \<not> saves i (snd a)) xs \<Longrightarrow>
   deliveries i xs (fst (store_run K xs db)) = 0 \<and> spent (snd (store_run K xs db)) i"
proof (induction xs arbitrary: db)
  case (Cons a xs)
  obtain e x where a: "a = (e, x)" by fastforce
  obtain y db1 where st: "store_step (K e) x db = (y, db1)" by fastforce
  have "inv db1" "spent db1 i" "\<not> delivers i x y"
    using step_inv [of db e x] spent_step [of db i x e] spent_silent [of db i x e] Cons.prems st a
    by auto
  then show ?case using Cons.IH [of db1] Cons.prems(3)
    by (simp add: a st split: prod.splits) (metis fst_conv snd_conv)
qed simp

text \<open>Burn-after-read over any history: the content of the paste is delivered at most once.\<close>

theorem burn_once:
  "inv db \<Longrightarrow> pending db i \<or> spent db i \<Longrightarrow> list_all (\<lambda>a. \<not> saves i (snd a)) xs \<Longrightarrow>
   deliveries i xs (fst (store_run K xs db)) \<le> 1"
proof (induction xs arbitrary: db)
  case (Cons a xs)
  obtain e x where a: "a = (e, x)" by fastforce
  obtain y db1 where st: "store_step (K e) x db = (y, db1)" by fastforce
  have inv1: "inv db1" using step_inv [OF Cons.prems(1), of e x] st by simp
  have rest: "list_all (\<lambda>a. \<not> saves i (snd a)) xs" and x: "\<not> saves i x"
    using Cons.prems(3) a by auto
  show ?case
  proof (cases "spent db i")
    case True
    then show ?thesis using spent_run [OF Cons.prems(1) True Cons.prems(3)] by simp
  next
    case False
    then have p: "pending db i" using Cons.prems(2) by blast
    show ?thesis
    proof (cases "delivers i x y")
      case True
      then have "spent db1 i" using pending_delivers [OF Cons.prems(1) p, of x e] st by simp
      then show ?thesis using spent_run [OF inv1 _ rest] True
        by (simp add: a st split: prod.splits) (metis fst_conv le_refl)
    next
      case no: False
      have "pending db1 i \<or> spent db1 i" using pending_step [OF Cons.prems(1) p x, of e] st by simp
      then show ?thesis using Cons.IH [OF inv1 _ rest] no
        by (simp add: a st split: prod.splits) (metis fst_conv)
    qed
  qed
qed simp

end

end
