(* ===== verification/Sqldb.thy ===== *)
theory Sqldb
  imports Storage
begin

text \<open>
  The relational schema the SQL backends share (\<^verbatim>\<open>initSchema\<close> in \<^verbatim>\<open>src/services/storage_sqlite.go\<close>,
  \<^verbatim>\<open>migrations/001_initial_schema.sql\<close> for PostgreSQL) and the statements they run on it. A table is
  a map from its primary key; a statement that breaks a constraint is \<^const>\<open>None\<close>.
\<close>

record paste_row =
  r_content :: "string option"
  r_references_id :: "string option"
  r_content_hash :: string
  r_plaintext_hash :: "string option"
  r_expires_at :: gotime
  r_burn_after_read :: bool
  r_size_bytes :: int
  r_is_plaintext :: bool
  r_created_at :: gotime

datatype hash_type = HCiphertext | HPlaintext

record ban_row =
  b_hash_type :: hash_type
  b_reason :: string
  b_banned_at :: gotime

record sqldb =
  pastes :: "string \<rightharpoonup> paste_row"
  hash_index :: "string \<rightharpoonup> string"
  burned_pastes :: "string \<rightharpoonup> gotime"
  banned_hashes :: "string \<rightharpoonup> ban_row"

definition empty_db :: sqldb where
  "empty_db = \<lparr>pastes = Map.empty, hash_index = Map.empty, burned_pastes = Map.empty,
               banned_hashes = Map.empty\<rparr>"

text \<open>The driver calls that can fail, and what one operation reads from its surroundings.\<close>

datatype sql_call =
    QBanPlaintext | QBanContent | QBegin | QFindHash | QInsertReference | QInsertPaste
  | QInsertHash | QCommit | QIsBurned | QSelectPaste | QParseExpires | QParseCreated
  | QInsertBurned | QRowsAffected | QSelectContent | QMarkBurned | QDelete | QDeleteBurned
  | QUpsertBan | QPing | QClose

record env =
  now :: gotime \<comment> \<open>\<^verbatim>\<open>time.Now().UTC()\<close> of the process\<close>
  db_now :: gotime \<comment> \<open>the database's clock\<close>
  fails :: "sql_call \<Rightarrow> bool"

subsection \<open>Statements\<close>

text \<open>\<^verbatim>\<open>INSERT INTO pastes\<close>: primary key and the foreign key of \<^verbatim>\<open>references_id\<close>.\<close>

definition insert_paste :: "string \<Rightarrow> paste_row \<Rightarrow> sqldb \<Rightarrow> sqldb option" where
  "insert_paste i row db =
     (if pastes db i \<noteq> None then None
      else if (case r_references_id row of None \<Rightarrow> False | Some r \<Rightarrow> r \<noteq> i \<and> pastes db r = None) then None
      else Some (db\<lparr>pastes := (pastes db)(i \<mapsto> row)\<rparr>))"

text \<open>
  \<^verbatim>\<open>INSERT OR IGNORE\<close> (\<^verbatim>\<open>ON CONFLICT DO NOTHING\<close>) skips a row whose key exists; the foreign key of
  a row it does insert is still enforced.
\<close>

definition insert_hash_or_ignore :: "string \<Rightarrow> string \<Rightarrow> sqldb \<Rightarrow> sqldb option" where
  "insert_hash_or_ignore h i db =
     (if hash_index db h \<noteq> None then Some db
      else if pastes db i = None then None
      else Some (db\<lparr>hash_index := (hash_index db)(h \<mapsto> i)\<rparr>))"

text \<open>The same for \<^verbatim>\<open>burned_pastes\<close>, with the number of rows affected.\<close>

definition insert_burned_or_ignore :: "string \<Rightarrow> gotime \<Rightarrow> sqldb \<Rightarrow> (nat \<times> sqldb) option" where
  "insert_burned_or_ignore i t db =
     (if burned_pastes db i \<noteq> None then Some (0, db)
      else if pastes db i = None then None
      else Some (1, db\<lparr>burned_pastes := (burned_pastes db)(i \<mapsto> t)\<rparr>))"

text \<open>\<^verbatim>\<open>INSERT ... ON CONFLICT (hash) DO UPDATE SET reason, banned_at\<close>: the type is not updated.\<close>

definition upsert_ban :: "string \<Rightarrow> string \<Rightarrow> hash_type \<Rightarrow> gotime \<Rightarrow> sqldb \<Rightarrow> sqldb" where
  "upsert_ban h reason ty t db =
     (let row = (case banned_hashes db h of
                   None \<Rightarrow> \<lparr>b_hash_type = ty, b_reason = reason, b_banned_at = t\<rparr>
                 | Some b \<Rightarrow> b\<lparr>b_reason := reason, b_banned_at := t\<rparr>)
      in db\<lparr>banned_hashes := (banned_hashes db)(h \<mapsto> row)\<rparr>)"

definition has_ban :: "string \<Rightarrow> hash_type \<Rightarrow> sqldb \<Rightarrow> bool" where
  "has_ban h ty db = (case banned_hashes db h of None \<Rightarrow> False | Some b \<Rightarrow> b_hash_type b = ty)"

text \<open>
  \<^verbatim>\<open>DELETE FROM pastes WHERE id\<close>, with the actions of the foreign keys: references to the paste
  become null, and its rows in \<^verbatim>\<open>hash_index\<close> and \<^verbatim>\<open>burned_pastes\<close> go with it.
\<close>

definition drop_reference :: "string \<Rightarrow> paste_row \<Rightarrow> paste_row" where
  "drop_reference i row = (if r_references_id row = Some i then row\<lparr>r_references_id := None\<rparr> else row)"

definition delete_paste :: "string \<Rightarrow> sqldb \<Rightarrow> sqldb" where
  "delete_paste i db =
     (if pastes db i = None then db
      else db\<lparr>pastes := (\<lambda>j. if j = i then None else map_option (drop_reference i) (pastes db j)),
              hash_index := (\<lambda>h. if hash_index db h = Some i then None else hash_index db h),
              burned_pastes := (burned_pastes db)(i := None)\<rparr>)"

text \<open>The paste whose row carries the content: the one referred to, or the paste itself.\<close>

definition content_id :: "string \<Rightarrow> paste_row \<Rightarrow> string" where
  "content_id i row = (case r_references_id row of Some r \<Rightarrow> if r \<noteq> [] then r else i | None \<Rightarrow> i)"

subsection \<open>Well-formedness\<close>

text \<open>A row that stores content of its own stores the content its hash names.\<close>

definition original_row :: "sqldb \<Rightarrow> string \<Rightarrow> string \<Rightarrow> bool" where
  "original_row db i h \<longleftrightarrow>
     (case pastes db i of
        None \<Rightarrow> False
      | Some row \<Rightarrow> r_references_id row = None \<and> r_content_hash row = h \<and>
          (case r_content row of None \<Rightarrow> False | Some c \<Rightarrow> sha256_hex c = h))"

definition db_ok :: "sqldb \<Rightarrow> bool" where
  "db_ok db \<longleftrightarrow>
     (\<forall>h i. hash_index db h = Some i \<longrightarrow> original_row db i h) \<and>
     (\<forall>i row r. pastes db i = Some row \<longrightarrow> r_references_id row = Some r \<longrightarrow>
        original_row db r (r_content_hash row)) \<and>
     (\<forall>i row c. pastes db i = Some row \<longrightarrow> r_content row = Some c \<longrightarrow>
        r_references_id row = None \<and> r_content_hash row = sha256_hex c) \<and>
     (\<forall>i. burned_pastes db i \<noteq> None \<longrightarrow> pastes db i \<noteq> None)"

lemma original_rowE:
  assumes "original_row db i h"
  obtains row c where "pastes db i = Some row" "r_references_id row = None"
    "r_content_hash row = h" "r_content row = Some c" "sha256_hex c = h"
  using assms by (auto simp: original_row_def split: option.splits)

lemma db_ok_hash: "db_ok db \<Longrightarrow> hash_index db h = Some i \<Longrightarrow> original_row db i h"
  by (simp add: db_ok_def)

lemma db_ok_ref:
  "db_ok db \<Longrightarrow> pastes db i = Some row \<Longrightarrow> r_references_id row = Some r \<Longrightarrow>
   original_row db r (r_content_hash row)"
  by (auto simp: db_ok_def)

lemma db_ok_ref_exists:
  "db_ok db \<Longrightarrow> pastes db i = Some row \<Longrightarrow> r_references_id row = Some r \<Longrightarrow> pastes db r \<noteq> None"
  by (auto dest!: db_ok_ref elim: original_rowE)

lemma db_ok_content:
  "db_ok db \<Longrightarrow> pastes db i = Some row \<Longrightarrow> r_content row = Some c \<Longrightarrow>
   r_references_id row = None \<and> r_content_hash row = sha256_hex c"
  by (auto simp: db_ok_def)

lemma db_ok_burned: "db_ok db \<Longrightarrow> burned_pastes db i = Some t \<Longrightarrow> \<exists>row. pastes db i = Some row"
  by (fastforce simp: db_ok_def)

lemma db_ok_empty [wf_intros]: "db_ok empty_db"
  by (simp add: db_ok_def empty_db_def)

lemma original_row_update:
  "pastes db i = None \<Longrightarrow> original_row db j h \<Longrightarrow>
   original_row (db\<lparr>pastes := (pastes db)(i \<mapsto> row)\<rparr>) j h"
  by (auto simp: original_row_def)

lemma original_row_frame [simp]:
  "original_row (db\<lparr>hash_index := x\<rparr>) j h = original_row db j h"
  "original_row (db\<lparr>burned_pastes := y\<rparr>) j h = original_row db j h"
  "original_row (db\<lparr>banned_hashes := z\<rparr>) j h = original_row db j h"
  by (simp_all add: original_row_def)

lemma db_ok_insert_paste [wf_intros]:
  assumes "db_ok db" "insert_paste i row db = Some db'"
    and "\<And>r. r_references_id row = Some r \<Longrightarrow> original_row db r (r_content_hash row)"
    and "\<And>c. r_content row = Some c \<Longrightarrow> r_references_id row = None \<and> r_content_hash row = sha256_hex c"
  shows "db_ok db'"
proof -
  have i: "pastes db i = None" and db': "db' = db\<lparr>pastes := (pastes db)(i \<mapsto> row)\<rparr>"
    using assms(2) by (auto simp: insert_paste_def split: if_splits)
  show ?thesis
    using assms(1,3,4) original_row_update [OF i, where row = row] unfolding db' db_ok_def
    by (auto split: if_splits)
qed

lemma db_ok_insert_hash [wf_intros]:
  "db_ok db \<Longrightarrow> insert_hash_or_ignore h i db = Some db' \<Longrightarrow>
   (hash_index db h = None \<Longrightarrow> original_row db i h) \<Longrightarrow> db_ok db'"
  by (auto simp: insert_hash_or_ignore_def db_ok_def split: if_splits)

lemma db_ok_insert_burned [wf_intros]:
  "db_ok db \<Longrightarrow> insert_burned_or_ignore i t db = Some (n, db') \<Longrightarrow> db_ok db'"
  by (auto simp: insert_burned_or_ignore_def db_ok_def split: if_splits)

lemma db_ok_upsert_ban [wf_intros]: "db_ok db \<Longrightarrow> db_ok (upsert_ban h r ty t db)"
  by (simp add: upsert_ban_def db_ok_def Let_def)

lemma original_row_delete:
  "original_row db j h \<Longrightarrow> j \<noteq> i \<Longrightarrow> original_row (delete_paste i db) j h"
  by (auto simp: original_row_def delete_paste_def drop_reference_def split: option.splits)

lemma delete_paste_row:
  "pastes (delete_paste i db) j =
     (if j = i then None else map_option (drop_reference i) (pastes db j)) \<or>
   (pastes db i = None \<and> delete_paste i db = db)"
  by (auto simp: delete_paste_def)

lemma drop_reference_simps [simp]:
  "r_content (drop_reference i row) = r_content row"
  "r_content_hash (drop_reference i row) = r_content_hash row"
  "r_burn_after_read (drop_reference i row) = r_burn_after_read row"
  "r_expires_at (drop_reference i row) = r_expires_at row"
  "r_references_id (drop_reference i row) =
     (if r_references_id row = Some i then None else r_references_id row)"
  by (simp_all add: drop_reference_def)

lemma db_ok_delete [wf_intros]:
  assumes "db_ok db"
  shows "db_ok (delete_paste i db)"
proof (cases "pastes db i")
  case None
  then show ?thesis using assms by (simp add: delete_paste_def)
next
  case (Some row)
  let ?db = "delete_paste i db"
  have p: "pastes ?db = (\<lambda>j. if j = i then None else map_option (drop_reference i) (pastes db j))"
    and h: "hash_index ?db = (\<lambda>h. if hash_index db h = Some i then None else hash_index db h)"
    and b: "burned_pastes ?db = (burned_pastes db)(i := None)"
    using Some by (simp_all add: delete_paste_def)
  show ?thesis
    unfolding db_ok_def
  proof (intro conjI allI impI)
    fix h j assume "hash_index ?db h = Some j"
    then have "hash_index db h = Some j" "j \<noteq> i" by (auto simp: h split: if_splits)
    then show "original_row ?db j h"
      using db_ok_hash [OF assms] by (blast intro: original_row_delete)
  next
    fix j row' r assume "pastes ?db j = Some row'" "r_references_id row' = Some r"
    then obtain row0 where "pastes db j = Some row0" "r_references_id row0 = Some r" "r \<noteq> i"
      "r_content_hash row' = r_content_hash row0"
      by (auto simp: p split: if_splits)
    then show "original_row ?db r (r_content_hash row')"
      using db_ok_ref [OF assms] by (auto intro: original_row_delete)
  next
    fix j row' c assume "pastes ?db j = Some row'" "r_content row' = Some c"
    then show "r_references_id row' = None" "r_content_hash row' = sha256_hex c"
      using db_ok_content [OF assms] by (auto simp: p split: if_splits)
  next
    fix j assume "burned_pastes ?db j \<noteq> None"
    then show "pastes ?db j \<noteq> None"
      using db_ok_burned [OF assms, of j] by (auto simp: p b split: if_splits)
  qed
qed

text \<open>In a well-formed database a paste's content is what its hash names, wherever it is stored.\<close>

lemma content_id_hash:
  assumes "db_ok db" "pastes db i = Some row" "pastes db (content_id i row) = Some row'"
    "r_content row' = Some c"
  shows "sha256_hex c = r_content_hash row"
proof (cases "content_id i row = i")
  case True
  then show ?thesis using assms db_ok_content by fastforce
next
  case False
  then have "r_references_id row = Some (content_id i row)"
    by (auto simp: content_id_def split: option.splits if_splits)
  from db_ok_ref [OF assms(1,2) this] show ?thesis
    using assms(3,4) by (auto elim!: original_rowE)
qed

subsection \<open>Burn-after-read, statement by statement\<close>

definition sql_pending :: "sqldb \<Rightarrow> string \<Rightarrow> bool" where
  "sql_pending db i \<longleftrightarrow> burned_pastes db i = None \<and>
     (case pastes db i of None \<Rightarrow> False | Some row \<Rightarrow> r_burn_after_read row)"

definition sql_spent :: "sqldb \<Rightarrow> string \<Rightarrow> bool" where
  "sql_spent db i \<longleftrightarrow> pastes db i = None \<or> burned_pastes db i \<noteq> None"

lemma insert_paste_others:
  assumes "insert_paste j row db = Some db'" "i \<noteq> j"
  shows "sql_pending db' i = sql_pending db i" "sql_spent db' i = sql_spent db i"
  using assms by (auto simp: insert_paste_def sql_pending_def sql_spent_def split: if_splits)

lemma insert_hash_burn [simp]:
  assumes "insert_hash_or_ignore h j db = Some db'"
  shows "sql_pending db' i = sql_pending db i" "sql_spent db' i = sql_spent db i"
  using assms by (auto simp: insert_hash_or_ignore_def sql_pending_def sql_spent_def split: if_splits)

lemma insert_burned_spent:
  "insert_burned_or_ignore i t db = Some (n, db') \<Longrightarrow> sql_spent db' i"
  by (auto simp: insert_burned_or_ignore_def sql_spent_def split: if_splits)

lemma insert_burned_others:
  assumes "insert_burned_or_ignore j t db = Some (n, db')" "i \<noteq> j"
  shows "sql_pending db' i = sql_pending db i" "sql_spent db' i = sql_spent db i"
  using assms by (auto simp: insert_burned_or_ignore_def sql_pending_def sql_spent_def split: if_splits)

lemma insert_burned_keeps_spent:
  "insert_burned_or_ignore j t db = Some (n, db') \<Longrightarrow> sql_spent db i \<Longrightarrow> sql_spent db' i"
  by (cases "i = j") (auto simp: insert_burned_others insert_burned_spent)

lemma upsert_ban_burn [simp]:
  "sql_pending (upsert_ban h r ty t db) i = sql_pending db i"
  "sql_spent (upsert_ban h r ty t db) i = sql_spent db i"
  by (simp_all add: upsert_ban_def sql_pending_def sql_spent_def Let_def)

lemma delete_paste_spent: "sql_spent (delete_paste i db) i"
  by (auto simp: delete_paste_def sql_spent_def)

lemma delete_paste_others:
  assumes "i \<noteq> j"
  shows "sql_pending (delete_paste j db) i = sql_pending db i"
    "sql_spent (delete_paste j db) i = sql_spent db i"
  using assms by (auto simp: delete_paste_def sql_pending_def sql_spent_def split: option.splits)

lemma delete_paste_keeps_spent: "sql_spent db i \<Longrightarrow> sql_spent (delete_paste j db) i"
  by (cases "i = j") (auto simp: delete_paste_others delete_paste_spent)

lemmas burn_others = insert_paste_others insert_burned_others delete_paste_others

end
