(* ===== verification/Sqlite.thy ===== *)
theory Sqlite
  imports Sqldb
begin

text \<open>
  \<^verbatim>\<open>src/services/storage_sqlite.go\<close>. Each method runs its statements on the tables in the order of
  the code; a transaction that does not reach its commit leaves the tables as they were (the
  deferred \<^verbatim>\<open>Rollback\<close>). Times are stored as RFC 3339 text without fractions, that is, rounded
  down to whole seconds, and \<^verbatim>\<open>datetime('now')\<close> reads the clock in whole seconds.
\<close>

definition sqlite_time :: "gotime \<Rightarrow> gotime" where
  "sqlite_time t = truncate_to second t"

definition boolToInt :: "bool \<Rightarrow> int" where "boolToInt b = (if b then 1 else 0)"
definition intToBool :: "int \<Rightarrow> bool" where "intToBool i = (i \<noteq> 0)"

lemma intToBool_boolToInt [simp]: "intToBool (boolToInt b) = b"
  by (simp add: intToBool_def boolToInt_def)

definition sqlite_isHashBanned :: "env \<Rightarrow> sqldb \<Rightarrow> string \<Rightarrow> bool result" where
  "sqlite_isHashBanned e db h =
     (if fails e QBanContent then Inl (ErrWrapped ''failed to check banned status'')
      else Inr (has_ban h HCiphertext db))"

definition sqlite_isPlaintextHashBanned :: "env \<Rightarrow> sqldb \<Rightarrow> string \<Rightarrow> bool result" where
  "sqlite_isPlaintextHashBanned e db h =
     (if fails e QBanPlaintext then Inl (ErrWrapped ''failed to check plaintext banned status'')
      else Inr (has_ban h HPlaintext db))"

text \<open>The first part of \<^verbatim>\<open>SavePaste\<close>: the hashes, and the ban checks on both of them.\<close>

definition sqlite_hashes :: "env \<Rightarrow> sqldb \<Rightarrow> string \<Rightarrow> bool \<Rightarrow> (string \<times> string) result" where
  "sqlite_hashes e db c plain =
     (case (if plain then
              (case b64_decode StdEncoding c of
                 None \<Rightarrow> Inl (ErrWrapped ''failed to decode plaintext content'')
               | Some d \<Rightarrow>
                   (let ph = plaintext_hash_of d in
                    if ph \<noteq> [] then
                      (case sqlite_isPlaintextHashBanned e db ph of
                         Inl x \<Rightarrow> Inl x
                       | Inr True \<Rightarrow> Inl ErrBannedContent
                       | Inr False \<Rightarrow> Inr ph)
                    else Inr ph))
            else Inr []) of
        Inl x \<Rightarrow> Inl x
      | Inr ph \<Rightarrow>
          (case sqlite_isHashBanned e db (sha256_hex c) of
             Inl x \<Rightarrow> Inl x
           | Inr True \<Rightarrow> Inl ErrBannedContent
           | Inr False \<Rightarrow> Inr (sha256_hex c, ph)))"

definition sqlite_SavePaste ::
  "env \<Rightarrow> sqldb \<Rightarrow> string \<Rightarrow> string \<Rightarrow> int \<Rightarrow> bool \<Rightarrow> bool \<Rightarrow> save_paste_result result \<times> sqldb" where
  "sqlite_SavePaste e db i c expiry burn plain =
     (case sqlite_hashes e db c plain of
        Inl x \<Rightarrow> (Inl x, db)
      | Inr (h, ph) \<Rightarrow>
          (let t = now e; expires = expiry_time t expiry;
               existing = (case hash_index db h of None \<Rightarrow> [] | Some j \<Rightarrow> j);
               p = \<lparr>p_id = i, p_expires_at = expires, p_burn_after_read = burn,
                    p_size_bytes = int (length c), p_created_at = t, p_is_burned = False\<rparr>;
               row = \<lparr>r_content = None, r_references_id = None, r_content_hash = h,
                      r_plaintext_hash = null_string ph, r_expires_at = sqlite_time expires,
                      r_burn_after_read = intToBool (boolToInt burn), r_size_bytes = int (length c),
                      r_is_plaintext = intToBool (boolToInt plain), r_created_at = sqlite_time t\<rparr>
           in
           if fails e QBegin then (Inl (ErrWrapped ''failed to begin transaction''), db)
           else if fails e QFindHash then (Inl (ErrWrapped ''failed to check for existing content''), db)
           else if existing \<noteq> [] then
             (case (if fails e QInsertReference then None
                    else insert_paste i (row\<lparr>r_references_id := Some existing\<rparr>) db) of
                None \<Rightarrow> (Inl (ErrWrapped ''failed to create reference paste''), db)
              | Some db1 \<Rightarrow>
                  if fails e QCommit then (Inl (ErrWrapped ''failed to commit transaction''), db)
                  else (Inr \<lparr>sr_paste = p, sr_was_deduplicated = True, sr_references_id = existing,
                             sr_content_hash = h\<rparr>, db1))
           else
             (case (if fails e QInsertPaste then None
                    else insert_paste i (row\<lparr>r_content := Some c\<rparr>) db) of
                None \<Rightarrow> (Inl (ErrWrapped ''failed to save paste''), db)
              | Some db1 \<Rightarrow>
                  (case (if fails e QInsertHash then None else insert_hash_or_ignore h i db1) of
                     None \<Rightarrow> (Inl (ErrWrapped ''failed to create hash index''), db)
                   | Some db2 \<Rightarrow>
                       if fails e QCommit then (Inl (ErrWrapped ''failed to commit transaction''), db)
                       else (Inr \<lparr>sr_paste = p, sr_was_deduplicated = False, sr_references_id = [],
                                  sr_content_hash = h\<rparr>, db2)))))"

text \<open>The row \<^verbatim>\<open>GetPaste\<close> selects: only one whose expiry is later than the clock.\<close>

definition sqlite_select_live :: "env \<Rightarrow> sqldb \<Rightarrow> string \<Rightarrow> paste_row option" where
  "sqlite_select_live e db i =
     (case pastes db i of
        None \<Rightarrow> None
      | Some row \<Rightarrow> if sqlite_time (db_now e) < r_expires_at row then Some row else None)"

text \<open>The last part of \<^verbatim>\<open>GetPaste\<close>: resolve the content and commit \<open>db1\<close>, or roll back to \<open>db\<close>.\<close>

definition sqlite_read_content ::
  "env \<Rightarrow> sqldb \<Rightarrow> sqldb \<Rightarrow> string \<Rightarrow> paste_row \<Rightarrow> paste \<Rightarrow> (string \<times> paste) result \<times> sqldb" where
  "sqlite_read_content e db db1 i row p =
     (if fails e QSelectContent then (Inl (ErrWrapped ''failed to get paste content''), db)
      else (case pastes db1 (content_id i row) of
         None \<Rightarrow> (Inl ErrNotFound, db)
       | Some row' \<Rightarrow>
           (case r_content row' of
              None \<Rightarrow> (Inl ErrNotFound, db)
            | Some c \<Rightarrow>
                if fails e QCommit then (Inl (ErrWrapped ''failed to commit transaction''), db)
                else (Inr (c, p), db1))))"

text \<open>The claim of the burn marker: the rows the insert affected, and the tables after it.\<close>

definition sqlite_claim_burn :: "env \<Rightarrow> sqldb \<Rightarrow> string \<Rightarrow> (nat \<times> sqldb) result" where
  "sqlite_claim_burn e db i =
     (case (if fails e QInsertBurned then None
            else insert_burned_or_ignore i (sqlite_time (db_now e)) db) of
        None \<Rightarrow> Inl (ErrWrapped ''failed to mark paste as burned'')
      | Some (affected, db1) \<Rightarrow>
          if fails e QRowsAffected then Inl (ErrWrapped ''failed to read burn insert result'')
          else Inr (affected, db1))"

definition sqlite_GetPaste ::
  "env \<Rightarrow> sqldb \<Rightarrow> string \<Rightarrow> (string \<times> paste) result \<times> sqldb" where
  "sqlite_GetPaste e db i =
     (if fails e QBegin then (Inl (ErrWrapped ''failed to begin transaction''), db)
      else if fails e QIsBurned then (Inl (ErrWrapped ''failed to check burn status''), db)
      else if burned_pastes db i \<noteq> None then (Inr ([], burned_paste i), db)
      else if fails e QSelectPaste then (Inl (ErrWrapped ''failed to get paste''), db)
      else (case sqlite_select_live e db i of
         None \<Rightarrow> (Inl ErrNotFound, db)
       | Some row \<Rightarrow>
           if fails e QParseExpires then (Inl (ErrWrapped ''failed to parse expires_at''), db)
           else if fails e QParseCreated then (Inl (ErrWrapped ''failed to parse created_at''), db)
           else
             (let p = \<lparr>p_id = i, p_expires_at = r_expires_at row,
                       p_burn_after_read = r_burn_after_read row, p_size_bytes = r_size_bytes row,
                       p_created_at = r_created_at row, p_is_burned = False\<rparr>
              in if r_burn_after_read row then
                   (case sqlite_claim_burn e db i of
                      Inl x \<Rightarrow> (Inl x, db)
                    | Inr (affected, db1) \<Rightarrow>
                        if affected = 0 then (Inr ([], burned_paste i), db)
                        else sqlite_read_content e db db1 i row (p\<lparr>p_is_burned := True\<rparr>))
                 else sqlite_read_content e db db i row p)))"

definition sqlite_MarkBurned :: "env \<Rightarrow> sqldb \<Rightarrow> string \<Rightarrow> unit result \<times> sqldb" where
  "sqlite_MarkBurned e db i =
     (case (if fails e QMarkBurned then None
            else insert_burned_or_ignore i (sqlite_time (db_now e)) db) of
        None \<Rightarrow> (Inl (ErrWrapped ''failed to mark paste as burned''), db)
      | Some (n, db1) \<Rightarrow> (Inr (), db1))"

definition sqlite_DeletePaste :: "env \<Rightarrow> sqldb \<Rightarrow> string \<Rightarrow> unit result \<times> sqldb" where
  "sqlite_DeletePaste e db i =
     (if fails e QDelete then (Inl (ErrWrapped ''failed to delete paste''), db)
      else (Inr (), delete_paste i db))"

definition sqlite_BanContentHash :: "env \<Rightarrow> sqldb \<Rightarrow> string \<Rightarrow> string \<Rightarrow> unit result \<times> sqldb" where
  "sqlite_BanContentHash e db h reason =
     (if fails e QUpsertBan then (Inl (ErrWrapped ''failed to ban content hash''), db)
      else (Inr (), upsert_ban h reason HCiphertext (sqlite_time (db_now e)) db))"

definition sqlite_BanPlaintextHash :: "env \<Rightarrow> sqldb \<Rightarrow> string \<Rightarrow> string \<Rightarrow> unit result \<times> sqldb" where
  "sqlite_BanPlaintextHash e db h reason =
     (if fails e QUpsertBan then (Inl (ErrWrapped ''failed to ban plaintext hash''), db)
      else (Inr (), upsert_ban h reason HPlaintext (sqlite_time (db_now e)) db))"

definition sqlite_Ping :: "env \<Rightarrow> sqldb \<Rightarrow> unit result" where
  "sqlite_Ping e db = (if fails e QPing then Inl (ErrWrapped ''ping'') else Inr ())"

definition sqlite_Close :: "env \<Rightarrow> sqldb \<Rightarrow> unit result" where
  "sqlite_Close e db = (if fails e QClose then Inl (ErrWrapped ''close'') else Inr ())"

definition sqlite_backend :: "env \<Rightarrow> sqldb backend" where
  "sqlite_backend e =
     \<lparr>SavePaste = sqlite_SavePaste e, GetPaste = sqlite_GetPaste e, MarkBurned = sqlite_MarkBurned e,
      DeletePaste = sqlite_DeletePaste e, BanContentHash = sqlite_BanContentHash e,
      BanPlaintextHash = sqlite_BanPlaintextHash e, Ping = sqlite_Ping e, Close = sqlite_Close e\<rparr>"

lemma sqlite_backend_simps [simp]:
  "SavePaste (sqlite_backend e) = sqlite_SavePaste e"
  "GetPaste (sqlite_backend e) = sqlite_GetPaste e"
  "MarkBurned (sqlite_backend e) = sqlite_MarkBurned e"
  "DeletePaste (sqlite_backend e) = sqlite_DeletePaste e"
  "BanContentHash (sqlite_backend e) = sqlite_BanContentHash e"
  "BanPlaintextHash (sqlite_backend e) = sqlite_BanPlaintextHash e"
  "Ping (sqlite_backend e) = sqlite_Ping e"
  "Close (sqlite_backend e) = sqlite_Close e"
  by (simp_all add: sqlite_backend_def)

subsection \<open>What each call can do\<close>

text \<open>A save that fails changes nothing; one that succeeds added exactly one row.\<close>

lemma sqlite_hashes_Inr:
  "sqlite_hashes e db c plain = Inr (h, ph) \<Longrightarrow>
   h = sha256_hex c \<and> \<not> has_ban (sha256_hex c) HCiphertext db"
  by (auto simp: sqlite_hashes_def sqlite_isHashBanned_def split: sum.splits bool.splits if_splits)

lemma sqlite_SavePaste_cases:
  assumes "sqlite_SavePaste e db i c expiry burn plain = (r, db')"
  obtains (failed) x where "r = Inl x" "db' = db"
  | (reference) h ph j row res where "sqlite_hashes e db c plain = Inr (h, ph)"
      "hash_index db h = Some j" "j \<noteq> []" "insert_paste i row db = Some db'"
      "r_content row = None" "r_references_id row = Some j" "r_content_hash row = h"
      "r_burn_after_read row = burn" "r_expires_at row = sqlite_time (expiry_time (now e) expiry)"
      "r_size_bytes row = int (length c)" "r_created_at row = sqlite_time (now e)"
      "r = Inr res" "sr_was_deduplicated res" "sr_references_id res = j"
  | (original) h ph row db1 res where "sqlite_hashes e db c plain = Inr (h, ph)"
      "hash_index db h = None \<or> hash_index db h = Some []" "insert_paste i row db = Some db1"
      "insert_hash_or_ignore h i db1 = Some db'"
      "r_content row = Some c" "r_references_id row = None" "r_content_hash row = h"
      "r_burn_after_read row = burn" "r_expires_at row = sqlite_time (expiry_time (now e) expiry)"
      "r_size_bytes row = int (length c)" "r_created_at row = sqlite_time (now e)"
      "r = Inr res" "\<not> sr_was_deduplicated res" "sr_references_id res = []"
proof (cases "sqlite_hashes e db c plain")
  case (Inl x)
  then show ?thesis using assms failed by (auto simp: sqlite_SavePaste_def)
next
  case (Inr hp)
  obtain h ph where hp: "hp = (h, ph)" by fastforce
  show ?thesis
  proof (cases "hash_index db h = None \<or> hash_index db h = Some []")
    case True
    then show ?thesis using assms Inr hp failed original [of h ph]
      by (auto simp: sqlite_SavePaste_def Let_def split: if_splits option.splits)
  next
    case False
    then obtain j where "hash_index db h = Some j" "j \<noteq> []" by auto
    then show ?thesis using assms Inr hp failed reference [of h ph j]
      by (auto simp: sqlite_SavePaste_def Let_def split: if_splits option.splits)
  qed
qed

lemma sqlite_read_content_cases:
  assumes "sqlite_read_content e db db1 i row p = (r, db')"
  obtains (failed) x where "r = Inl x" "db' = db"
  | (read) row' c where "pastes db1 (content_id i row) = Some row'" "r_content row' = Some c"
      "r = Inr (c, p)" "db' = db1"
  using assms by (auto simp: sqlite_read_content_def split: if_splits option.splits)

lemma sqlite_GetPaste_cases:
  assumes "sqlite_GetPaste e db i = (r, db')"
  obtains (failed) x where "r = Inl x" "db' = db"
  | (gone) t where "burned_pastes db i = Some t" "r = Inr ([], burned_paste i)" "db' = db"
  | (kept) row row' c p where "burned_pastes db i = None" "sqlite_select_live e db i = Some row"
      "\<not> r_burn_after_read row"
      "pastes db (content_id i row) = Some row'" "r_content row' = Some c"
      "p = \<lparr>p_id = i, p_expires_at = r_expires_at row, p_burn_after_read = False,
            p_size_bytes = r_size_bytes row, p_created_at = r_created_at row, p_is_burned = False\<rparr>"
      "r = Inr (c, p)" "db' = db"
  | (burned) row row' c p where "burned_pastes db i = None" "sqlite_select_live e db i = Some row"
      "r_burn_after_read row"
      "pastes db (content_id i row) = Some row'" "r_content row' = Some c"
      "p = \<lparr>p_id = i, p_expires_at = r_expires_at row, p_burn_after_read = True,
            p_size_bytes = r_size_bytes row, p_created_at = r_created_at row, p_is_burned = True\<rparr>"
      "r = Inr (c, p)"
      "insert_burned_or_ignore i (sqlite_time (db_now e)) db = Some (1, db')"
proof -
  have claim: "n = 1 \<and> insert_burned_or_ignore i (sqlite_time (db_now e)) db = Some (1, db1)"
    if "burned_pastes db i = None" "sqlite_claim_burn e db i = Inr (n, db1)" for n db1
    using that by (auto simp: sqlite_claim_burn_def insert_burned_or_ignore_def
        split: if_splits option.splits)
  consider (a) x where "r = Inl x" "db' = db"
    | (b) "burned_pastes db i \<noteq> None" "r = Inr ([], burned_paste i)" "db' = db"
    | (c) row where "burned_pastes db i = None" "sqlite_select_live e db i = Some row"
        "\<not> r_burn_after_read row"
        "sqlite_read_content e db db i row \<lparr>p_id = i, p_expires_at = r_expires_at row,
           p_burn_after_read = False, p_size_bytes = r_size_bytes row,
           p_created_at = r_created_at row, p_is_burned = False\<rparr> = (r, db')"
    | (d) row n db1 where "burned_pastes db i = None" "sqlite_select_live e db i = Some row"
        "r_burn_after_read row" "sqlite_claim_burn e db i = Inr (n, db1)"
        "n \<noteq> 0 \<Longrightarrow> sqlite_read_content e db db1 i row \<lparr>p_id = i, p_expires_at = r_expires_at row,
           p_burn_after_read = True, p_size_bytes = r_size_bytes row,
           p_created_at = r_created_at row, p_is_burned = True\<rparr> = (r, db')"
  proof (cases "burned_pastes db i")
    case None
    show ?thesis
    proof (cases "sqlite_select_live e db i")
      case live: (Some row)
      show ?thesis
      proof (cases "r_burn_after_read row")
        case True
        then show ?thesis using assms None live a d [OF None live True]
          by (cases "sqlite_claim_burn e db i")
             (auto simp: sqlite_GetPaste_def Let_def split: if_splits)
      next
        case False
        then show ?thesis using assms None live a c [OF None live False]
          by (auto simp: sqlite_GetPaste_def Let_def split: if_splits)
      qed
    qed (use assms None a in \<open>auto simp: sqlite_GetPaste_def split: if_splits\<close>)
  qed (use assms a b in \<open>auto simp: sqlite_GetPaste_def split: if_splits\<close>)
  then show ?thesis
  proof cases
    case a then show ?thesis by (rule failed)
  next
    case b then show ?thesis using gone by blast
  next
    case c
    from c(4) show ?thesis
      by (cases rule: sqlite_read_content_cases) (use c kept failed in blast)+
  next
    case (d row n db1)
    note n = claim [OF d(1,4)]
    have "pastes db1 = pastes db" using n
      by (auto simp: insert_burned_or_ignore_def split: if_splits)
    moreover have "sqlite_read_content e db db1 i row \<lparr>p_id = i, p_expires_at = r_expires_at row,
           p_burn_after_read = True, p_size_bytes = r_size_bytes row,
           p_created_at = r_created_at row, p_is_burned = True\<rparr> = (r, db')"
      using n d(5) by simp
    moreover from this show ?thesis
      by (rule sqlite_read_content_cases) (use calculation d(1-3) n failed burned in auto)
  qed
qed

subsection \<open>The contract of the interface\<close>

lemma sqlite_SavePaste_inv [wf_intros]:
  assumes "db_ok db" "sqlite_SavePaste e db i c x b p = (r, db')"
  shows "db_ok db'"
  using assms(2)
proof (cases rule: sqlite_SavePaste_cases)
  case failed
  then show ?thesis using assms(1) by simp
next
  case (reference h ph j row res)
  then show ?thesis using assms(1)
    by (auto intro!: db_ok_insert_paste [OF assms(1) reference(4)] db_ok_hash)
next
  case (original h ph row db1 res)
  have h: "h = sha256_hex c" using original(1) by (simp add: sqlite_hashes_Inr)
  have db1: "db_ok db1"
    using assms(1) original h by (auto intro!: db_ok_insert_paste [OF assms(1) original(3)])
  have "original_row db1 i h"
    using original(3,5-7) h by (auto simp: insert_paste_def original_row_def split: if_splits)
  then show ?thesis using db_ok_insert_hash [OF db1 original(4)] by blast
qed

lemma sqlite_GetPaste_inv [wf_intros]:
  "db_ok db \<Longrightarrow> sqlite_GetPaste e db i = (r, db') \<Longrightarrow> db_ok db'"
  by (erule sqlite_GetPaste_cases) (auto intro: wf_intros)

lemma sqlite_step_inv: "db_ok db \<Longrightarrow> db_ok (snd (store_step (sqlite_backend e) x db))"
  by (cases x)
     (auto simp: sqlite_MarkBurned_def sqlite_DeletePaste_def sqlite_BanContentHash_def
        sqlite_BanPlaintextHash_def intro: wf_intros split: prod.splits option.splits if_splits)

lemma sqlite_failed_frame:
  "out_failed (fst (store_step (sqlite_backend e) x db)) \<Longrightarrow>
   snd (store_step (sqlite_backend e) x db) = db"
proof (cases x)
  case (OpSave i c n b p)
  assume "out_failed (fst (store_step (sqlite_backend e) x db))"
  then show ?thesis using OpSave
    by (cases "sqlite_SavePaste e db i c n b p")
       (auto elim!: sqlite_SavePaste_cases)
next
  case (OpGet i)
  assume "out_failed (fst (store_step (sqlite_backend e) x db))"
  then show ?thesis using OpGet
    by (cases "sqlite_GetPaste e db i") (auto elim!: sqlite_GetPaste_cases)
qed (auto simp: sqlite_MarkBurned_def sqlite_DeletePaste_def sqlite_BanContentHash_def
        sqlite_BanPlaintextHash_def split: prod.splits option.splits if_splits)

lemma sqlite_select_live_row: "sqlite_select_live e db i = Some row \<Longrightarrow> pastes db i = Some row"
  by (auto simp: sqlite_select_live_def split: option.splits if_splits)

lemma sqlite_get_state:
  "sqlite_GetPaste e db i = (r, db') \<Longrightarrow>
   db' = db \<or> (\<exists>t n. insert_burned_or_ignore i t db = Some (n, db'))"
  by (erule sqlite_GetPaste_cases) auto

lemma sqlite_get_spent:
  "sqlite_GetPaste e db i = (Inr (c, p), db') \<Longrightarrow> sql_spent db i \<Longrightarrow> c = []"
  by (erule sqlite_GetPaste_cases) (auto simp: sql_spent_def dest!: sqlite_select_live_row)

lemma sqlite_get_pending:
  "sqlite_GetPaste e db i = (Inr (c, p), db') \<Longrightarrow> sql_pending db i \<Longrightarrow> sql_spent db' i"
  by (erule sqlite_GetPaste_cases)
     (auto simp: sql_pending_def dest!: sqlite_select_live_row intro: insert_burned_spent)

lemma sqlite_save_others:
  "sqlite_SavePaste e db j c x b p = (r, db') \<Longrightarrow> i \<noteq> j \<Longrightarrow>
   sql_pending db' i = sql_pending db i \<and> sql_spent db' i = sql_spent db i"
  by (erule sqlite_SavePaste_cases) (simp_all add: burn_others)

lemma sqlite_spent_step:
  assumes "sql_spent db i" "\<not> saves i x"
  shows "sql_spent (snd (store_step (sqlite_backend e) x db)) i"
proof (cases x)
  case (OpSave j c n b p)
  then show ?thesis using assms by (auto split: prod.splits dest: sqlite_save_others)
next
  case (OpGet j)
  then show ?thesis using assms
    by (auto split: prod.splits dest!: sqlite_get_state intro: insert_burned_keeps_spent)
qed (use assms in \<open>auto simp: sqlite_MarkBurned_def sqlite_DeletePaste_def sqlite_BanContentHash_def
        sqlite_BanPlaintextHash_def split: prod.splits option.splits if_splits
        intro: insert_burned_keeps_spent delete_paste_keeps_spent\<close>)

lemma sqlite_pending_step:
  assumes "sql_pending db i" "\<not> saves i x"
  shows "sql_pending (snd (store_step (sqlite_backend e) x db)) i \<or>
    sql_spent (snd (store_step (sqlite_backend e) x db)) i"
proof (cases x)
  case (OpSave j c n b p)
  then show ?thesis using assms by (auto split: prod.splits dest: sqlite_save_others)
next
  case (OpGet j)
  then show ?thesis using assms
    by (cases "i = j") (auto split: prod.splits dest!: sqlite_get_state
      simp: insert_burned_spent insert_burned_others)
next
  case (OpMarkBurned j)
  then show ?thesis using assms
    by (cases "i = j") (auto simp: sqlite_MarkBurned_def insert_burned_spent insert_burned_others
      split: prod.splits option.splits if_splits)
next
  case (OpDelete j)
  then show ?thesis using assms
    by (cases "i = j") (auto simp: sqlite_DeletePaste_def delete_paste_spent delete_paste_others)
qed (use assms in \<open>auto simp: sqlite_BanContentHash_def sqlite_BanPlaintextHash_def\<close>)

text \<open>A read delivers to the identifier it asks for.\<close>

lemma deliversE:
  assumes "delivers i x y"
  obtains c p where "x = OpGet i" "y = OutGet (Inr (c, p))" "c \<noteq> []"
  using assms by (cases "(i, x, y)" rule: delivers.cases) auto

interpretation sqlite: paste_store sqlite_backend db_ok sql_pending sql_spent
proof
  show "db_ok (snd (store_step (sqlite_backend e) x db))" if "db_ok db" for db e x
    using that by (rule sqlite_step_inv)
  show "snd (store_step (sqlite_backend e) x db) = db"
    if "out_failed (fst (store_step (sqlite_backend e) x db))" for db e x
    using that by (rule sqlite_failed_frame)
  show "\<not> delivers i x (fst (store_step (sqlite_backend e) x db))" if "sql_spent db i" for db i x e
    using that by (auto elim!: deliversE split: prod.splits dest: sqlite_get_spent)
  show "sql_spent (snd (store_step (sqlite_backend e) x db)) i"
    if "sql_spent db i" "\<not> saves i x" for db i x e
    using that by (rule sqlite_spent_step)
  show "sql_pending (snd (store_step (sqlite_backend e) x db)) i \<or>
      sql_spent (snd (store_step (sqlite_backend e) x db)) i"
    if "sql_pending db i" "\<not> saves i x" for db i x e
    using that by (rule sqlite_pending_step)
  show "sql_spent (snd (store_step (sqlite_backend e) x db)) i"
    if "sql_pending db i" "delivers i x (fst (store_step (sqlite_backend e) x db))" for db i x e
    using that by (auto elim!: deliversE split: prod.splits dest: sqlite_get_pending)
qed

end
