(* ===== verification/SqliteSpec.thy ===== *)
theory SqliteSpec
  imports Sqlite
begin

text \<open>
  What the SQLite backend promises: a paste store seen as a map from identifiers to pastes, with
  content, expiry and a burn mark. Reads, burn marks and deletions of the tables are shown to
  implement the operations of that map, saves to add the paste that later reads return, and bans
  to hold for good.
\<close>

subsection \<open>The abstract store\<close>

record apaste =
  a_content :: "string option"
  a_expires_at :: gotime
  a_burn_after_read :: bool
  a_size_bytes :: int
  a_created_at :: gotime
  a_burned :: bool

type_synonym astore = "string \<rightharpoonup> apaste"

definition a_meta :: "string \<Rightarrow> apaste \<Rightarrow> paste" where
  "a_meta i a = \<lparr>p_id = i, p_expires_at = a_expires_at a, p_burn_after_read = a_burn_after_read a,
     p_size_bytes = a_size_bytes a, p_created_at = a_created_at a, p_is_burned = a_burn_after_read a\<rparr>"

definition a_get :: "gotime \<Rightarrow> astore \<Rightarrow> string \<Rightarrow> (string \<times> paste) result \<times> astore" where
  "a_get t A i =
     (case A i of
        None \<Rightarrow> (Inl ErrNotFound, A)
      | Some a \<Rightarrow>
          if a_burned a then (Inr ([], burned_paste i), A)
          else if a_expires_at a \<le> t then (Inl ErrNotFound, A)
          else (case a_content a of
             None \<Rightarrow> (Inl ErrNotFound, A)
           | Some c \<Rightarrow> (Inr (c, a_meta i a),
               if a_burn_after_read a then A(i \<mapsto> a\<lparr>a_burned := True\<rparr>) else A)))"

definition a_save :: "gotime \<Rightarrow> gotime \<Rightarrow> astore \<Rightarrow> string \<Rightarrow> string \<Rightarrow> bool \<Rightarrow> astore" where
  "a_save t x A i c b = A(i \<mapsto> \<lparr>a_content = Some c, a_expires_at = x, a_burn_after_read = b,
     a_size_bytes = int (length c), a_created_at = t, a_burned = False\<rparr>)"

text \<open>What the tables say of one identifier.\<close>

definition row_content :: "sqldb \<Rightarrow> string \<Rightarrow> paste_row \<Rightarrow> string option" where
  "row_content db i row = (case pastes db (content_id i row) of None \<Rightarrow> None | Some r \<Rightarrow> r_content r)"

definition abs_row :: "sqldb \<Rightarrow> string \<Rightarrow> paste_row \<Rightarrow> apaste" where
  "abs_row db i row = \<lparr>a_content = row_content db i row, a_expires_at = r_expires_at row,
     a_burn_after_read = r_burn_after_read row, a_size_bytes = r_size_bytes row,
     a_created_at = r_created_at row, a_burned = (burned_pastes db i \<noteq> None)\<rparr>"

definition abs_db :: "sqldb \<Rightarrow> astore" where
  "abs_db db i = map_option (abs_row db i) (pastes db i)"

definition no_failure :: "env \<Rightarrow> bool" where
  "no_failure e \<longleftrightarrow> (\<forall>q. \<not> fails e q)"

text \<open>An environment whose clocks agree and where no driver call fails.\<close>

definition calm :: "gotime \<Rightarrow> env" where
  "calm t = \<lparr>now = t, db_now = t, fails = (\<lambda>q. False)\<rparr>"

lemma calm_simps [simp]: "now (calm t) = t" "db_now (calm t) = t" "no_failure (calm t)"
  "\<not> fails (calm t) q"
  by (simp_all add: calm_def no_failure_def)

lemma abs_db_mark_burned:
  assumes "insert_burned_or_ignore i t db = Some (1, db')"
  shows "abs_db db' = (\<lambda>j. if j = i then map_option (\<lambda>a. a\<lparr>a_burned := True\<rparr>) (abs_db db i) else abs_db db j)"
proof -
  have db': "db' = db\<lparr>burned_pastes := (burned_pastes db)(i \<mapsto> t)\<rparr>"
    using assms by (auto simp: insert_burned_or_ignore_def split: if_splits)
  have p: "pastes db' j = pastes db j" for j by (simp add: db')
  have r: "abs_row db' j row = (if j = i then abs_row db j row\<lparr>a_burned := True\<rparr> else abs_row db j row)"
    for j row by (simp add: db' abs_row_def row_content_def)
  show ?thesis
  proof
    fix j
    show "abs_db db' j = (if j = i then map_option (\<lambda>a. a\<lparr>a_burned := True\<rparr>) (abs_db db i) else abs_db db j)"
      unfolding abs_db_def p by (cases "pastes db j") (auto simp: r)
  qed
qed

text \<open>
  A read that meets no driver failure answers what the map says and leaves the tables denoting
  the map after the read.
\<close>

lemma sqlite_get_refines_lemma:
  assumes "db_ok db" "no_failure e"
  shows "a_get (sqlite_time (db_now e)) (abs_db db) i =
    (fst (sqlite_GetPaste e db i), abs_db (snd (sqlite_GetPaste e db i)))"
proof (cases "pastes db i")
  case None
  then have "burned_pastes db i = None"
    using db_ok_burned [OF assms(1), of i] by (cases "burned_pastes db i") auto
  then show ?thesis using None assms(2)
    by (simp add: a_get_def abs_db_def sqlite_GetPaste_def sqlite_select_live_def no_failure_def)
next
  case (Some row)
  note nf = assms(2) [unfolded no_failure_def, rule_format]
  show ?thesis
  proof (cases "burned_pastes db i \<noteq> None \<or> r_expires_at row \<le> sqlite_time (db_now e)")
    case True
    then show ?thesis using Some nf
      by (auto simp: a_get_def abs_db_def abs_row_def sqlite_GetPaste_def sqlite_select_live_def)
  next
    case False
    then have live: "sqlite_select_live e db i = Some row" and unburned: "burned_pastes db i = None"
      using Some by (auto simp: sqlite_select_live_def)
    show ?thesis
    proof (cases "r_burn_after_read row")
      case True
      let ?t = "sqlite_time (db_now e)"
      obtain db1 where db1: "insert_burned_or_ignore i ?t db = Some (1, db1)"
        using Some unburned by (simp add: insert_burned_or_ignore_def)
      have p: "pastes db1 = pastes db"
        using db1 by (auto simp: insert_burned_or_ignore_def split: if_splits)
      have m: "abs_db db1 = (abs_db db)(i \<mapsto> abs_row db i row\<lparr>a_burned := True\<rparr>)"
        using abs_db_mark_burned [OF db1] Some by (auto simp: abs_db_def fun_eq_iff)
      show ?thesis using False Some True live unburned nf db1 p m
        by (auto simp: a_get_def abs_db_def [of db i] a_meta_def abs_row_def row_content_def
            sqlite_GetPaste_def sqlite_claim_burn_def sqlite_read_content_def split: option.splits)
    next
      case keep: False
      show ?thesis using False Some keep live unburned nf
        by (auto simp: a_get_def abs_db_def [of db i] a_meta_def abs_row_def row_content_def
            sqlite_GetPaste_def sqlite_read_content_def split: option.splits)
    qed
  qed
qed

subsection \<open>Saving\<close>

text \<open>No content of the tables other than \<open>c\<close> itself has the hash of \<open>c\<close>.\<close>

definition no_collision :: "sqldb \<Rightarrow> string \<Rightarrow> bool" where
  "no_collision db c \<longleftrightarrow> (\<forall>j row c'. pastes db j = Some row \<longrightarrow> r_content row = Some c' \<longrightarrow>
     sha256_hex c' = sha256_hex c \<longrightarrow> c' = c)"

lemma abs_db_other:
  assumes "db_ok db" "pastes db i = None" "j \<noteq> i" "pastes db' = (pastes db)(i \<mapsto> row)"
    "burned_pastes db' = burned_pastes db"
  shows "abs_db db' j = abs_db db j"
proof (cases "pastes db j")
  case None
  then show ?thesis using assms by (simp add: abs_db_def)
next
  case (Some r)
  have "content_id j r \<noteq> i"
  proof
    assume "content_id j r = i"
    then have "r_references_id r = Some i"
      using assms(3) by (auto simp: content_id_def split: option.splits if_splits)
    with db_ok_ref [OF assms(1) Some] assms(2) show False by (simp add: original_row_def)
  qed
  then show ?thesis using assms Some by (simp add: abs_db_def abs_row_def row_content_def)
qed

text \<open>
  A successful save of a fresh identifier adds exactly the paste it was asked to add, whether it
  stored the content or a reference to an earlier paste.
\<close>

lemma sqlite_save_refines_lemma:
  assumes ok: "db_ok db" and fresh: "pastes db i = None" "i \<noteq> []" and nc: "no_collision db c"
    and sv: "sqlite_SavePaste e db i c n b p = (Inr res, db')"
  shows "abs_db db' = a_save (sqlite_time (now e)) (sqlite_time (expiry_time (now e) n)) (abs_db db) i c b"
  using sv
proof (cases rule: sqlite_SavePaste_cases)
  case (reference h ph j row)
  have h: "h = sha256_hex c" using reference(1) by (simp add: sqlite_hashes_Inr)
  have ji: "j \<noteq> i" using db_ok_hash [OF ok reference(2)] fresh by (auto simp: original_row_def)
  obtain r c' where r: "pastes db j = Some r" "r_content r = Some c'" "sha256_hex c' = h"
    using db_ok_hash [OF ok reference(2)] by (elim original_rowE) blast
  then have "c' = c" using nc h by (auto simp: no_collision_def)
  have new: "pastes db' = (pastes db)(i \<mapsto> row)" "burned_pastes db' = burned_pastes db"
    using reference(4) by (auto simp: insert_paste_def split: if_splits)
  have un: "burned_pastes db i = None"
    using db_ok_burned [OF ok, of i] fresh by (cases "burned_pastes db i") auto
  have "abs_db db' i = Some \<lparr>a_content = Some c, a_expires_at = sqlite_time (expiry_time (now e) n),
      a_burn_after_read = b, a_size_bytes = int (length c), a_created_at = sqlite_time (now e),
      a_burned = False\<rparr>"
    using new un ji r \<open>c' = c\<close> reference(3,6,8-11)
    by (simp add: abs_db_def abs_row_def row_content_def content_id_def)
  then show ?thesis
    using abs_db_other [OF ok fresh(1) _ new] by (auto simp: a_save_def fun_eq_iff)
next
  case (original h ph row db1)
  have new: "pastes db' = (pastes db)(i \<mapsto> row)" "burned_pastes db' = burned_pastes db"
    using original(3,4)
    by (auto simp: insert_paste_def insert_hash_or_ignore_def split: if_splits)
  have un: "burned_pastes db i = None"
    using db_ok_burned [OF ok, of i] fresh by (cases "burned_pastes db i") auto
  have "abs_db db' i = Some \<lparr>a_content = Some c, a_expires_at = sqlite_time (expiry_time (now e) n),
      a_burn_after_read = b, a_size_bytes = int (length c), a_created_at = sqlite_time (now e),
      a_burned = False\<rparr>"
    using new un original(5,6,8-11)
    by (simp add: abs_db_def abs_row_def row_content_def content_id_def)
  then show ?thesis
    using abs_db_other [OF ok fresh(1) _ new] by (auto simp: a_save_def fun_eq_iff)
qed auto

text \<open>Without failures a save of a fresh identifier with permitted content succeeds.\<close>

lemma sqlite_save_succeeds:
  assumes ok: "db_ok db" and fresh: "pastes db i = None" and nf: "no_failure e"
    and h: "sqlite_hashes e db c p = Inr (h, ph)"
  obtains res db' where "sqlite_SavePaste e db i c n b p = (Inr res, db')"
proof -
  note nf = nf [unfolded no_failure_def, rule_format]
  have "\<exists>res db'. sqlite_SavePaste e db i c n b p = (Inr res, db')"
  proof (cases "hash_index db h")
    case None
    then show ?thesis using nf h fresh
      by (simp add: sqlite_SavePaste_def Let_def insert_paste_def insert_hash_or_ignore_def)
  next
    case (Some j)
    then obtain r where "pastes db j = Some r"
      using db_ok_hash [OF ok Some] by (elim original_rowE) blast
    with Some show ?thesis using nf h fresh
      by (simp add: sqlite_SavePaste_def Let_def insert_paste_def insert_hash_or_ignore_def)
  qed
  then show thesis using that by blast
qed

subsection \<open>Deleting\<close>

definition refers_to :: "sqldb \<Rightarrow> string \<Rightarrow> string \<Rightarrow> bool" where
  "refers_to db j i = (case pastes db j of None \<Rightarrow> False | Some row \<Rightarrow> r_references_id row = Some i)"

lemma abs_row_delete:
  assumes ok: "db_ok db" and i: "i \<noteq> []" "pastes db i \<noteq> None" and j: "pastes db j = Some row" "j \<noteq> i"
  shows "abs_row (delete_paste i db) j (drop_reference i row) =
    (if r_references_id row = Some i then abs_row db j row\<lparr>a_content := None\<rparr> else abs_row db j row)"
proof -
  have p: "pastes (delete_paste i db) k = (if k = i then None else map_option (drop_reference i) (pastes db k))"
    and b: "burned_pastes (delete_paste i db) j = burned_pastes db j" for k
    using i(2) j(2) by (auto simp: delete_paste_def)
  have meta: "r_size_bytes (drop_reference i row) = r_size_bytes row"
    "r_created_at (drop_reference i row) = r_created_at row" by (simp_all add: drop_reference_def)
  show ?thesis
  proof (cases "r_references_id row = Some i")
    case True
    then have "r_content row = None"
      using db_ok_content [OF ok j(1)] by (cases "r_content row") auto
    then show ?thesis using True i j p
      by (simp add: abs_row_def row_content_def content_id_def b meta)
  next
    case False
    then have "content_id j row \<noteq> i" using j(2)
      by (auto simp: content_id_def split: option.splits if_splits)
    then show ?thesis using False p
      by (auto simp: abs_row_def row_content_def content_id_def b meta split: option.splits)
  qed
qed

lemma sqlite_delete_effect_lemma:
  assumes ok: "db_ok db" and nf: "\<not> fails e QDelete" and i: "i \<noteq> []"
  shows "fst (sqlite_DeletePaste e db i) = Inr ()"
    and "abs_db (snd (sqlite_DeletePaste e db i)) j =
      (if j = i then None
       else map_option (\<lambda>a. if refers_to db j i then a\<lparr>a_content := None\<rparr> else a) (abs_db db j))"
proof -
  show "fst (sqlite_DeletePaste e db i) = Inr ()" using nf by (simp add: sqlite_DeletePaste_def)
  have db': "snd (sqlite_DeletePaste e db i) = delete_paste i db"
    using nf by (simp add: sqlite_DeletePaste_def)
  show "abs_db (snd (sqlite_DeletePaste e db i)) j =
      (if j = i then None
       else map_option (\<lambda>a. if refers_to db j i then a\<lparr>a_content := None\<rparr> else a) (abs_db db j))"
  proof (cases "pastes db i")
    case None
    have "\<not> refers_to db j i"
      using db_ok_ref_exists [OF ok, of j _ i] None by (auto simp: refers_to_def split: option.splits)
    then show ?thesis using None
      by (auto simp: db' delete_paste_def abs_db_def option.map_ident)
  next
    case (Some row0)
    then have del: "pastes (delete_paste i db) j = (if j = i then None else map_option (drop_reference i) (pastes db j))"
      by (simp add: delete_paste_def)
    show ?thesis
    proof (cases "pastes db j")
      case None
      then show ?thesis using del by (simp add: db' abs_db_def)
    next
      case row: (Some row)
      then show ?thesis using del abs_row_delete [OF ok i _ row] Some
        by (simp add: db' abs_db_def refers_to_def)
    qed
  qed
qed

subsection \<open>Deduplication\<close>

text \<open>Every stored content is reachable through the hash index, so no content is stored twice.\<close>

definition dedup_ok :: "sqldb \<Rightarrow> bool" where
  "dedup_ok db \<longleftrightarrow> db_ok db \<and> pastes db [] = None \<and>
     (\<forall>i row. pastes db i = Some row \<longrightarrow> r_content row \<noteq> None \<longrightarrow>
        hash_index db (r_content_hash row) = Some i)"

lemma dedup_unique:
  assumes "dedup_ok db" "pastes db i = Some row" "pastes db j = Some row'"
    "r_content row = Some c" "r_content row' = Some c"
  shows "i = j"
proof -
  have "r_content_hash row = r_content_hash row'"
    using assms db_ok_content [of db i row c] db_ok_content [of db j row' c] by (simp add: dedup_ok_def)
  then show ?thesis using assms by (simp add: dedup_ok_def) (metis option.discI option.inject)
qed

lemma dedup_ok_empty [wf_intros]: "dedup_ok empty_db"
  using db_ok_empty by (simp add: dedup_ok_def empty_db_def)

lemma dedup_ok_same_tables:
  "dedup_ok db \<Longrightarrow> db_ok db' \<Longrightarrow> pastes db' = pastes db \<Longrightarrow> hash_index db' = hash_index db \<Longrightarrow> dedup_ok db'"
  by (simp add: dedup_ok_def)

lemma dedup_ok_save:
  assumes d: "dedup_ok db" and i: "i \<noteq> []" and sv: "sqlite_SavePaste e db i c n b p = (r, db')"
  shows "dedup_ok db'"
proof -
  have ok': "db_ok db'" using sqlite_SavePaste_inv [OF _ sv] d by (simp add: dedup_ok_def)
  show ?thesis
    using sv
  proof (cases rule: sqlite_SavePaste_cases)
    case failed
    then show ?thesis using d by simp
  next
    case (reference h ph j row)
    then show ?thesis using d i ok'
      by (auto simp: insert_paste_def dedup_ok_def split: if_splits)
  next
    case (original h ph row db1)
    have "hash_index db h \<noteq> Some []"
      using d db_ok_hash [of db h "[]"] by (auto simp: dedup_ok_def original_row_def)
    then have none: "hash_index db h = None" using original(2) by blast
    then have "pastes db' = (pastes db)(i \<mapsto> row)" "hash_index db' = (hash_index db)(h \<mapsto> i)"
      using original(3,4) by (auto simp: insert_paste_def insert_hash_or_ignore_def split: if_splits)
    moreover have "r_content_hash row' \<noteq> h" if "pastes db j = Some row'" "r_content row' \<noteq> None" for j row'
      using that none d by (auto simp: dedup_ok_def)
    ultimately show ?thesis using d i ok' original(7)
      by (simp add: dedup_ok_def)
  qed
qed

lemma dedup_ok_delete: "dedup_ok db \<Longrightarrow> dedup_ok (delete_paste i db)"
  using db_ok_delete [of db i] by (fastforce simp: dedup_ok_def delete_paste_def)

lemma dedup_ok_step:
  assumes "dedup_ok db" "\<not> saves [] x"
  shows "dedup_ok (snd (store_step (sqlite_backend e) x db))"
proof (cases x)
  case (OpSave i c n b p)
  then show ?thesis using assms dedup_ok_save [of db i e c n b p]
    by (cases "sqlite_SavePaste e db i c n b p") auto
next
  case (OpGet i)
  have "dedup_ok (snd (sqlite_GetPaste e db i))"
    using assms(1) sqlite_GetPaste_inv [of db e i]
    by (cases "sqlite_GetPaste e db i")
       (auto simp: insert_burned_or_ignore_def dedup_ok_def dest!: sqlite_get_state split: if_splits)
  then show ?thesis using OpGet by (simp only: store_step_pair snd_conv sqlite_backend_simps)
next
  case (OpDelete i)
  then show ?thesis using assms dedup_ok_delete by (simp add: sqlite_DeletePaste_def)
qed (use assms sqlite_step_inv [of db e x] in
      \<open>auto simp: sqlite_MarkBurned_def sqlite_BanContentHash_def sqlite_BanPlaintextHash_def upsert_ban_def
        Let_def insert_burned_or_ignore_def dedup_ok_def split: prod.splits option.splits if_splits\<close>)

lemma dedup_ok_run:
  "dedup_ok db \<Longrightarrow> list_all (\<lambda>a. \<not> saves [] (snd a)) xs \<Longrightarrow>
   dedup_ok (snd (store_run sqlite_backend xs db))"
proof (induction xs arbitrary: db)
  case (Cons a xs)
  obtain e x where a: "a = (e, x)" by fastforce
  have "dedup_ok (snd (store_step (sqlite_backend e) x db))"
    using Cons.prems a by (auto intro: dedup_ok_step)
  then show ?case using Cons.IH Cons.prems
    by (simp add: a split: prod.splits) (metis snd_conv)
qed simp

subsection \<open>Bans\<close>

text \<open>No operation lifts a ban.\<close>

lemma has_ban_upsert: "has_ban h ty db \<Longrightarrow> has_ban h ty (upsert_ban h' r ty' t db)"
  by (auto simp: has_ban_def upsert_ban_def Let_def split: option.splits)

lemma sqlite_save_bans: "sqlite_SavePaste e db i c n b p = (r, db') \<Longrightarrow> banned_hashes db' = banned_hashes db"
  by (erule sqlite_SavePaste_cases)
     (auto simp: insert_paste_def insert_hash_or_ignore_def split: if_splits)

lemma sqlite_ban_step:
  assumes "has_ban h ty db"
  shows "has_ban h ty (snd (store_step (sqlite_backend e) x db))"
proof (cases x)
  case (OpSave i c n b p)
  then show ?thesis using assms
    by (auto split: prod.splits dest!: sqlite_save_bans simp: has_ban_def)
next
  case (OpGet i)
  then show ?thesis using assms
    by (auto split: prod.splits if_splits dest!: sqlite_get_state simp: insert_burned_or_ignore_def has_ban_def)
next
  case (OpMarkBurned i)
  then show ?thesis using assms
    by (auto simp: sqlite_MarkBurned_def insert_burned_or_ignore_def has_ban_def
        split: prod.splits option.splits if_splits)
next
  case (OpDelete i)
  then show ?thesis using assms
    by (auto simp: sqlite_DeletePaste_def delete_paste_def has_ban_def split: prod.splits)
qed (use assms in \<open>simp_all add: sqlite_BanContentHash_def sqlite_BanPlaintextHash_def has_ban_upsert\<close>)

lemma sqlite_banned_save:
  assumes "has_ban (sha256_hex c) HCiphertext db"
  shows "\<exists>x. sqlite_SavePaste e db i c n b p = (Inl x, db)"
proof -
  obtain x where "sqlite_hashes e db c p = Inl x"
    using assms by (cases "sqlite_hashes e db c p") (auto dest: sqlite_hashes_Inr)
  then show ?thesis by (simp add: sqlite_SavePaste_def)
qed

text \<open>The answers to the saves of a given content along a run.\<close>

fun stores_content :: "string \<Rightarrow> store_op \<Rightarrow> store_out \<Rightarrow> bool" where
  "stores_content h (OpSave i c n b p) (OutSave r) = (sha256_hex c = h \<and> is_ok r)"
| "stores_content h _ _ = False"

lemma sqlite_ban_run:
  "has_ban h HCiphertext db \<Longrightarrow>
   list_all2 (\<lambda>a y. \<not> stores_content h (snd a) y) xs (fst (store_run sqlite_backend xs db))"
proof (induction xs arbitrary: db)
  case (Cons a xs)
  obtain e x where a: "a = (e, x)" by fastforce
  obtain y db1 where st: "store_step (sqlite_backend e) x db = (y, db1)" by fastforce
  have "has_ban h HCiphertext db1" using sqlite_ban_step [OF Cons.prems, of e x] st by simp
  moreover have "\<not> stores_content h x y"
    using st Cons.prems sqlite_banned_save [of _ db e]
    by (cases x) (auto split: prod.splits, metis is_ok_simps(2) prod.inject)
  ultimately show ?case using Cons.IH [of db1]
    by (simp add: a st split: prod.splits) (metis fst_conv)
qed simp

text \<open>A burn-after-read paste just saved is waiting for its reader.\<close>

lemma sqlite_saved_pending:
  assumes "db_ok db" "pastes db i = None" "sqlite_SavePaste e db i c n True p = (Inr res, db')"
  shows "sql_pending db' i \<or> sql_spent db' i"
proof -
  have "burned_pastes db i = None"
    using db_ok_burned [OF assms(1), of i] assms(2) by (cases "burned_pastes db i") auto
  with assms(3) show ?thesis
    by (cases rule: sqlite_SavePaste_cases)
       (auto simp: sql_pending_def insert_paste_def insert_hash_or_ignore_def split: if_splits)
qed

subsection \<open>Properties\<close>

text \<open>C1: Burn-after-read is race-free. Once a burn-after-read paste has been saved under a fresh
  identifier, any later history of operations on the store, by any number of clients and with any
  driver failures, that does not save that identifier again delivers its content at most once.\<close>

theorem sqlite_burn_once_after_save:
  assumes "db_ok db" "pastes db i = None"
    and "sqlite_SavePaste e db i c n True p = (Inr res, db')"
    and "list_all (\<lambda>a. \<not> saves i (snd a)) xs"
  shows "deliveries i xs (fst (store_run sqlite_backend xs db')) \<le> 1"
proof (rule sqlite.burn_once [OF _ _ assms(4)])
  show "db_ok db'" using assms(1,3) by (rule sqlite_SavePaste_inv)
  show "sql_pending db' i \<or> sql_spent db' i" using assms(1-3) by (rule sqlite_saved_pending)
qed

theorem sqlite_burn_once_after_save_witness:
  "\<exists>res db'. sqlite_SavePaste (calm 0) empty_db ''a'' ''QQ=='' 60 True False = (Inr res, db') \<and>
     deliveries ''a'' [(calm 1, OpGet ''a''), (calm 2, OpGet ''a'')]
       (fst (store_run sqlite_backend [(calm 1, OpGet ''a''), (calm 2, OpGet ''a'')] db')) \<le> 1"
proof -
  have "sqlite_hashes (calm 0) empty_db ''QQ=='' False = Inr (sha256_hex ''QQ=='', [])"
    by (simp add: sqlite_hashes_def sqlite_isHashBanned_def has_ban_def empty_db_def)
  from sqlite_save_succeeds [OF db_ok_empty _ _ this, of "''a''" 60 True]
  obtain res db' where s: "sqlite_SavePaste (calm 0) empty_db ''a'' ''QQ=='' 60 True False = (Inr res, db')"
    by (auto simp: empty_db_def)
  from sqlite_burn_once_after_save [OF db_ok_empty _ s, of "[(calm 1, OpGet ''a''), (calm 2, OpGet ''a'')]"] s
  show ?thesis by (auto simp: empty_db_def)
qed

text \<open>C3: Save then read. A permitted paste saved under a fresh identifier, with no driver failure and
  no hash collision with what is stored, is answered by every failure-free read before its expiry
  with the very content that was saved and its metadata; a burn-after-read paste is answered as
  burned, so that its first reader is told to treat it as consumed.\<close>

theorem sqlite_save_then_get:
  assumes "db_ok db" "pastes db i = None" "i \<noteq> []" "no_collision db c"
    and "no_failure e" "sqlite_hashes e db c plain = Inr (h, ph)"
    and "no_failure e'" "sqlite_time (db_now e') < sqlite_time (expiry_time (now e) n)"
  shows "\<exists>res db'. sqlite_SavePaste e db i c n burn plain = (Inr res, db') \<and>
    fst (sqlite_GetPaste e' db' i) =
      Inr (c, \<lparr>p_id = i, p_expires_at = sqlite_time (expiry_time (now e) n), p_burn_after_read = burn,
               p_size_bytes = int (length c), p_created_at = sqlite_time (now e), p_is_burned = burn\<rparr>)"
proof -
  obtain res db' where s: "sqlite_SavePaste e db i c n burn plain = (Inr res, db')"
    using sqlite_save_succeeds [OF assms(1,2,5,6)] by metis
  have ok: "db_ok db'" using assms(1) s by (rule sqlite_SavePaste_inv)
  show ?thesis
    using s sqlite_get_refines_lemma [OF ok assms(7), of i] assms(8)
    by (simp add: sqlite_save_refines_lemma [OF assms(1-4) s] a_get_def a_save_def a_meta_def
        split: prod.splits)
qed

theorem sqlite_save_then_get_witness:
  "\<exists>res db'. sqlite_SavePaste (calm 0) empty_db ''a'' ''QQ=='' 60 True False = (Inr res, db') \<and>
    fst (sqlite_GetPaste (calm 5000000000) db' ''a'') =
      Inr (''QQ=='', \<lparr>p_id = ''a'', p_expires_at = 60000000000, p_burn_after_read = True,
               p_size_bytes = 4, p_created_at = 0, p_is_burned = True\<rparr>)"
proof -
  have h: "sqlite_hashes (calm 0) empty_db ''QQ=='' False = Inr (sha256_hex ''QQ=='', [])"
    by (simp add: sqlite_hashes_def sqlite_isHashBanned_def has_ban_def empty_db_def)
  have x: "expiry_time 0 60 = 60000000000" by (simp add: expiry_time_small second_def)
  show ?thesis
    using sqlite_save_then_get [OF db_ok_empty _ _ _ _ h, of "''a''" "calm 5000000000" 60 True]
    by (simp add: x sqlite_time_def truncate_to_def second_def empty_db_def no_collision_def)
qed

text \<open>C4: Reading refines a map lookup. On well-formed tables and with no driver failure, \<^verbatim>\<open>GetPaste\<close>
  answers exactly what the abstract store answers: not found for an absent or expired paste, burned
  without content for a consumed one, else the content with its metadata; and the tables afterwards
  denote the abstract store after the read, in which a burn-after-read paste is burned.\<close>

theorem sqlite_get_refines:
  assumes "db_ok db" "no_failure e"
  shows "a_get (sqlite_time (db_now e)) (abs_db db) i =
    (fst (sqlite_GetPaste e db i), abs_db (snd (sqlite_GetPaste e db i)))"
  using assms by (rule sqlite_get_refines_lemma)

theorem sqlite_get_refines_witness:
  "a_get (sqlite_time (db_now (calm 7))) (abs_db empty_db) ''a'' =
    (fst (sqlite_GetPaste (calm 7) empty_db ''a''), abs_db (snd (sqlite_GetPaste (calm 7) empty_db ''a'')))"
  by (rule sqlite_get_refines [OF db_ok_empty]) simp

text \<open>C5: Failed operations have no effect. Whatever driver calls fail, an operation of the SQLite
  backend that returns an error leaves the tables exactly as they were; in particular a read that
  fails does not burn the paste.\<close>

theorem sqlite_failure_atomic:
  assumes "out_failed (fst (store_step (sqlite_backend e) x db))"
  shows "snd (store_step (sqlite_backend e) x db) = db"
  using assms by (rule sqlite_failed_frame)

theorem sqlite_failure_atomic_witness:
  "snd (store_step (sqlite_backend (calm 0)) (OpGet ''a'') empty_db) = empty_db"
proof (rule sqlite_failure_atomic)
  show "out_failed (fst (store_step (sqlite_backend (calm 0)) (OpGet ''a'') empty_db))"
    by (simp add: sqlite_GetPaste_def sqlite_select_live_def empty_db_def)
qed

text \<open>C6: The tables stay well formed. After any history of operations from the empty database every
  hash-index entry names a paste that stores content with that hash, every reference points at such
  a paste (so references never form chains), content matches its hash, and only existing pastes are
  marked burned.\<close>

theorem sqlite_run_well_formed: "db_ok (snd (store_run sqlite_backend xs empty_db))"
  by (rule sqlite.run_inv [OF db_ok_empty])

text \<open>Content is stored once. After any history from the empty database in which no paste has the
  empty identifier, two stored pastes that carry the same content of their own are the same paste.\<close>

theorem sqlite_run_dedup:
  assumes "list_all (\<lambda>a. \<not> saves [] (snd a)) xs"
    and "pastes (snd (store_run sqlite_backend xs empty_db)) i = Some row"
    and "pastes (snd (store_run sqlite_backend xs empty_db)) j = Some row'"
    and "r_content row = Some c" "r_content row' = Some c"
  shows "i = j"
  using dedup_unique [OF dedup_ok_run [OF dedup_ok_empty assms(1)] assms(2-5)] .

theorem sqlite_run_dedup_witness:
  "\<exists>row c. pastes (snd (store_run sqlite_backend [(calm 0, OpSave ''a'' ''QQ=='' 60 False False)] empty_db)) ''a''
     = Some row \<and> r_content row = Some c \<and> ''a'' = ''a''"
proof -
  let ?xs = "[(calm 0, OpSave ''a'' ''QQ=='' 60 False False)]"
  have h: "sqlite_hashes (calm 0) empty_db ''QQ=='' False = Inr (sha256_hex ''QQ=='', [])"
    by (simp add: sqlite_hashes_def sqlite_isHashBanned_def has_ban_def empty_db_def)
  obtain row c where r: "pastes (snd (store_run sqlite_backend ?xs empty_db)) ''a'' = Some row"
    and c: "r_content row = Some c"
    using h by (auto simp: sqlite_SavePaste_def Let_def insert_paste_def insert_hash_or_ignore_def empty_db_def)
  have "''a'' = ''a''" by (rule sqlite_run_dedup [OF _ r r c c]) simp
  with r c show ?thesis by blast
qed

text \<open>C9: A ban holds for good. Once a ciphertext hash is banned, no save along any later history of
  operations stores content with that hash.\<close>

theorem sqlite_ban_permanent:
  assumes "has_ban h HCiphertext db"
  shows "list_all2 (\<lambda>a y. \<not> stores_content h (snd a) y) xs (fst (store_run sqlite_backend xs db))"
  using assms by (rule sqlite_ban_run)

theorem sqlite_ban_permanent_witness:
  "list_all2 (\<lambda>a y. \<not> stores_content ''h'' (snd a) y) [(calm 1, OpDelete ''a'')]
     (fst (store_run sqlite_backend [(calm 1, OpDelete ''a'')]
       (snd (sqlite_BanContentHash (calm 0) empty_db ''h'' ''abuse''))))"
proof (rule sqlite_ban_permanent)
  show "has_ban ''h'' HCiphertext (snd (sqlite_BanContentHash (calm 0) empty_db ''h'' ''abuse''))"
    by (simp add: sqlite_BanContentHash_def upsert_ban_def has_ban_def empty_db_def)
qed

text \<open>Banning a hash that is already banned as the other kind reports success and does not take
  effect. The upsert leaves the type of an existing row, so after \<^verbatim>\<open>BanPlaintextHash\<close> on a hash that
  is banned as ciphertext the plaintext check still passes, and the other way round.\<close>

theorem sqlite_cross_ban_ineffective:
  assumes "\<not> fails e QUpsertBan" "\<not> fails e' QBanPlaintext" "\<not> fails e' QBanContent"
  shows "(has_ban h HCiphertext db \<longrightarrow>
      fst (sqlite_BanPlaintextHash e db h r) = Inr () \<and>
      sqlite_isPlaintextHashBanned e' (snd (sqlite_BanPlaintextHash e db h r)) h = Inr False) \<and>
    (has_ban h HPlaintext db \<longrightarrow>
      fst (sqlite_BanContentHash e db h r) = Inr () \<and>
      sqlite_isHashBanned e' (snd (sqlite_BanContentHash e db h r)) h = Inr False)"
  using assms
  by (auto simp: sqlite_BanPlaintextHash_def sqlite_BanContentHash_def sqlite_isPlaintextHashBanned_def
      sqlite_isHashBanned_def upsert_ban_def has_ban_def Let_def split: option.splits)

theorem sqlite_cross_ban_ineffective_witness:
  "fst (sqlite_BanPlaintextHash (calm 1) (upsert_ban ''h'' ''a'' HCiphertext 0 empty_db) ''h'' ''b'') = Inr () \<and>
   sqlite_isPlaintextHashBanned (calm 2)
     (snd (sqlite_BanPlaintextHash (calm 1) (upsert_ban ''h'' ''a'' HCiphertext 0 empty_db) ''h'' ''b'')) ''h''
   = Inr False"
proof -
  have "has_ban ''h'' HCiphertext (upsert_ban ''h'' ''a'' HCiphertext 0 empty_db)"
    by (simp add: upsert_ban_def has_ban_def empty_db_def)
  with sqlite_cross_ban_ineffective [of "calm 1" "calm 2" "''h''"
      "upsert_ban ''h'' ''a'' HCiphertext 0 empty_db" "''b''"]
  show ?thesis by simp
qed

text \<open>Expired pastes are never served. Content that \<^verbatim>\<open>GetPaste\<close> returns belongs to the paste asked
  for, and its expiry lies after the database's clock in whole seconds.\<close>

theorem sqlite_get_unexpired:
  assumes "sqlite_GetPaste e db i = (Inr (c, p), db')" "c \<noteq> []"
  shows "p_id p = i \<and> sqlite_time (db_now e) < p_expires_at p \<and> p_is_burned p = p_burn_after_read p"
  using assms
  by (cases rule: sqlite_GetPaste_cases) (auto simp: sqlite_select_live_def split: option.splits if_splits)

theorem sqlite_get_unexpired_witness:
  "\<exists>db p. fst (sqlite_GetPaste (calm 0) db ''a'') = Inr (''QQ=='', p) \<and> p_id p = ''a'' \<and>
     sqlite_time 0 < p_expires_at p \<and> p_is_burned p = p_burn_after_read p"
proof -
  let ?row = "\<lparr>r_content = Some ''QQ=='', r_references_id = None, r_content_hash = ''h'',
    r_plaintext_hash = None, r_expires_at = 60000000000, r_burn_after_read = False,
    r_size_bytes = 4, r_is_plaintext = False, r_created_at = 0\<rparr>"
  let ?db = "empty_db\<lparr>pastes := [''a'' \<mapsto> ?row]\<rparr>"
  let ?p = "\<lparr>p_id = ''a'', p_expires_at = 60000000000, p_burn_after_read = False,
    p_size_bytes = 4, p_created_at = 0, p_is_burned = False\<rparr>"
  have g: "sqlite_GetPaste (calm 0) ?db ''a'' = (Inr (''QQ=='', ?p), ?db)"
    by (simp add: sqlite_GetPaste_def sqlite_select_live_def sqlite_read_content_def content_id_def
        sqlite_time_def truncate_to_def empty_db_def)
  show ?thesis
    using sqlite_get_unexpired [OF g] by (intro exI [of _ ?db] exI [of _ ?p]) (simp add: g)
qed

text \<open>C10: What deleting a paste does. The paste is gone; every other paste keeps its content, expiry
  and burn mark, except that pastes stored as references to the deleted one lose their content: the
  database sets their reference to null and the content was stored nowhere else.\<close>

theorem sqlite_delete_effect:
  assumes "db_ok db" "\<not> fails e QDelete" "i \<noteq> []"
  shows "abs_db (snd (sqlite_DeletePaste e db i)) =
    (\<lambda>j. if j = i then None
         else map_option (\<lambda>a. if refers_to db j i then a\<lparr>a_content := None\<rparr> else a) (abs_db db j))"
  using sqlite_delete_effect_lemma(2) [OF assms] by blast

theorem sqlite_delete_effect_witness:
  "abs_db (snd (sqlite_DeletePaste (calm 0) empty_db ''a'')) =
    (\<lambda>j. if j = ''a'' then None
         else map_option (\<lambda>a. if refers_to empty_db j ''a'' then a\<lparr>a_content := None\<rparr> else a)
                (abs_db empty_db j))"
  by (rule sqlite_delete_effect [OF db_ok_empty]) simp_all

end
