(* ===== verification/Postgres.thy ===== *)
theory Postgres
  imports Sqlite
begin

text \<open>
  \<^verbatim>\<open>src/services/storage_postgres.go\<close> on the schema of \<^verbatim>\<open>migrations/001_initial_schema.sql\<close>. The
  statements are those of the SQLite backend but for the column widths, the microsecond timestamps
  and the second statement of \<^verbatim>\<open>DeletePaste\<close>. The two backends are proved to agree step by step
  on clocks that read whole seconds, and to satisfy the same contract on all clocks.
\<close>

definition pg_time :: "gotime \<Rightarrow> gotime" where
  "pg_time t = truncate_to microsecond t"

text \<open>\<^verbatim>\<open>VARCHAR(43)\<close>, \<^verbatim>\<open>VARCHAR(64)\<close> and \<^verbatim>\<open>INTEGER\<close> columns refuse what does not fit.\<close>

definition pg_fits :: "string \<Rightarrow> paste_row \<Rightarrow> bool" where
  "pg_fits i row \<longleftrightarrow> length i \<le> 43 \<and> length (r_content_hash row) \<le> 64 \<and>
     (case r_references_id row of None \<Rightarrow> True | Some r \<Rightarrow> length r \<le> 43) \<and>
     (case r_plaintext_hash row of None \<Rightarrow> True | Some h \<Rightarrow> length h \<le> 64) \<and>
     r_size_bytes row < 2 ^ 31"

definition pg_insert_paste :: "string \<Rightarrow> paste_row \<Rightarrow> sqldb \<Rightarrow> sqldb option" where
  "pg_insert_paste i row db = (if pg_fits i row then insert_paste i row db else None)"

definition pg_isHashBanned :: "env \<Rightarrow> sqldb \<Rightarrow> string \<Rightarrow> bool result" where
  "pg_isHashBanned e db h =
     (if fails e QBanContent then Inl (ErrWrapped ''failed to check banned status'')
      else Inr (has_ban h HCiphertext db))"

definition pg_isPlaintextHashBanned :: "env \<Rightarrow> sqldb \<Rightarrow> string \<Rightarrow> bool result" where
  "pg_isPlaintextHashBanned e db h =
     (if fails e QBanPlaintext then Inl (ErrWrapped ''failed to check plaintext banned status'')
      else Inr (has_ban h HPlaintext db))"

definition pg_hashes :: "env \<Rightarrow> sqldb \<Rightarrow> string \<Rightarrow> bool \<Rightarrow> (string \<times> string) result" where
  "pg_hashes e db c plain =
     (case (if plain then
              (case b64_decode StdEncoding c of
                 None \<Rightarrow> Inl (ErrWrapped ''failed to decode plaintext content'')
               | Some d \<Rightarrow>
                   (let ph = plaintext_hash_of d in
                    if ph \<noteq> [] then
                      (case pg_isPlaintextHashBanned e db ph of
                         Inl x \<Rightarrow> Inl x
                       | Inr True \<Rightarrow> Inl ErrBannedContent
                       | Inr False \<Rightarrow> Inr ph)
                    else Inr ph))
            else Inr []) of
        Inl x \<Rightarrow> Inl x
      | Inr ph \<Rightarrow>
          (case pg_isHashBanned e db (sha256_hex c) of
             Inl x \<Rightarrow> Inl x
           | Inr True \<Rightarrow> Inl ErrBannedContent
           | Inr False \<Rightarrow> Inr (sha256_hex c, ph)))"

definition pg_SavePaste ::
  "env \<Rightarrow> sqldb \<Rightarrow> string \<Rightarrow> string \<Rightarrow> int \<Rightarrow> bool \<Rightarrow> bool \<Rightarrow> save_paste_result result \<times> sqldb" where
  "pg_SavePaste e db i c expiry burn plain =
     (case pg_hashes e db c plain of
        Inl x \<Rightarrow> (Inl x, db)
      | Inr (h, ph) \<Rightarrow>
          (let t = now e; expires = expiry_time t expiry;
               existing = (case hash_index db h of None \<Rightarrow> [] | Some j \<Rightarrow> j);
               p = \<lparr>p_id = i, p_expires_at = expires, p_burn_after_read = burn,
                    p_size_bytes = int (length c), p_created_at = t, p_is_burned = False\<rparr>;
               row = \<lparr>r_content = None, r_references_id = None, r_content_hash = h,
                      r_plaintext_hash = null_string ph, r_expires_at = pg_time expires,
                      r_burn_after_read = burn, r_size_bytes = int (length c),
                      r_is_plaintext = plain, r_created_at = pg_time t\<rparr>
           in
           if fails e QBegin then (Inl (ErrWrapped ''failed to begin transaction''), db)
           else if fails e QFindHash then (Inl (ErrWrapped ''failed to check for existing content''), db)
           else if existing \<noteq> [] then
             (case (if fails e QInsertReference then None
                    else pg_insert_paste i (row\<lparr>r_references_id := Some existing\<rparr>) db) of
                None \<Rightarrow> (Inl (ErrWrapped ''failed to create reference paste''), db)
              | Some db1 \<Rightarrow>
                  if fails e QCommit then (Inl (ErrWrapped ''failed to commit transaction''), db)
                  else (Inr \<lparr>sr_paste = p, sr_was_deduplicated = True, sr_references_id = existing,
                             sr_content_hash = h\<rparr>, db1))
           else
             (case (if fails e QInsertPaste then None
                    else pg_insert_paste i (row\<lparr>r_content := Some c\<rparr>) db) of
                None \<Rightarrow> (Inl (ErrWrapped ''failed to save paste''), db)
              | Some db1 \<Rightarrow>
                  (case (if fails e QInsertHash then None else insert_hash_or_ignore h i db1) of
                     None \<Rightarrow> (Inl (ErrWrapped ''failed to create hash index''), db)
                   | Some db2 \<Rightarrow>
                       if fails e QCommit then (Inl (ErrWrapped ''failed to commit transaction''), db)
                       else (Inr \<lparr>sr_paste = p, sr_was_deduplicated = False, sr_references_id = [],
                                  sr_content_hash = h\<rparr>, db2)))))"

definition pg_select_live :: "env \<Rightarrow> sqldb \<Rightarrow> string \<Rightarrow> paste_row option" where
  "pg_select_live e db i =
     (case pastes db i of
        None \<Rightarrow> None
      | Some row \<Rightarrow> if pg_time (db_now e) < r_expires_at row then Some row else None)"

definition pg_read_content ::
  "env \<Rightarrow> sqldb \<Rightarrow> sqldb \<Rightarrow> string \<Rightarrow> paste_row \<Rightarrow> paste \<Rightarrow> (string \<times> paste) result \<times> sqldb" where
  "pg_read_content e db db1 i row p =
     (if fails e QSelectContent then (Inl (ErrWrapped ''failed to get paste content''), db)
      else (case pastes db1 (content_id i row) of
         None \<Rightarrow> (Inl ErrNotFound, db)
       | Some row' \<Rightarrow>
           (case r_content row' of
              None \<Rightarrow> (Inl ErrNotFound, db)
            | Some c \<Rightarrow>
                if fails e QCommit then (Inl (ErrWrapped ''failed to commit transaction''), db)
                else (Inr (c, p), db1))))"

definition pg_GetPaste ::
  "env \<Rightarrow> sqldb \<Rightarrow> string \<Rightarrow> (string \<times> paste) result \<times> sqldb" where
  "pg_GetPaste e db i =
     (if fails e QBegin then (Inl (ErrWrapped ''failed to begin transaction''), db)
      else if fails e QIsBurned then (Inl (ErrWrapped ''failed to check burn status''), db)
      else if burned_pastes db i \<noteq> None then (Inr ([], burned_paste i), db)
      else if fails e QSelectPaste then (Inl (ErrWrapped ''failed to get paste''), db)
      else (case pg_select_live e db i of
         None \<Rightarrow> (Inl ErrNotFound, db)
       | Some row \<Rightarrow>
           (let p = \<lparr>p_id = i, p_expires_at = r_expires_at row,
                     p_burn_after_read = r_burn_after_read row, p_size_bytes = r_size_bytes row,
                     p_created_at = r_created_at row, p_is_burned = False\<rparr>
            in if r_burn_after_read row then
                 (case (if fails e QInsertBurned then None
                        else insert_burned_or_ignore i (pg_time (db_now e)) db) of
                    None \<Rightarrow> (Inl (ErrWrapped ''failed to mark paste as burned''), db)
                  | Some (affected, db1) \<Rightarrow>
                      if affected = 0 then (Inr ([], burned_paste i), db)
                      else pg_read_content e db db1 i row (p\<lparr>p_is_burned := True\<rparr>))
               else pg_read_content e db db i row p)))"

definition pg_MarkBurned :: "env \<Rightarrow> sqldb \<Rightarrow> string \<Rightarrow> unit result \<times> sqldb" where
  "pg_MarkBurned e db i =
     (case (if fails e QMarkBurned then None
            else insert_burned_or_ignore i (pg_time (db_now e)) db) of
        None \<Rightarrow> (Inl (ErrWrapped ''failed to mark paste as burned''), db)
      | Some (n, db1) \<Rightarrow> (Inr (), db1))"

text \<open>Two statements outside a transaction; the error of the second is dropped.\<close>

definition pg_DeletePaste :: "env \<Rightarrow> sqldb \<Rightarrow> string \<Rightarrow> unit result \<times> sqldb" where
  "pg_DeletePaste e db i =
     (if fails e QDelete then (Inl (ErrWrapped ''failed to delete paste''), db)
      else (let db1 = delete_paste i db in
            (Inr (), if fails e QDeleteBurned then db1
                     else db1\<lparr>burned_pastes := (burned_pastes db1)(i := None)\<rparr>)))"

definition pg_BanContentHash :: "env \<Rightarrow> sqldb \<Rightarrow> string \<Rightarrow> string \<Rightarrow> unit result \<times> sqldb" where
  "pg_BanContentHash e db h reason =
     (if fails e QUpsertBan \<or> 64 < length h then (Inl (ErrWrapped ''failed to ban content hash''), db)
      else (Inr (), upsert_ban h reason HCiphertext (pg_time (db_now e)) db))"

definition pg_BanPlaintextHash :: "env \<Rightarrow> sqldb \<Rightarrow> string \<Rightarrow> string \<Rightarrow> unit result \<times> sqldb" where
  "pg_BanPlaintextHash e db h reason =
     (if fails e QUpsertBan \<or> 64 < length h then (Inl (ErrWrapped ''failed to ban plaintext hash''), db)
      else (Inr (), upsert_ban h reason HPlaintext (pg_time (db_now e)) db))"

definition pg_Ping :: "env \<Rightarrow> sqldb \<Rightarrow> unit result" where
  "pg_Ping e db = (if fails e QPing then Inl (ErrWrapped ''ping'') else Inr ())"

definition pg_Close :: "env \<Rightarrow> sqldb \<Rightarrow> unit result" where
  "pg_Close e db = Inr ()"

definition pg_backend :: "env \<Rightarrow> sqldb backend" where
  "pg_backend e =
     \<lparr>SavePaste = pg_SavePaste e, GetPaste = pg_GetPaste e, MarkBurned = pg_MarkBurned e,
      DeletePaste = pg_DeletePaste e, BanContentHash = pg_BanContentHash e,
      BanPlaintextHash = pg_BanPlaintextHash e, Ping = pg_Ping e, Close = pg_Close e\<rparr>"

lemma pg_backend_simps [simp]:
  "SavePaste (pg_backend e) = pg_SavePaste e" "GetPaste (pg_backend e) = pg_GetPaste e"
  "MarkBurned (pg_backend e) = pg_MarkBurned e" "DeletePaste (pg_backend e) = pg_DeletePaste e"
  "BanContentHash (pg_backend e) = pg_BanContentHash e"
  "BanPlaintextHash (pg_backend e) = pg_BanPlaintextHash e"
  "Ping (pg_backend e) = pg_Ping e" "Close (pg_backend e) = pg_Close e"
  by (simp_all add: pg_backend_def)

subsection \<open>What each call can do\<close>

lemma pg_ban_checks_eq:
  "pg_isHashBanned = sqlite_isHashBanned" "pg_isPlaintextHashBanned = sqlite_isPlaintextHashBanned"
  by (simp_all add: fun_eq_iff pg_isHashBanned_def sqlite_isHashBanned_def
      pg_isPlaintextHashBanned_def sqlite_isPlaintextHashBanned_def)

lemma pg_hashes_eq: "pg_hashes e db c plain = sqlite_hashes e db c plain"
  by (simp only: pg_hashes_def sqlite_hashes_def pg_ban_checks_eq)

lemma pg_insert_pasteD: "pg_insert_paste i row db = Some db' \<Longrightarrow> insert_paste i row db = Some db'"
  by (simp add: pg_insert_paste_def split: if_splits)

lemma pg_SavePaste_cases:
  assumes "pg_SavePaste e db i c expiry burn plain = (r, db')"
  obtains (failed) x where "r = Inl x" "db' = db"
  | (reference) h j row res where "h = sha256_hex c"
      "hash_index db h = Some j" "insert_paste i row db = Some db'"
      "r_content row = None" "r_references_id row = Some j" "r_content_hash row = h"
      "r_burn_after_read row = burn" "r = Inr res"
  | (original) h row db1 res where "h = sha256_hex c"
      "insert_paste i row db = Some db1" "insert_hash_or_ignore h i db1 = Some db'"
      "r_content row = Some c" "r_references_id row = None" "r_content_hash row = h"
      "r_burn_after_read row = burn" "r = Inr res"
proof (cases "pg_hashes e db c plain")
  case (Inl x)
  then show ?thesis using assms failed by (auto simp: pg_SavePaste_def)
next
  case (Inr hp)
  obtain h ph where hp: "hp = (h, ph)" by fastforce
  have h: "h = sha256_hex c" using Inr hp by (simp add: pg_hashes_eq sqlite_hashes_Inr)
  show ?thesis
  proof (cases "hash_index db h = None \<or> hash_index db h = Some []")
    case True
    then show ?thesis using assms Inr hp failed original [OF h]
      by (auto simp: pg_SavePaste_def Let_def split: if_splits option.splits dest!: pg_insert_pasteD)
  next
    case False
    then obtain j where "hash_index db h = Some j" "j \<noteq> []" by auto
    then show ?thesis using assms Inr hp failed reference [OF h]
      by (auto simp: pg_SavePaste_def Let_def split: if_splits option.splits dest!: pg_insert_pasteD)
  qed
qed

text \<open>A read leaves the tables alone or marks the paste burned, and then only if it is live.\<close>

lemma pg_read_content_cases:
  assumes "pg_read_content e db db1 i row p = (r, db')"
  obtains (failed) x where "r = Inl x" "db' = db" | (read) c where "r = Inr (c, p)" "db' = db1"
  using assms by (auto simp: pg_read_content_def split: if_splits option.splits)

lemma pg_GetPaste_cases:
  assumes "pg_GetPaste e db i = (r, db')"
  obtains (failed) x where "r = Inl x" "db' = db"
  | (gone) p where "r = Inr ([], p)" "db' = db"
  | (kept) row c p where "burned_pastes db i = None" "pastes db i = Some row"
      "\<not> r_burn_after_read row" "r = Inr (c, p)" "db' = db"
  | (burned) row c p where "burned_pastes db i = None" "pastes db i = Some row"
      "r_burn_after_read row" "r = Inr (c, p)"
      "insert_burned_or_ignore i (pg_time (db_now e)) db = Some (1, db')"
proof (cases "pg_select_live e db i")
  case None
  then show ?thesis using assms failed gone by (auto simp: pg_GetPaste_def split: if_splits)
next
  case (Some row)
  then have row: "pastes db i = Some row" by (auto simp: pg_select_live_def split: option.splits if_splits)
  show ?thesis
  proof (cases "burned_pastes db i")
    case unburned: None
    let ?p = "\<lambda>b. \<lparr>p_id = i, p_expires_at = r_expires_at row, p_burn_after_read = r_burn_after_read row,
      p_size_bytes = r_size_bytes row, p_created_at = r_created_at row, p_is_burned = b\<rparr>"
    consider (a) x where "r = Inl x" "db' = db"
      | (b) "\<not> r_burn_after_read row" "pg_read_content e db db i row (?p False) = (r, db')"
      | (c) db1 where "r_burn_after_read row" "insert_burned_or_ignore i (pg_time (db_now e)) db = Some (1, db1)"
          "pg_read_content e db db1 i row (?p True) = (r, db')"
      using assms Some unburned row
      by (auto simp: pg_GetPaste_def Let_def insert_burned_or_ignore_def split: if_splits)
    then show ?thesis
    proof cases
      case a then show ?thesis by (rule failed)
    next
      case b
      from b(2) show ?thesis by (rule pg_read_content_cases) (use b unburned row kept failed in auto)
    next
      case c
      from c(3) show ?thesis by (rule pg_read_content_cases) (use c unburned row burned failed in auto)
    qed
  qed (use assms failed gone in \<open>auto simp: pg_GetPaste_def split: if_splits\<close>)
qed

subsection \<open>The contract of the interface\<close>

lemma pg_SavePaste_inv [wf_intros]:
  assumes "db_ok db" "pg_SavePaste e db i c x b p = (r, db')"
  shows "db_ok db'"
  using assms(2)
proof (cases rule: pg_SavePaste_cases)
  case failed
  then show ?thesis using assms(1) by simp
next
  case (reference h j row res)
  then show ?thesis using assms(1)
    by (auto intro!: db_ok_insert_paste [OF assms(1) reference(3)] db_ok_hash)
next
  case (original h row db1 res)
  have db1: "db_ok db1"
    using assms(1) original by (auto intro!: db_ok_insert_paste [OF assms(1) original(2)])
  have "original_row db1 i h"
    using original by (auto simp: insert_paste_def original_row_def split: if_splits)
  then show ?thesis using db_ok_insert_hash [OF db1 original(3)] by blast
qed

lemma pg_get_state:
  "pg_GetPaste e db i = (r, db') \<Longrightarrow>
   db' = db \<or> (\<exists>t n. insert_burned_or_ignore i t db = Some (n, db'))"
  by (erule pg_GetPaste_cases) auto

text \<open>In well-formed tables deleting a paste has already taken its burn mark.\<close>

lemma pg_DeletePaste_eq: "db_ok db \<Longrightarrow> pg_DeletePaste e db i = sqlite_DeletePaste e db i"
proof -
  assume "db_ok db"
  then have "burned_pastes (delete_paste i db) i = None"
    using db_ok_burned [of db i] by (cases "burned_pastes db i") (auto simp: delete_paste_def)
  then have "(burned_pastes (delete_paste i db))(i := None) = burned_pastes (delete_paste i db)"
    by (rule fun_upd_idem)
  then show ?thesis by (simp add: pg_DeletePaste_def sqlite_DeletePaste_def Let_def)
qed

lemmas pg_unit_ops = pg_MarkBurned_def pg_BanContentHash_def pg_BanPlaintextHash_def
  sqlite_DeletePaste_def

lemma pg_step_inv: "db_ok db \<Longrightarrow> db_ok (snd (store_step (pg_backend e) x db))"
  by (cases x)
     (auto simp: pg_unit_ops pg_DeletePaste_eq intro: wf_intros
        split: prod.splits option.splits if_splits dest!: pg_get_state)

lemma pg_failed_frame:
  assumes "db_ok db" "out_failed (fst (store_step (pg_backend e) x db))"
  shows "snd (store_step (pg_backend e) x db) = db"
proof (cases x)
  case (OpSave i c n b p)
  then show ?thesis using assms
    by (cases "pg_SavePaste e db i c n b p") (auto elim!: pg_SavePaste_cases)
next
  case (OpGet i)
  then show ?thesis using assms by (cases "pg_GetPaste e db i") (auto elim!: pg_GetPaste_cases)
qed (use assms in \<open>auto simp: pg_unit_ops pg_DeletePaste_eq split: prod.splits option.splits if_splits\<close>)

lemma pg_get_spent:
  "pg_GetPaste e db i = (Inr (c, p), db') \<Longrightarrow> sql_spent db i \<Longrightarrow> c = []"
  by (erule pg_GetPaste_cases) (auto simp: sql_spent_def)

lemma pg_get_pending:
  "pg_GetPaste e db i = (Inr (c, p), db') \<Longrightarrow> sql_pending db i \<Longrightarrow> c \<noteq> [] \<Longrightarrow> sql_spent db' i"
  by (erule pg_GetPaste_cases) (auto simp: sql_pending_def intro: insert_burned_spent)

lemma pg_save_others:
  "pg_SavePaste e db j c x b p = (r, db') \<Longrightarrow> i \<noteq> j \<Longrightarrow>
   sql_pending db' i = sql_pending db i \<and> sql_spent db' i = sql_spent db i"
  by (erule pg_SavePaste_cases) (simp_all add: burn_others)

lemma pg_spent_step:
  assumes "db_ok db" "sql_spent db i" "\<not> saves i x"
  shows "sql_spent (snd (store_step (pg_backend e) x db)) i"
proof (cases x)
  case (OpSave j c n b p)
  then show ?thesis using assms by (auto split: prod.splits dest: pg_save_others)
next
  case (OpGet j)
  then show ?thesis using assms
    by (auto split: prod.splits dest!: pg_get_state intro: insert_burned_keeps_spent)
qed (use assms in \<open>auto simp: pg_unit_ops pg_DeletePaste_eq split: prod.splits option.splits if_splits
        intro: insert_burned_keeps_spent delete_paste_keeps_spent\<close>)

lemma pg_pending_step:
  assumes "db_ok db" "sql_pending db i" "\<not> saves i x"
  shows "sql_pending (snd (store_step (pg_backend e) x db)) i \<or>
    sql_spent (snd (store_step (pg_backend e) x db)) i"
proof (cases x)
  case (OpSave j c n b p)
  then show ?thesis using assms by (auto split: prod.splits dest: pg_save_others)
next
  case (OpGet j)
  then show ?thesis using assms
    by (cases "i = j") (auto split: prod.splits dest!: pg_get_state
      simp: insert_burned_spent insert_burned_others)
next
  case (OpMarkBurned j)
  then show ?thesis using assms
    by (cases "i = j") (auto simp: pg_unit_ops insert_burned_spent insert_burned_others
      split: prod.splits option.splits if_splits)
next
  case (OpDelete j)
  then show ?thesis using assms
    by (cases "i = j") (auto simp: pg_DeletePaste_eq pg_unit_ops delete_paste_spent delete_paste_others)
qed (use assms in \<open>auto simp: pg_unit_ops\<close>)

interpretation postgres: paste_store pg_backend db_ok sql_pending sql_spent
proof
  show "db_ok (snd (store_step (pg_backend e) x db))" if "db_ok db" for db e x
    using that by (rule pg_step_inv)
  show "snd (store_step (pg_backend e) x db) = db"
    if "db_ok db" "out_failed (fst (store_step (pg_backend e) x db))" for db e x
    using that by (rule pg_failed_frame)
  show "\<not> delivers i x (fst (store_step (pg_backend e) x db))" if "sql_spent db i" for db i x e
    using that by (auto elim!: deliversE split: prod.splits dest: pg_get_spent)
  show "sql_spent (snd (store_step (pg_backend e) x db)) i"
    if "db_ok db" "sql_spent db i" "\<not> saves i x" for db i x e
    using that by (rule pg_spent_step)
  show "sql_pending (snd (store_step (pg_backend e) x db)) i \<or>
      sql_spent (snd (store_step (pg_backend e) x db)) i"
    if "db_ok db" "sql_pending db i" "\<not> saves i x" for db i x e
    using that by (rule pg_pending_step)
  show "sql_spent (snd (store_step (pg_backend e) x db)) i"
    if "sql_pending db i" "delivers i x (fst (store_step (pg_backend e) x db))" for db i x e
    using that by (auto elim!: deliversE split: prod.splits dest: pg_get_pending)
qed

subsection \<open>Agreement with the SQLite backend\<close>

text \<open>Operations whose arguments fit the columns of the PostgreSQL schema.\<close>

fun op_fits :: "store_op \<Rightarrow> bool" where
  "op_fits (OpSave i c n b p) = (length i \<le> 43 \<and> int (length c) < 2 ^ 31)"
| "op_fits (OpBanContent h r) = (length h \<le> 64)"
| "op_fits (OpBanPlaintext h r) = (length h \<le> 64)"
| "op_fits _ = True"

definition whole_seconds :: "env \<Rightarrow> bool" where
  "whole_seconds e \<longleftrightarrow> second dvd now e \<and> second dvd db_now e"

definition ids_fit :: "sqldb \<Rightarrow> bool" where
  "ids_fit db \<longleftrightarrow> (\<forall>h i. hash_index db h = Some i \<longrightarrow> length i \<le> 43)"

lemma truncate_to_dvd: "u dvd t \<Longrightarrow> truncate_to u t = t"
  by (simp add: truncate_to_def)

lemma expiry_time_seconds:
  assumes "second dvd t" "\<bar>n\<bar> \<le> 9000000000"
  shows "second dvd expiry_time t n"
  using assms by (simp add: expiry_time_small)

lemma times_agree: "second dvd t \<Longrightarrow> sqlite_time t = t \<and> pg_time t = t"
  by (auto simp: sqlite_time_def pg_time_def truncate_to_dvd second_def microsecond_def
      intro!: truncate_to_dvd dvd_trans [of 1000 1000000000 t])

lemma plaintext_hash_fits: "pg_hashes e db c p = Inr (h, ph) \<Longrightarrow> h = sha256_hex c \<and> length ph \<le> 64"
  by (auto simp: pg_hashes_def plaintext_hash_of_def Let_def pg_isHashBanned_def
      split: if_splits option.splits sum.splits bool.splits json.splits)

lemma pg_save_agrees:
  assumes "whole_seconds e" "ids_fit db" "length i \<le> 43" "int (length c) < 2 ^ 31" "\<bar>n\<bar> \<le> 9000000000"
  shows "pg_SavePaste e db i c n b p = sqlite_SavePaste e db i c n b p"
proof (cases "pg_hashes e db c p")
  case (Inl x)
  then show ?thesis by (simp add: pg_SavePaste_def sqlite_SavePaste_def flip: pg_hashes_eq)
next
  case (Inr hp)
  obtain h ph where hp: "hp = (h, ph)" by fastforce
  have f: "h = sha256_hex c" "length ph \<le> 64" using Inr hp plaintext_hash_fits by blast+
  have t: "pg_time (now e) = sqlite_time (now e)"
    "pg_time (expiry_time (now e) n) = sqlite_time (expiry_time (now e) n)"
    using assms(1,5) times_agree expiry_time_seconds by (simp_all add: whole_seconds_def)
  have fit: "pg_insert_paste i row db' = insert_paste i row db'"
    if "r_content_hash row = h" "r_plaintext_hash row = null_string ph" "r_size_bytes row = int (length c)"
      "r_references_id row = None \<or> (\<exists>j. hash_index db h = Some j \<and> r_references_id row = Some j)"
    for row db'
    using that assms f by (auto simp: pg_insert_paste_def pg_fits_def null_string_def ids_fit_def)
  show ?thesis
  proof (cases "hash_index db h")
    case None
    then show ?thesis using Inr hp
      by (simp add: pg_SavePaste_def sqlite_SavePaste_def t fit Let_def flip: pg_hashes_eq)
  next
    case (Some j)
    then show ?thesis using Inr hp
      by (simp add: pg_SavePaste_def sqlite_SavePaste_def t fit Let_def flip: pg_hashes_eq)
  qed
qed

lemma pg_get_agrees:
  assumes "whole_seconds e" "\<not> fails e QParseExpires" "\<not> fails e QParseCreated" "\<not> fails e QRowsAffected"
  shows "pg_GetPaste e db i = sqlite_GetPaste e db i"
proof -
  have t: "pg_time (db_now e) = sqlite_time (db_now e)"
    using assms(1) times_agree by (simp add: whole_seconds_def)
  have "pg_select_live e db i = sqlite_select_live e db i"
    by (cases "pastes db i") (simp_all add: pg_select_live_def sqlite_select_live_def t)
  moreover have "pg_read_content = sqlite_read_content"
    by (simp add: pg_read_content_def sqlite_read_content_def fun_eq_iff)
  ultimately show ?thesis using assms(2-4)
    by (auto simp: pg_GetPaste_def sqlite_GetPaste_def sqlite_claim_burn_def t Let_def
        split: option.splits)
qed

fun op_bounded :: "store_op \<Rightarrow> bool" where
  "op_bounded (OpSave i c n b p) = (\<bar>n\<bar> \<le> 9000000000)"
| "op_bounded _ = True"

lemma pg_step_agrees:
  assumes "db_ok db" "ids_fit db" "whole_seconds e" "op_fits x" "op_bounded x"
    and "\<not> fails e QParseExpires" "\<not> fails e QParseCreated" "\<not> fails e QRowsAffected"
  shows "store_step (pg_backend e) x db = store_step (sqlite_backend e) x db"
  using assms times_agree [of "db_now e"]
  by (cases x)
     (simp_all add: pg_save_agrees pg_get_agrees pg_DeletePaste_eq pg_MarkBurned_def sqlite_MarkBurned_def
       pg_BanContentHash_def sqlite_BanContentHash_def pg_BanPlaintextHash_def
       sqlite_BanPlaintextHash_def whole_seconds_def)

lemma ids_fit_step:
  assumes "ids_fit db" "op_fits x"
  shows "ids_fit (snd (store_step (sqlite_backend e) x db))"
proof (cases x)
  case (OpSave i c n b p)
  have "ids_fit db'" if "sqlite_SavePaste e db i c n b p = (r, db')" for r db'
    using that
    by (cases rule: sqlite_SavePaste_cases)
       (use assms OpSave in \<open>auto simp: ids_fit_def insert_paste_def insert_hash_or_ignore_def split: if_splits\<close>)
  then show ?thesis using OpSave by (auto split: prod.splits)
next
  case (OpGet i)
  then show ?thesis using assms
    by (auto simp: ids_fit_def insert_burned_or_ignore_def split: prod.splits if_splits dest!: sqlite_get_state)
next
  case (OpDelete i)
  then show ?thesis using assms
    by (auto simp: ids_fit_def sqlite_DeletePaste_def delete_paste_def split: if_splits)
qed (use assms in \<open>auto simp: ids_fit_def sqlite_MarkBurned_def sqlite_BanContentHash_def
      sqlite_BanPlaintextHash_def upsert_ban_def Let_def insert_burned_or_ignore_def
      split: prod.splits option.splits if_splits\<close>)

text \<open>One call on which the two backends are to agree: its clocks read whole seconds, the driver
  calls that only SQLite makes succeed, and its arguments fit the PostgreSQL columns.\<close>

fun portable :: "env \<times> store_op \<Rightarrow> bool" where
  "portable (e, x) \<longleftrightarrow> whole_seconds e \<and> op_fits x \<and> op_bounded x \<and>
     \<not> fails e QParseExpires \<and> \<not> fails e QParseCreated \<and> \<not> fails e QRowsAffected"

lemma pg_run_agrees:
  "db_ok db \<Longrightarrow> ids_fit db \<Longrightarrow> list_all portable xs \<Longrightarrow>
   store_run pg_backend xs db = store_run sqlite_backend xs db"
proof (induction xs arbitrary: db)
  case (Cons a xs)
  obtain e x where a: "a = (e, x)" by fastforce
  have p: "portable (e, x)" "list_all portable xs" using Cons.prems(3) a by simp_all
  have step: "store_step (pg_backend e) x db = store_step (sqlite_backend e) x db"
    using p(1) Cons.prems(1,2) by (intro pg_step_agrees) simp_all
  have "db_ok (snd (store_step (sqlite_backend e) x db))" "ids_fit (snd (store_step (sqlite_backend e) x db))"
    using Cons.prems p by (simp_all add: sqlite_step_inv ids_fit_step)
  then have "store_run pg_backend xs (snd (store_step (sqlite_backend e) x db)) =
      store_run sqlite_backend xs (snd (store_step (sqlite_backend e) x db))"
    using Cons.IH p(2) by blast
  then show ?case
    by (cases "store_step (sqlite_backend e) x db") (simp add: a step)
qed simp

subsection \<open>Properties\<close>

text \<open>C7: The two SQL backends agree. From the same well-formed tables, along any history of
  operations whose clocks read whole seconds and whose arguments fit the column widths of the
  PostgreSQL schema, both give the same answers, the injected driver failures included, and end in
  the same tables.\<close>

theorem postgres_agrees_with_sqlite:
  assumes "db_ok db" "ids_fit db" "list_all portable xs"
  shows "store_run pg_backend xs db = store_run sqlite_backend xs db"
  using assms by (rule pg_run_agrees)

theorem postgres_agrees_with_sqlite_witness:
  "store_run pg_backend [(\<lparr>now = 0, db_now = 0, fails = (\<lambda>q. q = QCommit)\<rparr>, OpSave ''a'' ''QQ=='' 60 True False),
       (\<lparr>now = 0, db_now = 0, fails = (\<lambda>q. False)\<rparr>, OpSave ''a'' ''QQ=='' 60 True False)] empty_db =
   store_run sqlite_backend [(\<lparr>now = 0, db_now = 0, fails = (\<lambda>q. q = QCommit)\<rparr>, OpSave ''a'' ''QQ=='' 60 True False),
       (\<lparr>now = 0, db_now = 0, fails = (\<lambda>q. False)\<rparr>, OpSave ''a'' ''QQ=='' 60 True False)] empty_db"
  by (rule postgres_agrees_with_sqlite [OF db_ok_empty])
     (simp_all add: ids_fit_def empty_db_def whole_seconds_def)

text \<open>Burn-after-read is race-free on PostgreSQL too, on any clocks and with any driver failures.
  After a burn-after-read paste is saved under a fresh identifier, a later history that does not save
  the identifier again delivers its content at most once.\<close>

theorem postgres_burn_once_after_save:
  assumes "db_ok db" "pastes db i = None"
    and "pg_SavePaste e db i c n True p = (Inr res, db')"
    and "list_all (\<lambda>a. \<not> saves i (snd a)) xs"
  shows "deliveries i xs (fst (store_run pg_backend xs db')) \<le> 1"
proof (rule postgres.burn_once [OF _ _ assms(4)])
  show "db_ok db'" using assms(1,3) by (rule pg_SavePaste_inv)
  have "burned_pastes db i = None"
    using db_ok_burned [OF assms(1), of i] assms(2) by (cases "burned_pastes db i") auto
  with assms(3) show "sql_pending db' i \<or> sql_spent db' i"
    by (cases rule: pg_SavePaste_cases)
       (auto simp: sql_pending_def insert_paste_def insert_hash_or_ignore_def split: if_splits)
qed

theorem postgres_burn_once_after_save_witness:
  "\<exists>res db'. pg_SavePaste \<lparr>now = 0, db_now = 0, fails = (\<lambda>q. False)\<rparr> empty_db ''a'' ''QQ=='' 60 True False
       = (Inr res, db') \<and>
     deliveries ''a'' [(\<lparr>now = 1, db_now = 1, fails = (\<lambda>q. False)\<rparr>, OpGet ''a'')]
       (fst (store_run pg_backend [(\<lparr>now = 1, db_now = 1, fails = (\<lambda>q. False)\<rparr>, OpGet ''a'')] db')) \<le> 1"
proof -
  let ?e = "\<lparr>now = 0, db_now = 0, fails = (\<lambda>q. False)\<rparr>"
  have "\<exists>res db'. pg_SavePaste ?e empty_db ''a'' ''QQ=='' 60 True False = (Inr res, db')"
    by (simp add: pg_SavePaste_def pg_hashes_def pg_isHashBanned_def has_ban_def empty_db_def Let_def
        pg_insert_paste_def pg_fits_def null_string_def insert_paste_def insert_hash_or_ignore_def)
  then obtain res db' where s: "pg_SavePaste ?e empty_db ''a'' ''QQ=='' 60 True False = (Inr res, db')"
    by blast
  have e: "pastes empty_db ''a'' = None" by (simp add: empty_db_def)
  have n: "list_all (\<lambda>a. \<not> saves ''a'' (snd a)) [(\<lparr>now = 1, db_now = 1, fails = (\<lambda>q. False)\<rparr>, OpGet ''a'')]"
    by simp
  show ?thesis using s postgres_burn_once_after_save [OF db_ok_empty e s n] by blast
qed

end
