(* ===== verification/Gcs.thy ===== *)
theory Gcs
  imports Storage Strconv
begin

text \<open>
  \<^verbatim>\<open>src/services/storage_gcs.go\<close>: the backend on Cloud Storage. The client library
  (\<^verbatim>\<open>cloud.google.com/go/storage\<close>) is not part of the repository: its calls are the record \<open>bucket\<close> of
  functions, and what the backend relies on are the laws of the locale \<open>object_store\<close>, the documented
  behaviour of objects, generations and preconditions. Every call is one atomic step on the bucket;
  an operation of the backend is a sequence of them, and calls of other requests may come in between.
\<close>

datatype gcs_error =
    ObjectNotExist
  | ApiFailure string \<comment> \<open>any other error, with the text of \<^verbatim>\<open>Error()\<close>\<close>
  | StreamFailure \<comment> \<open>an error while the content is transferred\<close>

record object_attrs =
  oa_generation :: int
  oa_metadata :: "string \<rightharpoonup> string"

text \<open>\<^verbatim>\<open>Attrs\<close>, \<^verbatim>\<open>NewReader\<close> with \<^verbatim>\<open>GenerationMatch\<close> and the reading of the content, \<^verbatim>\<open>NewWriter\<close> with or without
  \<^verbatim>\<open>DoesNotExist\<close> up to \<^verbatim>\<open>Close\<close>, \<^verbatim>\<open>Delete\<close>, and \<^verbatim>\<open>Attrs\<close> of the bucket itself.\<close>

record 'b bucket =
  b_attrs :: "'b \<Rightarrow> string \<Rightarrow> gcs_error + object_attrs"
  b_read :: "'b \<Rightarrow> string \<Rightarrow> int \<Rightarrow> gcs_error + string"
  b_write :: "'b \<Rightarrow> string \<Rightarrow> bool \<Rightarrow> (string \<rightharpoonup> string) \<Rightarrow> string \<Rightarrow> gcs_error option \<times> 'b"
  b_delete :: "'b \<Rightarrow> string \<Rightarrow> gcs_error option \<times> 'b"
  b_bucket_attrs :: "'b \<Rightarrow> gcs_error option"

text \<open>What one operation sees of its surroundings: the bucket calls (which may fail), the clock that decides
  about expiry, and the clock of the time stamps written later.\<close>

record 'b gcs_env =
  ge_bucket :: "'b bucket"
  ge_now :: gotime
  ge_stamp :: gotime

definition meta :: "object_attrs \<Rightarrow> string \<Rightarrow> string" where
  "meta a key = (case oa_metadata a key of None \<Rightarrow> [] | Some v \<Rightarrow> v)"

definition unix_text :: "gotime \<Rightarrow> string" where
  "unix_text t = itoa (t div second)"

subsection \<open>Names of objects\<close>

definition pasteObjectName :: "string \<Rightarrow> string" where "pasteObjectName i = ''pastes/'' @ i"
definition burnObjectName :: "string \<Rightarrow> string" where "burnObjectName i = ''burns/'' @ i"
definition hashIndexObjectName :: "string \<Rightarrow> string" where "hashIndexObjectName h = ''hashes/'' @ h"
definition bannedHashObjectName :: "string \<Rightarrow> string" where
  "bannedHashObjectName h = ''banned-hashes/ciphertext/'' @ h"
definition bannedPlaintextHashObjectName :: "string \<Rightarrow> string" where
  "bannedPlaintextHashObjectName h = ''banned-hashes/plaintext/'' @ h"

lemmas object_names = pasteObjectName_def burnObjectName_def hashIndexObjectName_def
  bannedHashObjectName_def bannedPlaintextHashObjectName_def

lemma object_names_inject [simp]:
  "pasteObjectName i = pasteObjectName j \<longleftrightarrow> i = j" "burnObjectName i = burnObjectName j \<longleftrightarrow> i = j"
  "pasteObjectName i \<noteq> burnObjectName j" "burnObjectName j \<noteq> pasteObjectName i"
  "pasteObjectName i \<noteq> hashIndexObjectName h" "burnObjectName i \<noteq> hashIndexObjectName h"
  "hashIndexObjectName h \<noteq> pasteObjectName i" "hashIndexObjectName h \<noteq> burnObjectName i"
  "pasteObjectName i \<noteq> bannedHashObjectName h"
  "pasteObjectName i \<noteq> bannedPlaintextHashObjectName h"
  by (simp_all add: object_names)

lemma burn_name_banned [simp]:
  "burnObjectName i \<noteq> bannedHashObjectName h" "burnObjectName i \<noteq> bannedPlaintextHashObjectName h"
  by (simp_all add: object_names)

subsection \<open>Saving\<close>

definition exists_object :: "'b bucket \<Rightarrow> 'b \<Rightarrow> string \<Rightarrow> string \<Rightarrow> bool result" where
  "exists_object k b name msg =
     (case b_attrs k b name of
        Inl ObjectNotExist \<Rightarrow> Inr False
      | Inl _ \<Rightarrow> Inl (ErrWrapped msg)
      | Inr _ \<Rightarrow> Inr True)"

definition gcs_isHashBanned :: "'b bucket \<Rightarrow> 'b \<Rightarrow> string \<Rightarrow> bool result" where
  "gcs_isHashBanned k b h = exists_object k b (bannedHashObjectName h) ''failed to check banned status''"

definition gcs_isPlaintextHashBanned :: "'b bucket \<Rightarrow> 'b \<Rightarrow> string \<Rightarrow> bool result" where
  "gcs_isPlaintextHashBanned k b h =
     exists_object k b (bannedPlaintextHashObjectName h) ''failed to check plaintext banned status''"

definition findByContentHash :: "'b bucket \<Rightarrow> 'b \<Rightarrow> string \<Rightarrow> string result" where
  "findByContentHash k b h =
     (case b_attrs k b (hashIndexObjectName h) of
        Inl ObjectNotExist \<Rightarrow> Inr []
      | Inl _ \<Rightarrow> Inl (ErrWrapped ''failed to check hash index'')
      | Inr a \<Rightarrow> Inr (meta a ''paste-id''))"

definition createHashIndex :: "'b gcs_env \<Rightarrow> 'b \<Rightarrow> string \<Rightarrow> string \<Rightarrow> gcs_error option \<times> 'b" where
  "createHashIndex e b h i =
     b_write (ge_bucket e) b (hashIndexObjectName h) False
       [''paste-id'' \<mapsto> i, ''created-at'' \<mapsto> unix_text (ge_stamp e)] []"

text \<open>The two hashes, or the refusal.\<close>

definition gcs_hashes :: "'b bucket \<Rightarrow> 'b \<Rightarrow> string \<Rightarrow> bool \<Rightarrow> (string \<times> string) result" where
  "gcs_hashes k b c plain =
     (case (if plain then
              (case b64_decode StdEncoding c of
                 None \<Rightarrow> Inl (ErrWrapped ''failed to decode plaintext content'')
               | Some d \<Rightarrow>
                   (let ph = plaintext_hash_of d in
                    if ph \<noteq> [] then
                      (case gcs_isPlaintextHashBanned k b ph of
                         Inl x \<Rightarrow> Inl x
                       | Inr True \<Rightarrow> Inl ErrBannedContent
                       | Inr False \<Rightarrow> Inr ph)
                    else Inr ph))
            else Inr []) of
        Inl x \<Rightarrow> Inl x
      | Inr ph \<Rightarrow>
          (case gcs_isHashBanned k b (sha256_hex c) of
             Inl x \<Rightarrow> Inl x
           | Inr True \<Rightarrow> Inl ErrBannedContent
           | Inr False \<Rightarrow> Inr (sha256_hex c, ph)))"

definition paste_metadata ::
  "string \<Rightarrow> gotime \<Rightarrow> bool \<Rightarrow> nat \<Rightarrow> gotime \<Rightarrow> string \<Rightarrow> bool \<Rightarrow> string \<Rightarrow> (string \<rightharpoonup> string)" where
  "paste_metadata i x burn n t h plain ph =
     [''bincrypt-id'' \<mapsto> i, ''bincrypt-expires-at'' \<mapsto> unix_text x,
      ''bincrypt-burn-after-read'' \<mapsto> format_bool burn, ''bincrypt-size-bytes'' \<mapsto> itoa (int n),
      ''bincrypt-created-at'' \<mapsto> unix_text t, ''bincrypt-is-burned'' \<mapsto> ''false'',
      ''bincrypt-content-hash'' \<mapsto> h, ''bincrypt-is-plaintext'' \<mapsto> format_bool plain,
      ''bincrypt-plaintext-hash'' \<mapsto> ph]"

definition createReferencePaste ::
  "'b gcs_env \<Rightarrow> 'b \<Rightarrow> string \<Rightarrow> string \<Rightarrow> (string \<rightharpoonup> string) \<Rightarrow> paste \<Rightarrow> paste result \<times> 'b" where
  "createReferencePaste e b i ref m p =
     (case b_write (ge_bucket e) b (pasteObjectName i) False (m(''bincrypt-references'' \<mapsto> ref)) [] of
        (Some _, b1) \<Rightarrow> (Inl (ErrWrapped ''failed to create reference paste''), b1)
      | (None, b1) \<Rightarrow> (Inr p, b1))"

definition gcs_SavePaste ::
  "'b gcs_env \<Rightarrow> 'b \<Rightarrow> string \<Rightarrow> string \<Rightarrow> int \<Rightarrow> bool \<Rightarrow> bool \<Rightarrow> save_paste_result result \<times> 'b" where
  "gcs_SavePaste e b i c n burn plain =
     (let k = ge_bucket e; t = ge_now e in
      case gcs_hashes k b c plain of
        Inl x \<Rightarrow> (Inl x, b)
      | Inr (h, ph) \<Rightarrow>
          (case findByContentHash k b h of
             Inl x \<Rightarrow> (Inl (ErrWrapped ''failed to check for existing content''), b)
           | Inr existing \<Rightarrow>
               (let x = expiry_time t n;
                    p = \<lparr>p_id = i, p_expires_at = x, p_burn_after_read = burn, p_size_bytes = int (length c),
                         p_created_at = t, p_is_burned = False\<rparr>;
                    m = paste_metadata i x burn (length c) t h plain ph
                in if existing \<noteq> [] then
                     (case createReferencePaste e b i existing m p of
                        (Inl err, b1) \<Rightarrow> (Inl err, b1)
                      | (Inr q, b1) \<Rightarrow>
                          (Inr \<lparr>sr_paste = q, sr_was_deduplicated = True, sr_references_id = existing,
                                sr_content_hash = h\<rparr>, b1))
                   else
                     (case b_write k b (pasteObjectName i) False m c of
                        (Some StreamFailure, b1) \<Rightarrow> (Inl (ErrWrapped ''failed to write paste''), b1)
                      | (Some _, b1) \<Rightarrow> (Inl (ErrWrapped ''failed to save paste''), b1)
                      | (None, b1) \<Rightarrow>
                          (Inr \<lparr>sr_paste = p, sr_was_deduplicated = False, sr_references_id = [],
                                sr_content_hash = h\<rparr>, snd (createHashIndex e b1 h i))))))"

subsection \<open>Reading\<close>

definition paste_of_attrs :: "string \<Rightarrow> object_attrs \<Rightarrow> paste" where
  "paste_of_attrs i a =
     \<lparr>p_id = i,
      p_expires_at = (case atoi (meta a ''bincrypt-expires-at'') of Some n \<Rightarrow> n * second | None \<Rightarrow> zero_time),
      p_burn_after_read = (meta a ''bincrypt-burn-after-read'' = ''true''),
      p_size_bytes = (case atoi (meta a ''bincrypt-size-bytes'') of Some n \<Rightarrow> n | None \<Rightarrow> 0),
      p_created_at = (case atoi (meta a ''bincrypt-created-at'') of Some n \<Rightarrow> n * second | None \<Rightarrow> zero_time),
      p_is_burned = False\<rparr>"

text \<open>Where a call of \<^verbatim>\<open>GetPaste\<close> stands between two calls of the library: the object whose content it is
  about, that object's attributes, and the paste parsed so far.\<close>

datatype get_pc =
    G_attrs
  | G_burn object_attrs
  | G_ref string paste
  | G_expiry string object_attrs paste
  | G_drop string
  | G_drop_marker
  | G_claim string object_attrs paste
  | G_read string object_attrs paste
  | G_done "(string \<times> paste) result"

definition precondition_texts :: "string list" where
  "precondition_texts = [''googleapi: Error 412: Precondition Failed'',
     ''googleapi: Error 412: At least one of the pre-conditions you specified did not hold., conditionNotMet'']"

definition claim_failure :: "string \<Rightarrow> gcs_error \<Rightarrow> (string \<times> paste) result" where
  "claim_failure i x =
     (case x of
        StreamFailure \<Rightarrow> Inl (ErrWrapped ''failed to write burn marker'')
      | ApiFailure m \<Rightarrow>
          if m \<in> set precondition_texts then Inr ([], burned_paste i)
          else Inl (ErrWrapped ''failed to create burn marker'')
      | ObjectNotExist \<Rightarrow> Inl (ErrWrapped ''failed to create burn marker''))"

definition read_result :: "gcs_error + string \<Rightarrow> paste \<Rightarrow> (string \<times> paste) result" where
  "read_result r p =
     (case r of
        Inl ObjectNotExist \<Rightarrow> Inl ErrNotFound
      | Inl StreamFailure \<Rightarrow> Inl (ErrWrapped ''failed to read paste content'')
      | Inl (ApiFailure m) \<Rightarrow> Inl (ErrWrapped ''failed to read paste'')
      | Inr c \<Rightarrow> Inr (c, if p_size_bytes p = 0 then p\<lparr>p_size_bytes := int (length c)\<rparr> else p))"

definition marker_metadata :: "'b gcs_env \<Rightarrow> string \<Rightarrow> (string \<rightharpoonup> string)" where
  "marker_metadata e i = [''burned-at'' \<mapsto> unix_text (ge_stamp e), ''paste-id'' \<mapsto> i]"

text \<open>One step: at most one call of the library.\<close>

fun get_step :: "'b gcs_env \<Rightarrow> string \<Rightarrow> get_pc \<Rightarrow> 'b \<Rightarrow> get_pc \<times> 'b" where
  "get_step e i G_attrs b =
     (case b_attrs (ge_bucket e) b (pasteObjectName i) of
        Inl ObjectNotExist \<Rightarrow> (G_done (Inl ErrNotFound), b)
      | Inl _ \<Rightarrow> (G_done (Inl (ErrWrapped ''failed to get paste attributes'')), b)
      | Inr a \<Rightarrow> (G_burn a, b))"
| "get_step e i (G_burn a) b =
     (case b_attrs (ge_bucket e) b (burnObjectName i) of
        Inr _ \<Rightarrow> (G_done (Inr ([], burned_paste i)), b)
      | Inl _ \<Rightarrow>
          (let ref = meta a ''bincrypt-references'' in
           if ref \<noteq> [] then (G_ref (pasteObjectName ref) (paste_of_attrs i a), b)
           else (G_expiry (pasteObjectName i) a (paste_of_attrs i a), b)))"
| "get_step e i (G_ref name p) b =
     (case b_attrs (ge_bucket e) b name of
        Inl _ \<Rightarrow> (G_done (Inl (ErrWrapped ''referenced content not found'')), b)
      | Inr a \<Rightarrow> (G_expiry name a p, b))"
| "get_step e i (G_expiry name a p) b =
     (if p_expires_at p \<noteq> zero_time \<and> ge_now e > p_expires_at p then (G_drop name, b)
      else if p_burn_after_read p then (G_claim name a p, b)
      else (G_read name a p, b))"
| "get_step e i (G_drop name) b = (G_drop_marker, snd (b_delete (ge_bucket e) b name))"
| "get_step e i G_drop_marker b =
     (G_done (Inl ErrNotFound), snd (b_delete (ge_bucket e) b (burnObjectName i)))"
| "get_step e i (G_claim name a p) b =
     (case b_write (ge_bucket e) b (burnObjectName i) True (marker_metadata e i) (format_rfc3339 (ge_stamp e)) of
        (None, b1) \<Rightarrow> (G_read name a (p\<lparr>p_is_burned := True\<rparr>), b1)
      | (Some x, b1) \<Rightarrow> (G_done (claim_failure i x), b1))"
| "get_step e i (G_read name a p) b =
     (G_done (read_result (b_read (ge_bucket e) b name (oa_generation a)) p), b)"
| "get_step e i (G_done r) b = (G_done r, b)"

text \<open>The whole call, when no other call comes in between.\<close>

definition gcs_GetPaste :: "'b gcs_env \<Rightarrow> 'b \<Rightarrow> string \<Rightarrow> (string \<times> paste) result \<times> 'b" where
  "gcs_GetPaste e b i =
     (let k = ge_bucket e in
      case b_attrs k b (pasteObjectName i) of
        Inl ObjectNotExist \<Rightarrow> (Inl ErrNotFound, b)
      | Inl _ \<Rightarrow> (Inl (ErrWrapped ''failed to get paste attributes''), b)
      | Inr a0 \<Rightarrow>
          (case b_attrs k b (burnObjectName i) of
             Inr _ \<Rightarrow> (Inr ([], burned_paste i), b)
           | Inl _ \<Rightarrow>
               (let p = paste_of_attrs i a0; ref = meta a0 ''bincrypt-references'' in
                case (if ref \<noteq> [] then map_sum id (Pair (pasteObjectName ref)) (b_attrs k b (pasteObjectName ref))
                      else Inr (pasteObjectName i, a0)) of
                  Inl _ \<Rightarrow> (Inl (ErrWrapped ''referenced content not found''), b)
                | Inr (name, a) \<Rightarrow>
                    if p_expires_at p \<noteq> zero_time \<and> ge_now e > p_expires_at p
                    then (Inl ErrNotFound, snd (b_delete k (snd (b_delete k b name)) (burnObjectName i)))
                    else if p_burn_after_read p
                    then (case b_write k b (burnObjectName i) True (marker_metadata e i) (format_rfc3339 (ge_stamp e)) of
                            (Some x, b1) \<Rightarrow> (claim_failure i x, b1)
                          | (None, b1) \<Rightarrow>
                              (read_result (b_read k b1 name (oa_generation a)) (p\<lparr>p_is_burned := True\<rparr>), b1))
                    else (read_result (b_read k b name (oa_generation a)) p, b))))"

subsection \<open>The other operations\<close>

datatype mark_pc = M_attrs | M_write | M_done "unit result"

fun mark_step :: "'b gcs_env \<Rightarrow> string \<Rightarrow> mark_pc \<Rightarrow> 'b \<Rightarrow> mark_pc \<times> 'b" where
  "mark_step e i M_attrs b =
     (case b_attrs (ge_bucket e) b (burnObjectName i) of Inr _ \<Rightarrow> (M_done (Inr ()), b) | Inl _ \<Rightarrow> (M_write, b))"
| "mark_step e i M_write b =
     (case b_write (ge_bucket e) b (burnObjectName i) False (marker_metadata e i) [] of
        (Some _, b1) \<Rightarrow> (M_done (Inl (ErrWrapped ''failed to mark paste as burned'')), b1)
      | (None, b1) \<Rightarrow> (M_done (Inr ()), b1))"
| "mark_step e i (M_done r) b = (M_done r, b)"

definition gcs_MarkBurned :: "'b gcs_env \<Rightarrow> 'b \<Rightarrow> string \<Rightarrow> unit result \<times> 'b" where
  "gcs_MarkBurned e b i =
     (case b_attrs (ge_bucket e) b (burnObjectName i) of
        Inr _ \<Rightarrow> (Inr (), b)
      | Inl _ \<Rightarrow>
          (case b_write (ge_bucket e) b (burnObjectName i) False (marker_metadata e i) [] of
             (Some _, b1) \<Rightarrow> (Inl (ErrWrapped ''failed to mark paste as burned''), b1)
           | (None, b1) \<Rightarrow> (Inr (), b1)))"

datatype delete_pc = D_object | D_marker | D_done "unit result"

fun delete_step :: "'b gcs_env \<Rightarrow> string \<Rightarrow> delete_pc \<Rightarrow> 'b \<Rightarrow> delete_pc \<times> 'b" where
  "delete_step e i D_object b =
     (case b_delete (ge_bucket e) b (pasteObjectName i) of
        (None, b1) \<Rightarrow> (D_marker, b1)
      | (Some ObjectNotExist, b1) \<Rightarrow> (D_marker, b1)
      | (Some _, b1) \<Rightarrow> (D_done (Inl (ErrWrapped [])), b1))"
| "delete_step e i D_marker b = (D_done (Inr ()), snd (b_delete (ge_bucket e) b (burnObjectName i)))"
| "delete_step e i (D_done r) b = (D_done r, b)"

definition gcs_DeletePaste :: "'b gcs_env \<Rightarrow> 'b \<Rightarrow> string \<Rightarrow> unit result \<times> 'b" where
  "gcs_DeletePaste e b i =
     (case b_delete (ge_bucket e) b (pasteObjectName i) of
        (Some (ApiFailure _), b1) \<Rightarrow> (Inl (ErrWrapped []), b1)
      | (Some StreamFailure, b1) \<Rightarrow> (Inl (ErrWrapped []), b1)
      | (_, b1) \<Rightarrow> (Inr (), snd (b_delete (ge_bucket e) b1 (burnObjectName i))))"

definition gcs_ban :: "'b gcs_env \<Rightarrow> 'b \<Rightarrow> string \<Rightarrow> string \<Rightarrow> string \<Rightarrow> string \<Rightarrow> unit result \<times> 'b" where
  "gcs_ban e b name reason ty msg =
     (case b_write (ge_bucket e) b name False
             [''banned-at'' \<mapsto> unix_text (ge_stamp e), ''reason'' \<mapsto> reason, ''type'' \<mapsto> ty] [] of
        (Some _, b1) \<Rightarrow> (Inl (ErrWrapped msg), b1)
      | (None, b1) \<Rightarrow> (Inr (), b1))"

definition gcs_BanContentHash :: "'b gcs_env \<Rightarrow> 'b \<Rightarrow> string \<Rightarrow> string \<Rightarrow> unit result \<times> 'b" where
  "gcs_BanContentHash e b h reason =
     gcs_ban e b (bannedHashObjectName h) reason ''ciphertext'' ''failed to ban hash''"

definition gcs_BanPlaintextHash :: "'b gcs_env \<Rightarrow> 'b \<Rightarrow> string \<Rightarrow> string \<Rightarrow> unit result \<times> 'b" where
  "gcs_BanPlaintextHash e b h reason =
     gcs_ban e b (bannedPlaintextHashObjectName h) reason ''plaintext'' ''failed to ban plaintext hash''"

definition gcs_Ping :: "'b gcs_env \<Rightarrow> 'b \<Rightarrow> unit result" where
  "gcs_Ping e b = (case b_bucket_attrs (ge_bucket e) b of None \<Rightarrow> Inr () | Some _ \<Rightarrow> Inl (ErrWrapped []))"

definition gcs_Close :: "'b gcs_env \<Rightarrow> 'b \<Rightarrow> unit result" where
  "gcs_Close e b = Inr ()"

definition gcs_backend :: "'b gcs_env \<Rightarrow> 'b backend" where
  "gcs_backend e = \<lparr>SavePaste = gcs_SavePaste e, GetPaste = gcs_GetPaste e, MarkBurned = gcs_MarkBurned e,
     DeletePaste = gcs_DeletePaste e, BanContentHash = gcs_BanContentHash e,
     BanPlaintextHash = gcs_BanPlaintextHash e, Ping = gcs_Ping e, Close = gcs_Close e\<rparr>"

subsection \<open>The steps make up the operations\<close>

text \<open>Running the steps of one call without interruption.\<close>

fun get_run :: "nat \<Rightarrow> 'b gcs_env \<Rightarrow> string \<Rightarrow> get_pc \<times> 'b \<Rightarrow> get_pc \<times> 'b" where
  "get_run 0 e i s = s"
| "get_run (Suc n) e i s = get_run n e i (get_step e i (fst s) (snd s))"

lemma get_run_done [simp]: "get_run n e i (G_done r, b) = (G_done r, b)"
  by (induction n) simp_all

lemma gcs_get_steps: "get_run 7 e i (G_attrs, b) = (G_done (fst (gcs_GetPaste e b i)), snd (gcs_GetPaste e b i))"
  by (simp add: eval_nat_numeral gcs_GetPaste_def Let_def split: sum.split gcs_error.split prod.split option.split)

lemma gcs_mark_steps:
  "(case mark_step e i M_attrs b of (pc, b1) \<Rightarrow> mark_step e i pc b1) =
     (M_done (fst (gcs_MarkBurned e b i)), snd (gcs_MarkBurned e b i))"
  by (simp add: gcs_MarkBurned_def split: sum.split prod.split option.split)

lemma gcs_delete_steps:
  "(case delete_step e i D_object b of (pc, b1) \<Rightarrow> delete_step e i pc b1) =
     (D_done (fst (gcs_DeletePaste e b i)), snd (gcs_DeletePaste e b i))"
  by (simp add: gcs_DeletePaste_def split: prod.split option.split gcs_error.split)

end
