(* ===== verification/GcsBurn.thy ===== *)
theory GcsBurn
  imports Gcs
begin

text \<open>
  Concurrent requests on the Cloud Storage backend: any number of calls of \<^verbatim>\<open>GetPaste\<close>, \<^verbatim>\<open>DeletePaste\<close>
  and \<^verbatim>\<open>MarkBurned\<close> in progress at once, interleaved library call by library call with each other
  and with the writes of all other operations. The theory states what the backend relies on and
  shows when a burn-after-read paste is delivered at most once, and when it is not.
\<close>

subsection \<open>What the object store promises\<close>

record gcs_object =
  go_generation :: int
  go_metadata :: "string \<rightharpoonup> string"
  go_data :: string

text \<open>
  \<open>view\<close> is what the bucket holds and \<open>latest\<close> the newest generation it has handed out. A call that
  reports an error may still have taken effect, as when its answer is lost; but a write that
  requires the object not to exist never takes effect when it does.
\<close>

definition written :: "('b \<Rightarrow> string \<rightharpoonup> gcs_object) \<Rightarrow> ('b \<Rightarrow> int) \<Rightarrow> 'b \<Rightarrow> string \<Rightarrow> (string \<rightharpoonup> string) \<Rightarrow> string \<Rightarrow> 'b \<Rightarrow> bool" where
  "written view latest b n m c b' \<longleftrightarrow> latest b < latest b' \<and>
     view b' = (view b)(n \<mapsto> \<lparr>go_generation = latest b', go_metadata = m, go_data = c\<rparr>)"

locale object_store =
  fixes k :: "'b bucket" and view :: "'b \<Rightarrow> string \<rightharpoonup> gcs_object" and latest :: "'b \<Rightarrow> int"
  assumes attrs_found: "b_attrs k b n = Inr a \<Longrightarrow>
      \<exists>x. view b n = Some x \<and> oa_generation a = go_generation x \<and> oa_metadata a = go_metadata x"
    and attrs_absent: "b_attrs k b n = Inl ObjectNotExist \<Longrightarrow> view b n = None"
    and read_found: "b_read k b n g = Inr c \<Longrightarrow> \<exists>x. view b n = Some x \<and> go_generation x = g \<and> go_data x = c"
    and write_done: "b_write k b n cond m c = (None, b') \<Longrightarrow>
      written view latest b n m c b' \<and> (cond \<longrightarrow> view b n = None)"
    and write_failed: "b_write k b n cond m c = (Some err, b') \<Longrightarrow>
      (view b' = view b \<and> latest b' = latest b) \<or> (written view latest b n m c b' \<and> (cond \<longrightarrow> view b n = None))"
    and delete_effect: "b_delete k b n = (r, b') \<Longrightarrow>
      latest b' = latest b \<and> (view b' = view b \<or> view b' = (view b)(n := None))"
    and delete_done: "b_delete k b n = (r, b') \<Longrightarrow> r = None \<or> r = Some ObjectNotExist \<Longrightarrow> view b' n = None"
    and generations: "view b n = Some x \<Longrightarrow> go_generation x \<le> latest b"
begin

lemma write_view:
  assumes "b_write k b n cond m c = (r, b')" "n' \<noteq> n"
  shows "view b' n' = view b n' \<and> latest b \<le> latest b'"
  using write_done [of b n cond m c b'] write_failed [of b n cond m c _ b'] assms
  by (cases r) (auto simp: written_def)

lemma delete_view:
  assumes "b_delete k b n = (r, b')" "n' \<noteq> n"
  shows "view b' n' = view b n' \<and> latest b' = latest b"
  using delete_effect [OF assms(1)] assms(2) by auto

lemma delete_gone: "b_delete k b n = (r, b') \<Longrightarrow> view b n = None \<Longrightarrow> view b' n = None"
  using delete_effect [of b n r b'] by auto

end

subsection \<open>A bucket in memory\<close>

text \<open>An implementation of the calls with the documented behaviour, in which any call can be made to fail.\<close>

record mem_store =
  ms_objects :: "string \<rightharpoonup> gcs_object"
  ms_latest :: int

datatype gcs_call = CallAttrs string | CallRead string | CallWrite string | CallDelete string

definition mem_view :: "mem_store \<Rightarrow> string \<rightharpoonup> gcs_object" where
  "mem_view b n = (case ms_objects b n of Some x \<Rightarrow> if go_generation x \<le> ms_latest b then Some x else None | None \<Rightarrow> None)"

definition mem_put :: "mem_store \<Rightarrow> string \<Rightarrow> (string \<rightharpoonup> string) \<Rightarrow> string \<Rightarrow> mem_store" where
  "mem_put b n m c =
     \<lparr>ms_objects = (mem_view b)(n \<mapsto> \<lparr>go_generation = ms_latest b + 1, go_metadata = m, go_data = c\<rparr>),
      ms_latest = ms_latest b + 1\<rparr>"

definition mem_drop :: "mem_store \<Rightarrow> string \<Rightarrow> mem_store" where
  "mem_drop b n = \<lparr>ms_objects = (mem_view b)(n := None), ms_latest = ms_latest b\<rparr>"

definition mem_bucket :: "(gcs_call \<Rightarrow> gcs_error option) \<Rightarrow> mem_store bucket" where
  "mem_bucket fail =
     \<lparr>b_attrs = (\<lambda>b n. case fail (CallAttrs n) of
          Some x \<Rightarrow> Inl (ApiFailure ''unavailable'')
        | None \<Rightarrow> (case mem_view b n of None \<Rightarrow> Inl ObjectNotExist
            | Some x \<Rightarrow> Inr \<lparr>oa_generation = go_generation x, oa_metadata = go_metadata x\<rparr>)),
      b_read = (\<lambda>b n g. case fail (CallRead n) of
          Some x \<Rightarrow> Inl x
        | None \<Rightarrow> (case mem_view b n of None \<Rightarrow> Inl ObjectNotExist
            | Some x \<Rightarrow> if go_generation x = g then Inr (go_data x) else Inl (ApiFailure (precondition_texts ! 1)))),
      b_write = (\<lambda>b n cond m c. case fail (CallWrite n) of
          Some x \<Rightarrow> (Some x, b)
        | None \<Rightarrow> if cond \<and> mem_view b n \<noteq> None then (Some (ApiFailure (precondition_texts ! 1)), b)
                  else (None, mem_put b n m c)),
      b_delete = (\<lambda>b n. case fail (CallDelete n) of
          Some x \<Rightarrow> (Some (ApiFailure ''unavailable''), b)
        | None \<Rightarrow> if mem_view b n = None then (Some ObjectNotExist, b)
                  else (None, mem_drop b n)),
      b_bucket_attrs = (\<lambda>b. fail (CallAttrs []))\<rparr>"

lemma mem_view_put: "mem_view (mem_put b n m c) =
    (mem_view b)(n \<mapsto> \<lparr>go_generation = ms_latest b + 1, go_metadata = m, go_data = c\<rparr>)"
  by (auto simp: mem_view_def mem_put_def fun_eq_iff split: option.splits)

lemma mem_view_drop: "mem_view (mem_drop b n) = (mem_view b)(n := None)"
  by (auto simp: mem_view_def mem_drop_def fun_eq_iff split: option.splits)

lemma mem_latest: "ms_latest (mem_put b n m c) = ms_latest b + 1" "ms_latest (mem_drop b n) = ms_latest b"
  by (simp_all add: mem_put_def mem_drop_def)

interpretation memory_bucket: object_store "mem_bucket fail" mem_view ms_latest
proof unfold_locales
  fix b n x assume "mem_view b n = Some x"
  then show "go_generation x \<le> ms_latest b"
    by (auto simp: mem_view_def split: option.splits if_splits)
qed (auto simp: mem_bucket_def written_def mem_view_put mem_view_drop mem_latest
    split: option.splits if_splits)

subsection \<open>Requests in progress\<close>

datatype gcs_thread = TGet string get_pc | TDelete string delete_pc | TMark string mark_pc

record 'b gcs_system =
  sys_bucket :: 'b
  sys_threads :: "gcs_thread list"

datatype 'b gcs_event =
    StartGet string
  | StartDelete string
  | StartMark string
  | Continue "'b gcs_env" nat
  | OtherWrite "'b gcs_env" string bool "string \<rightharpoonup> string" string

fun thread_step :: "'b gcs_env \<Rightarrow> gcs_thread \<Rightarrow> 'b \<Rightarrow> gcs_thread \<times> 'b" where
  "thread_step e (TGet i pc) b = (case get_step e i pc b of (pc', b') \<Rightarrow> (TGet i pc', b'))"
| "thread_step e (TDelete i pc) b = (case delete_step e i pc b of (pc', b') \<Rightarrow> (TDelete i pc', b'))"
| "thread_step e (TMark i pc) b = (case mark_step e i pc b of (pc', b') \<Rightarrow> (TMark i pc', b'))"

fun gcs_event_step :: "'b gcs_event \<Rightarrow> 'b gcs_system \<Rightarrow> 'b gcs_system" where
  "gcs_event_step (StartGet i) s = s\<lparr>sys_threads := sys_threads s @ [TGet i G_attrs]\<rparr>"
| "gcs_event_step (StartDelete i) s = s\<lparr>sys_threads := sys_threads s @ [TDelete i D_object]\<rparr>"
| "gcs_event_step (StartMark i) s = s\<lparr>sys_threads := sys_threads s @ [TMark i M_attrs]\<rparr>"
| "gcs_event_step (Continue e j) s =
     (if j < length (sys_threads s) then
        (case thread_step e (sys_threads s ! j) (sys_bucket s) of
           (t, b) \<Rightarrow> \<lparr>sys_bucket = b, sys_threads = (sys_threads s)[j := t]\<rparr>)
      else s)"
| "gcs_event_step (OtherWrite e n cond m c) s =
     s\<lparr>sys_bucket := snd (b_write (ge_bucket e) (sys_bucket s) n cond m c)\<rparr>"

fun gcs_run :: "'b gcs_event list \<Rightarrow> 'b gcs_system \<Rightarrow> 'b gcs_system" where
  "gcs_run [] s = s"
| "gcs_run (x # xs) s = gcs_run xs (gcs_event_step x s)"

text \<open>A call that has returned the content of a burn-after-read paste, and one that is about to read it.\<close>

fun delivered :: "string \<Rightarrow> gcs_thread \<Rightarrow> bool" where
  "delivered i (TGet j (G_done (Inr (c, p)))) = (j = i \<and> p_burn_after_read p)"
| "delivered i _ = False"

fun holding :: "string \<Rightarrow> gcs_thread \<Rightarrow> bool" where
  "holding i (TGet j (G_read n a p)) = (j = i)"
| "holding i _ = False"

definition number :: "('a \<Rightarrow> bool) \<Rightarrow> 'a list \<Rightarrow> nat" where
  "number P xs = length (filter P xs)"

lemma number_append [simp]: "number P (xs @ ys) = number P xs + number P ys"
  by (simp add: number_def)

lemma number_single [simp]: "number P [] = 0" "number P [x] = (if P x then 1 else 0)"
  by (simp_all add: number_def)

lemma number_update:
  "j < length xs \<Longrightarrow> number P (xs[j := y]) + (if P (xs ! j) then 1 else 0) = number P xs + (if P y then 1 else 0)"
proof (induction xs arbitrary: j)
  case (Cons x xs)
  then show ?case by (cases j) (auto simp: number_def)
qed simp

subsection \<open>The invariant\<close>

text \<open>What a call about paste \<open>i\<close>, stored as the object \<open>x\<close>, may hold on to; \<open>gone\<close> tells that the object
  has been deleted.\<close>

definition attrs_of :: "gcs_object \<Rightarrow> object_attrs" where
  "attrs_of x = \<lparr>oa_generation = go_generation x, oa_metadata = go_metadata x\<rparr>"

fun get_pc_ok :: "string \<Rightarrow> gcs_object \<Rightarrow> get_pc \<Rightarrow> bool" where
  "get_pc_ok i x G_attrs = True"
| "get_pc_ok i x (G_burn a) = (a = attrs_of x)"
| "get_pc_ok i x (G_ref n p) = False"
| "get_pc_ok i x (G_expiry n a p) = (n = pasteObjectName i \<and> a = attrs_of x \<and> p = paste_of_attrs i a)"
| "get_pc_ok i x (G_drop n) = False"
| "get_pc_ok i x G_drop_marker = False"
| "get_pc_ok i x (G_claim n a p) = (n = pasteObjectName i \<and> a = attrs_of x)"
| "get_pc_ok i x (G_read n a p) = (n = pasteObjectName i \<and> a = attrs_of x)"
| "get_pc_ok i x (G_done r) = True"

text \<open>Every call works on objects of pastes.\<close>

fun pc_object :: "get_pc \<Rightarrow> string option" where
  "pc_object (G_ref n p) = Some n"
| "pc_object (G_expiry n a p) = Some n"
| "pc_object (G_drop n) = Some n"
| "pc_object (G_claim n a p) = Some n"
| "pc_object (G_read n a p) = Some n"
| "pc_object _ = None"

definition about_paste :: "get_pc \<Rightarrow> bool" where
  "about_paste pc \<longleftrightarrow> (case pc_object pc of None \<Rightarrow> True | Some n \<Rightarrow> \<exists>j. n = pasteObjectName j)"

fun thread_ok :: "string \<Rightarrow> gcs_object \<Rightarrow> bool \<Rightarrow> gcs_thread \<Rightarrow> bool" where
  "thread_ok i x gone (TGet j pc) = (about_paste pc \<and> (j = i \<longrightarrow> get_pc_ok i x pc))"
| "thread_ok i x gone (TDelete j pc) = (j = i \<longrightarrow> pc = D_marker \<longrightarrow> gone)"
| "thread_ok i x gone (TMark j pc) = True"

definition burn_inv ::
  "('b \<Rightarrow> string \<rightharpoonup> gcs_object) \<Rightarrow> ('b \<Rightarrow> int) \<Rightarrow> string \<Rightarrow> gcs_object \<Rightarrow> 'b gcs_system \<Rightarrow> bool" where
  "burn_inv view latest i x s \<longleftrightarrow>
     (let ob = view (sys_bucket s) (pasteObjectName i); mk = view (sys_bucket s) (burnObjectName i);
          h = number (holding i) (sys_threads s); d = number (delivered i) (sys_threads s)
      in (ob = None \<or> ob = Some x) \<and> go_generation x \<le> latest (sys_bucket s) \<and>
         list_all (thread_ok i x (ob = None)) (sys_threads s) \<and> d \<le> 1 \<and>
         (ob \<noteq> None \<longrightarrow> h + d \<le> (if mk = None then 0 else 1)))"

lemma thread_ok_mono: "thread_ok i x g t \<Longrightarrow> (g \<Longrightarrow> g') \<Longrightarrow> thread_ok i x g' t"
  by (cases t) auto

lemma list_all_update: "list_all P xs \<Longrightarrow> P y \<Longrightarrow> list_all P (xs[j := y])"
  by (auto simp: list_all_iff dest: set_update_subset_insert [THEN subsetD])

text \<open>A paste whose object is like this burns after reading and carries its own content.\<close>

definition burning_object :: "gcs_object \<Rightarrow> bool" where
  "burning_object x \<longleftrightarrow> meta (attrs_of x) ''bincrypt-burn-after-read'' = ''true'' \<and>
     meta (attrs_of x) ''bincrypt-references'' = []"

lemma burning_paste: "burning_object x \<Longrightarrow> p_burn_after_read (paste_of_attrs i (attrs_of x))"
  by (simp add: burning_object_def paste_of_attrs_def)

text \<open>The effect of one step of a thread on the paste's object, its marker and the thread itself.\<close>

definition quiet :: "string \<Rightarrow> gcs_thread \<Rightarrow> gcs_thread \<Rightarrow> bool" where
  "quiet i t t' \<longleftrightarrow> (holding i t' \<longrightarrow> holding i t) \<and> (delivered i t' \<longrightarrow> delivered i t)"

definition safe_step ::
  "string \<Rightarrow> gcs_object \<Rightarrow> (string \<rightharpoonup> gcs_object) \<Rightarrow> gcs_thread \<Rightarrow> (string \<rightharpoonup> gcs_object) \<Rightarrow> gcs_thread \<Rightarrow> bool" where
  "safe_step i x v t v' t' \<longleftrightarrow>
     (let ob = v (pasteObjectName i); ob' = v' (pasteObjectName i); mk = v (burnObjectName i); mk' = v' (burnObjectName i)
      in (ob' = ob \<or> ob' = None) \<and>
         (quiet i t t' \<and> (mk' = None \<longrightarrow> mk = None \<or> ob' = None) \<or>
          \<not> delivered i t \<and> \<not> delivered i t' \<and> \<not> holding i t \<and> holding i t' \<and> mk = None \<and> mk' \<noteq> None \<or>
          holding i t \<and> \<not> holding i t' \<and> \<not> delivered i t \<and> delivered i t' \<and> ob = Some x \<and> v' = v))"

lemma delivered_same: "delivered i (TGet j pc) \<Longrightarrow> j = i"
  by (erule delivered.elims) auto

lemma quiet_get [intro]: "j \<noteq> i \<Longrightarrow> quiet i (TGet j pc) (TGet j pc')"
  unfolding quiet_def by (cases pc') (auto elim: delivered.elims)

text \<open>All that a step of a thread must do for the invariant of the paste \<open>i\<close>.\<close>

definition step_keeps :: "('b \<Rightarrow> string \<rightharpoonup> gcs_object) \<Rightarrow> ('b \<Rightarrow> int) \<Rightarrow> string \<Rightarrow> gcs_object \<Rightarrow>
    'b \<Rightarrow> gcs_thread \<Rightarrow> 'b \<Rightarrow> gcs_thread \<Rightarrow> bool" where
  "step_keeps view latest i x b t b' t' \<longleftrightarrow> safe_step i x (view b) t (view b') t' \<and> latest b \<le> latest b' \<and>
     thread_ok i x (view b' (pasteObjectName i) = None) t'"

lemmas step_keeps_defs = step_keeps_def safe_step_def quiet_def about_paste_def

context object_store
begin

lemma get_attrs_keeps:
  assumes "ge_bucket e = k" "view b (pasteObjectName i) = None \<or> view b (pasteObjectName i) = Some x"
    and "get_step e j G_attrs b = (pc', b')"
  shows "step_keeps view latest i x b (TGet j G_attrs) b' (TGet j pc')"
proof (cases "b_attrs k b (pasteObjectName j)")
  case (Inl err)
  then show ?thesis using assms(1,3) by (cases err) (auto simp: step_keeps_defs)
next
  case (Inr a)
  then obtain y where "view b (pasteObjectName j) = Some y" "a = attrs_of y"
    using attrs_found [OF Inr] by (auto simp: attrs_of_def)
  then show ?thesis using assms Inr by (auto simp: step_keeps_defs)
qed

lemma get_drop_keeps:
  assumes "ge_bucket e = k" "thread_ok i x g (TGet j (G_drop n))" "get_step e j (G_drop n) b = (pc', b')"
  shows "step_keeps view latest i x b (TGet j (G_drop n)) b' (TGet j pc')"
proof -
  obtain r b1 where d: "b_delete k b n = (r, b1)" by fastforce
  obtain j' where n: "n = pasteObjectName j'" using assms(2) by (auto simp: about_paste_def)
  have "view b1 (burnObjectName i) = view b (burnObjectName i)" "latest b1 = latest b"
    using delete_view [OF d, of "burnObjectName i"] delete_effect [OF d] n by auto
  moreover have "view b1 (pasteObjectName i) = view b (pasteObjectName i) \<or> view b1 (pasteObjectName i) = None"
    using delete_effect [OF d] by (auto split: if_splits)
  ultimately show ?thesis using assms d by (auto simp: step_keeps_defs)
qed

lemma get_drop_marker_keeps:
  assumes "ge_bucket e = k" "thread_ok i x g (TGet j G_drop_marker)" "get_step e j G_drop_marker b = (pc', b')"
  shows "step_keeps view latest i x b (TGet j G_drop_marker) b' (TGet j pc')"
proof -
  obtain r b1 where d: "b_delete k b (burnObjectName j) = (r, b1)" by fastforce
  have "j \<noteq> i" using assms(2) by auto
  then have "view b1 (burnObjectName i) = view b (burnObjectName i)" "view b1 (pasteObjectName i) = view b (pasteObjectName i)"
    "latest b1 = latest b"
    using delete_view [OF d, of "burnObjectName i"] delete_view [OF d, of "pasteObjectName i"] by auto
  then show ?thesis using assms d by (auto simp: step_keeps_defs)
qed

text \<open>The claim is the only step by which a read comes to hold the paste, and only one finds no marker.\<close>

lemma get_claim_keeps:
  assumes "ge_bucket e = k" "thread_ok i x (view b (pasteObjectName i) = None) (TGet j (G_claim n a p))"
    and "get_step e j (G_claim n a p) b = (pc', b')"
  shows "step_keeps view latest i x b (TGet j (G_claim n a p)) b' (TGet j pc')"
proof -
  obtain r b1 where w: "b_write k b (burnObjectName j) True (marker_metadata e j) (format_rfc3339 (ge_stamp e)) = (r, b1)"
    by fastforce
  have ob: "view b1 (pasteObjectName i) = view b (pasteObjectName i)" "latest b \<le> latest b1"
    using write_view [OF w, of "pasteObjectName i"] by auto
  have mk: "j \<noteq> i \<Longrightarrow> view b1 (burnObjectName i) = view b (burnObjectName i)"
    using write_view [OF w, of "burnObjectName i"] by auto
  show ?thesis
  proof (cases r)
    case None
    with w have "written view latest b (burnObjectName j) (marker_metadata e j) (format_rfc3339 (ge_stamp e)) b1"
      "view b (burnObjectName j) = None" using write_done by auto
    then show ?thesis using assms w None ob mk by (auto simp: step_keeps_defs written_def)
  next
    case (Some err)
    then have "view b1 (burnObjectName i) = None \<Longrightarrow> view b (burnObjectName i) = None"
      using write_failed [of b "burnObjectName j" True "marker_metadata e j" "format_rfc3339 (ge_stamp e)" err b1] w mk
      by (cases "j = i") (auto simp: written_def)
    moreover have "\<not> delivered i (TGet j (G_done (claim_failure j err)))"
      by (cases err) (auto simp: claim_failure_def burned_paste_def)
    ultimately show ?thesis using assms w Some ob by (auto simp: step_keeps_defs)
  qed
qed

lemma get_read_keeps:
  assumes "ge_bucket e = k" "view b (pasteObjectName i) = None \<or> view b (pasteObjectName i) = Some x"
    and "thread_ok i x (view b (pasteObjectName i) = None) (TGet j (G_read n a p))" "get_step e j (G_read n a p) b = (pc', b')"
  shows "step_keeps view latest i x b (TGet j (G_read n a p)) b' (TGet j pc')"
proof -
  have "view b (pasteObjectName i) = Some x" if ji: "j = i" and del: "delivered i (TGet j pc')"
  proof -
    obtain c where "b_read k b n (oa_generation a) = Inr c"
      using del assms(1,4) by (cases "b_read k b n (oa_generation a)") (auto simp: read_result_def split: gcs_error.splits)
    then show ?thesis using read_found [of b n "oa_generation a" c] assms(2,3) ji by auto
  qed
  then show ?thesis using assms(1,3,4)
    by (cases "j = i"; cases "delivered i (TGet j pc')") (auto simp: step_keeps_defs dest: delivered_same)
qed

lemma get_step_keeps:
  assumes "ge_bucket e = k" "ge_now e \<le> p_expires_at (paste_of_attrs i (attrs_of x))" "burning_object x"
    and "view b (pasteObjectName i) = None \<or> view b (pasteObjectName i) = Some x"
    and "thread_ok i x (view b (pasteObjectName i) = None) (TGet j pc)" "get_step e j pc b = (pc', b')"
  shows "step_keeps view latest i x b (TGet j pc) b' (TGet j pc')"
proof (cases pc)
  case (G_burn a)
  then show ?thesis using assms(1,3,5,6)
    by (cases "b_attrs k b (burnObjectName j)")
      (auto simp: step_keeps_defs Let_def burning_object_def burned_paste_def split: if_splits)
next
  case (G_ref n p)
  then show ?thesis using assms(1,5,6) by (cases "b_attrs k b n") (auto simp: step_keeps_defs)
next
  case (G_expiry n a p)
  then show ?thesis using assms(2,3,5,6) burning_paste [of x i] by (auto simp: step_keeps_defs split: if_splits)
next
  case (G_done r)
  then show ?thesis using assms(5,6) by (auto simp: step_keeps_defs)
next
  case G_attrs
  show ?thesis using assms(6) unfolding G_attrs by (rule get_attrs_keeps [OF assms(1,4)])
next
  case (G_drop n)
  show ?thesis using assms(5,6) unfolding G_drop by (rule get_drop_keeps [OF assms(1)])
next
  case G_drop_marker
  show ?thesis using assms(5,6) unfolding G_drop_marker by (rule get_drop_marker_keeps [OF assms(1)])
next
  case (G_claim n a p)
  show ?thesis using assms(5,6) unfolding G_claim by (rule get_claim_keeps [OF assms(1)])
next
  case (G_read n a p)
  show ?thesis using assms(5,6) unfolding G_read by (rule get_read_keeps [OF assms(1,4)])
qed

lemma delete_step_keeps:
  assumes "ge_bucket e = k"
    and "thread_ok i x (view b (pasteObjectName i) = None) (TDelete j pc)" "delete_step e j pc b = (pc', b')"
  shows "step_keeps view latest i x b (TDelete j pc) b' (TDelete j pc')"
proof (cases pc)
  case D_object
  obtain r b1 where d: "b_delete k b (pasteObjectName j) = (r, b1)" by fastforce
  have "view b1 (burnObjectName i) = view b (burnObjectName i)" "latest b1 = latest b"
    "view b1 (pasteObjectName i) = view b (pasteObjectName i) \<or> view b1 (pasteObjectName i) = None"
    using delete_view [OF d, of "burnObjectName i"] delete_effect [OF d] by (auto split: if_splits)
  moreover have "r = None \<or> r = Some ObjectNotExist \<Longrightarrow> view b1 (pasteObjectName j) = None"
    using delete_done [OF d] .
  ultimately show ?thesis using assms(1,3) D_object d
    by (auto simp: step_keeps_defs split: option.splits gcs_error.splits)
next
  case D_marker
  obtain r b1 where d: "b_delete k b (burnObjectName j) = (r, b1)" by fastforce
  have ob: "view b1 (pasteObjectName i) = view b (pasteObjectName i)" "latest b1 = latest b"
    using delete_view [OF d, of "pasteObjectName i"] by auto
  have mk: "j \<noteq> i \<Longrightarrow> view b1 (burnObjectName i) = view b (burnObjectName i)"
    using delete_view [OF d, of "burnObjectName i"] by auto
  show ?thesis using assms D_marker d ob mk
    by (cases "j = i") (auto simp: step_keeps_defs)
next
  case (D_done r)
  then show ?thesis using assms(2,3) by (auto simp: step_keeps_defs)
qed

lemma mark_step_keeps:
  assumes "ge_bucket e = k" "mark_step e j pc b = (pc', b')"
  shows "step_keeps view latest i x b (TMark j pc) b' (TMark j pc')"
proof (cases pc)
  case M_attrs
  then show ?thesis using assms
    by (cases "b_attrs k b (burnObjectName j)") (auto simp: step_keeps_defs)
next
  case M_write
  obtain r b1 where w: "b_write k b (burnObjectName j) False (marker_metadata e j) [] = (r, b1)" by fastforce
  have ob: "view b1 (pasteObjectName i) = view b (pasteObjectName i)" "latest b \<le> latest b1"
    using write_view [OF w, of "pasteObjectName i"] by auto
  have mk: "view b1 (burnObjectName i) = None \<longrightarrow> view b (burnObjectName i) = None"
    using write_view [OF w, of "burnObjectName i"] write_done [of b "burnObjectName j" False "marker_metadata e j" "[]" b1]
      write_failed [of b "burnObjectName j" False "marker_metadata e j" "[]" _ b1] w
    by (cases r; cases "j = i") (auto simp: written_def)
  show ?thesis using assms M_write w ob mk
    by (auto simp: step_keeps_defs split: option.splits)
next
  case (M_done r)
  then show ?thesis using assms(2) by (auto simp: step_keeps_defs)
qed

lemma thread_step_keeps:
  assumes "ge_bucket e = k" "ge_now e \<le> p_expires_at (paste_of_attrs i (attrs_of x))" "burning_object x"
    and "view b (pasteObjectName i) = None \<or> view b (pasteObjectName i) = Some x"
    and "thread_ok i x (view b (pasteObjectName i) = None) t" "thread_step e t b = (t', b')"
  shows "step_keeps view latest i x b t b' t'"
proof (cases t)
  case (TGet j pc)
  obtain pc' b1 where g: "get_step e j pc b = (pc', b1)" by fastforce
  then have "t' = TGet j pc'" "b' = b1" using assms(6) TGet by simp_all
  then show ?thesis using get_step_keeps [OF assms(1-4) _ g] assms(5) TGet by simp
next
  case (TDelete j pc)
  obtain pc' b1 where g: "delete_step e j pc b = (pc', b1)" by fastforce
  then have "t' = TDelete j pc'" "b' = b1" using assms(6) TDelete by simp_all
  then show ?thesis using delete_step_keeps [OF assms(1) _ g] assms(5) TDelete by simp
next
  case (TMark j pc)
  obtain pc' b1 where g: "mark_step e j pc b = (pc', b1)" by fastforce
  then have "t' = TMark j pc'" "b' = b1" using assms(6) TMark by simp_all
  then show ?thesis using mark_step_keeps [OF assms(1) g] TMark by simp
qed

lemma continue_inv:
  assumes "burn_inv view latest i x s" "ge_bucket e = k" "burning_object x"
    and "ge_now e \<le> p_expires_at (paste_of_attrs i (attrs_of x))"
  shows "burn_inv view latest i x (gcs_event_step (Continue e j) s)"
proof (cases "j < length (sys_threads s)")
  case True
  define ts where "ts = sys_threads s"
  define b where "b = sys_bucket s"
  obtain t' b' where st: "thread_step e (ts ! j) b = (t', b')" by fastforce
  have inv: "view b (pasteObjectName i) = None \<or> view b (pasteObjectName i) = Some x"
    "go_generation x \<le> latest b" "list_all (thread_ok i x (view b (pasteObjectName i) = None)) ts"
    "number (delivered i) ts \<le> 1"
    "view b (pasteObjectName i) \<noteq> None \<longrightarrow> number (holding i) ts + number (delivered i) ts \<le>
       (if view b (burnObjectName i) = None then 0 else 1)"
    using assms(1) by (simp_all add: burn_inv_def Let_def ts_def b_def)
  have "thread_ok i x (view b (pasteObjectName i) = None) (ts ! j)"
    using inv(3) True by (simp add: list_all_length ts_def)
  from thread_step_keeps [OF assms(2,4,3) inv(1) this st]
  have safe: "safe_step i x (view b) (ts ! j) (view b') t'" "latest b \<le> latest b'"
    "thread_ok i x (view b' (pasteObjectName i) = None) t'" by (auto simp: step_keeps_def)
  have ob: "view b' (pasteObjectName i) = view b (pasteObjectName i) \<or> view b' (pasteObjectName i) = None"
    using safe(1) by (simp add: safe_step_def Let_def)
  have threads: "list_all (thread_ok i x (view b' (pasteObjectName i) = None)) (ts[j := t'])"
    using inv(3) safe(3) ob
    by (intro list_all_update) (auto simp: list_all_iff intro: thread_ok_mono)
  note n = number_update [of j ts "holding i" t'] number_update [of j ts "delivered i" t']
  have "number (delivered i) (ts[j := t']) \<le> 1 \<and>
    (view b' (pasteObjectName i) \<noteq> None \<longrightarrow>
       number (holding i) (ts[j := t']) + number (delivered i) (ts[j := t']) \<le>
         (if view b' (burnObjectName i) = None then 0 else 1))"
    using safe(1) unfolding safe_step_def Let_def
    by (elim conjE disjE) (use n True inv(4,5) ob in \<open>auto simp: quiet_def ts_def split: if_splits\<close>)
  then show ?thesis
    using True st inv(1,2) safe(2) ob threads
    by (auto simp: burn_inv_def Let_def ts_def b_def)
qed (use assms(1) in simp)

end

subsection \<open>Delivered at most once\<close>

text \<open>Events during the life of a paste: every call goes to the store, no clock is past the paste's expiry, and
  the writes of other operations are to other objects, so the paste is not saved again.\<close>

fun event_ok :: "('b \<Rightarrow> string \<rightharpoonup> gcs_object) \<Rightarrow> ('b \<Rightarrow> int) \<Rightarrow> string \<Rightarrow> gotime \<Rightarrow> 'b gcs_event \<Rightarrow> bool" where
  "event_ok view latest i t (Continue e j) \<longleftrightarrow> object_store (ge_bucket e) view latest \<and> ge_now e \<le> t"
| "event_ok view latest i t (OtherWrite e n cond m c) \<longleftrightarrow>
     object_store (ge_bucket e) view latest \<and> n \<noteq> pasteObjectName i \<and> n \<noteq> burnObjectName i"
| "event_ok view latest i t _ \<longleftrightarrow> True"

lemma start_inv:
  "burn_inv view latest i x s \<Longrightarrow> thread_ok i x False t \<Longrightarrow> \<not> holding i t \<Longrightarrow> \<not> delivered i t \<Longrightarrow>
   burn_inv view latest i x (s\<lparr>sys_threads := sys_threads s @ [t]\<rparr>)"
  by (auto simp: burn_inv_def Let_def intro: thread_ok_mono)

lemma other_write_inv:
  assumes "object_store (ge_bucket e) view latest" "n \<noteq> pasteObjectName i" "n \<noteq> burnObjectName i"
    and "burn_inv view latest i x s"
  shows "burn_inv view latest i x (gcs_event_step (OtherWrite e n cond m c) s)"
proof -
  obtain r b1 where w: "b_write (ge_bucket e) (sys_bucket s) n cond m c = (r, b1)" by fastforce
  have "view b1 (pasteObjectName i) = view (sys_bucket s) (pasteObjectName i)"
    "view b1 (burnObjectName i) = view (sys_bucket s) (burnObjectName i)" "latest (sys_bucket s) \<le> latest b1"
    using object_store.write_view [OF assms(1) w] assms(2,3) by auto
  then show ?thesis using assms(4) w by (auto simp: burn_inv_def Let_def)
qed

lemma event_inv:
  assumes "burn_inv view latest i x s" "burning_object x"
    and "event_ok view latest i (p_expires_at (paste_of_attrs i (attrs_of x))) ev"
  shows "burn_inv view latest i x (gcs_event_step ev s)"
proof (cases ev)
  case (Continue e j)
  then show ?thesis using object_store.continue_inv [of "ge_bucket e" view latest i x s e j] assms by simp
next
  case (OtherWrite e n cond m c)
  then show ?thesis using other_write_inv [of e view latest n i x s] assms by simp
qed (use assms(1) in \<open>auto simp: about_paste_def intro!: start_inv\<close>)

lemma gcs_run_inv:
  "burn_inv view latest i x s \<Longrightarrow> burning_object x \<Longrightarrow>
   list_all (event_ok view latest i (p_expires_at (paste_of_attrs i (attrs_of x)))) xs \<Longrightarrow>
   burn_inv view latest i x (gcs_run xs s)"
  by (induction xs arbitrary: s) (auto intro: event_inv)

text \<open>What \<^verbatim>\<open>SavePaste\<close> leaves behind for content that was not stored before.\<close>

lemma gcs_save_object:
  assumes "object_store (ge_bucket e) view latest" "gcs_SavePaste e b i c n True plain = (Inr res, b')"
    and "\<not> sr_was_deduplicated res"
  obtains x h ph where "view b' (pasteObjectName i) = Some x" "go_generation x \<le> latest b'" "go_data x = c"
    "go_metadata x = paste_metadata i (expiry_time (ge_now e) n) True (length c) (ge_now e) h plain ph"
    "view b' (burnObjectName i) = view b (burnObjectName i)"
proof -
  note write_view = object_store.write_view [OF assms(1)] and write_done = object_store.write_done [OF assms(1)]
  define m where "m h ph = paste_metadata i (expiry_time (ge_now e) n) True (length c) (ge_now e) h plain ph" for h ph
  obtain h ph b1 where w: "b_write (ge_bucket e) b (pasteObjectName i) False (m h ph) c = (None, b1)"
    and b': "b' = snd (createHashIndex e b1 h i)"
    using assms(2,3) unfolding gcs_SavePaste_def Let_def m_def
    by (auto split: sum.splits prod.splits option.splits gcs_error.splits if_splits)
  obtain r b2 where c: "createHashIndex e b1 h i = (r, b2)" by fastforce
  have keep: "view b' (pasteObjectName i) = view b1 (pasteObjectName i)" "latest b1 \<le> latest b'"
    "view b' (burnObjectName i) = view b1 (burnObjectName i)"
    using write_view [OF c [unfolded createHashIndex_def], of "pasteObjectName i"]
      write_view [OF c [unfolded createHashIndex_def], of "burnObjectName i"] b' c by auto
  have "written view latest b (pasteObjectName i) (m h ph) c b1" using write_done [OF w] by simp
  then show thesis
    using keep by (intro that [of "\<lparr>go_generation = latest b1, go_metadata = m h ph, go_data = c\<rparr>" h ph])
      (auto simp: written_def m_def)
qed

lemma paste_metadata_burning:
  assumes "go_metadata x = paste_metadata i y burn n t h plain ph" "- (2 ^ 63) \<le> y" "y < 2 ^ 63"
  shows "p_expires_at (paste_of_attrs i (attrs_of x)) = truncate_to second y"
    and "burn \<Longrightarrow> burning_object x"
proof -
  have "- (2 ^ 63) \<le> y div second" "y div second < 2 ^ 63"
    using assms(2,3) by (simp_all add: second_def)
  then show "p_expires_at (paste_of_attrs i (attrs_of x)) = truncate_to second y"
    by (simp add: paste_of_attrs_def attrs_of_def meta_def assms(1) paste_metadata_def unix_text_def atoi_itoa truncate_to_def)
  show "burn \<Longrightarrow> burning_object x"
    by (simp add: burning_object_def attrs_of_def meta_def assms(1) paste_metadata_def format_bool_def)
qed

text \<open>C8: Burn-after-read under concurrency on Cloud Storage. When \<^verbatim>\<open>SavePaste\<close> has stored a burn-after-read paste
  whose content was new, under an identifier without a burn marker, then whatever calls of \<^verbatim>\<open>GetPaste\<close>,
  \<^verbatim>\<open>DeletePaste\<close> and \<^verbatim>\<open>MarkBurned\<close> for any pastes are then in progress, interleaved call by call with each
  other and with the writes of other operations, and whichever library calls fail or lose their
  answer, at most one call of \<^verbatim>\<open>GetPaste\<close> returns its content until it expires.\<close>

theorem gcs_burn_once:
  assumes "object_store (ge_bucket e) view latest"
    and "gcs_SavePaste e b i c n True plain = (Inr res, b')" "\<not> sr_was_deduplicated res"
    and "view b (burnObjectName i) = None"
    and "x = expiry_time (ge_now e) n" "- (2 ^ 63) \<le> x" "x < 2 ^ 63"
    and "list_all (event_ok view latest i (truncate_to second x)) events"
  shows "number (delivered i) (sys_threads (gcs_run events \<lparr>sys_bucket = b', sys_threads = []\<rparr>)) \<le> 1"
proof -
  obtain y h ph where y: "view b' (pasteObjectName i) = Some y" "go_generation y \<le> latest b'"
    "go_metadata y = paste_metadata i x True (length c) (ge_now e) h plain ph"
    "view b' (burnObjectName i) = view b (burnObjectName i)"
    unfolding assms(5) by (rule gcs_save_object [OF assms(1-3)])
  have "burn_inv view latest i y \<lparr>sys_bucket = b', sys_threads = []\<rparr>"
    using y(1,2) by (simp add: burn_inv_def)
  then have "burn_inv view latest i y (gcs_run events \<lparr>sys_bucket = b', sys_threads = []\<rparr>)"
    using paste_metadata_burning [OF y(3) assms(6,7)] assms(8) by (intro gcs_run_inv) simp_all
  then show ?thesis by (simp add: burn_inv_def Let_def)
qed

subsection \<open>Examples on the bucket in memory\<close>

definition mem_env :: "mem_store gcs_env" where
  "mem_env = \<lparr>ge_bucket = mem_bucket (\<lambda>_. None), ge_now = 0, ge_stamp = 0\<rparr>"

definition empty_mem :: mem_store where "empty_mem = \<lparr>ms_objects = Map.empty, ms_latest = 0\<rparr>"

lemma mem_env_simps [simp]: "ge_bucket mem_env = mem_bucket (\<lambda>_. None)" "ge_now mem_env = 0" "ge_stamp mem_env = 0"
  by (simp_all add: mem_env_def)

lemma mem_view_empty [simp]: "mem_view empty_mem n = None" "ms_latest empty_mem = 0"
  by (simp_all add: mem_view_def empty_mem_def)

lemma mem_calls:
  "b_attrs (mem_bucket (\<lambda>_. None)) b n =
     (case mem_view b n of None \<Rightarrow> Inl ObjectNotExist | Some x \<Rightarrow> Inr (attrs_of x))"
  "b_write (mem_bucket (\<lambda>_. None)) b n cond m c =
     (if cond \<and> mem_view b n \<noteq> None then (Some (ApiFailure (precondition_texts ! 1)), b) else (None, mem_put b n m c))"
  "b_delete (mem_bucket (\<lambda>_. None)) b n =
     (if mem_view b n = None then (Some ObjectNotExist, b) else (None, mem_drop b n))"
  "b_read (mem_bucket (\<lambda>_. None)) b n g =
     (case mem_view b n of None \<Rightarrow> Inl ObjectNotExist
      | Some x \<Rightarrow> if go_generation x = g then Inr (go_data x) else Inl (ApiFailure (precondition_texts ! 1)))"
  by (simp_all add: mem_bucket_def attrs_of_def split: option.split)

lemma names_distinct [simp]:
  "bannedHashObjectName h \<noteq> pasteObjectName i" "bannedHashObjectName h \<noteq> burnObjectName i"
  "bannedHashObjectName h \<noteq> hashIndexObjectName g" "hashIndexObjectName g \<noteq> bannedHashObjectName h"
  "hashIndexObjectName g = hashIndexObjectName h \<longleftrightarrow> g = h"
  by (simp_all add: object_names)

text \<open>The first paste with some content, and a burn-after-read paste with the same content after it.\<close>

abbreviation paste_meta :: "string \<Rightarrow> string \<Rightarrow> bool \<Rightarrow> (string \<rightharpoonup> string)" where
  "paste_meta i c burn \<equiv> paste_metadata i (60 * second) burn (length c) 0 (sha256_hex c) False []"

definition first_saved :: "string \<Rightarrow> bool \<Rightarrow> string \<Rightarrow> mem_store" where
  "first_saved i burn c =
     mem_put (mem_put empty_mem (pasteObjectName i) (paste_meta i c burn) c)
       (hashIndexObjectName (sha256_hex c)) [''paste-id'' \<mapsto> i, ''created-at'' \<mapsto> unix_text 0] []"

lemma save_first:
  "\<exists>res. gcs_SavePaste mem_env empty_mem i c 60 burn False = (Inr res, first_saved i burn c) \<and> \<not> sr_was_deduplicated res"
  by (simp add: gcs_SavePaste_def gcs_hashes_def gcs_isHashBanned_def exists_object_def findByContentHash_def
      createHashIndex_def mem_calls expiry_time_small first_saved_def Let_def)

definition duplicate_saved :: "string \<Rightarrow> string \<Rightarrow> string \<Rightarrow> mem_store" where
  "duplicate_saved i j c =
     mem_put (first_saved i False c) (pasteObjectName j) ((paste_meta j c True)(''bincrypt-references'' \<mapsto> i)) []"

lemma save_duplicate:
  "i \<noteq> [] \<Longrightarrow> \<exists>res. gcs_SavePaste mem_env (first_saved i False c) j c 60 True False = (Inr res, duplicate_saved i j c) \<and>
     sr_was_deduplicated res \<and> sr_references_id res = i"
  by (simp add: gcs_SavePaste_def gcs_hashes_def gcs_isHashBanned_def exists_object_def findByContentHash_def
      createReferencePaste_def mem_calls expiry_time_small first_saved_def duplicate_saved_def mem_view_put attrs_of_def meta_def Let_def)

lemma mem_store_ok [simp]: "object_store (mem_bucket fail) mem_view ms_latest"
  by (rule memory_bucket.object_store_axioms)

text \<open>Two readers and a deletion. The first reader runs up to its claim, the second one runs to its end, the deletion
  that its caller queues runs, and the first reader goes on.\<close>

definition racing_events :: "string \<Rightarrow> nat \<Rightarrow> mem_store gcs_event list" where
  "racing_events j n =
     [StartGet j, StartGet j, StartDelete j] @ replicate n (Continue mem_env 0) @
     replicate (n + 2) (Continue mem_env 1) @ replicate 2 (Continue mem_env 2) @ replicate 2 (Continue mem_env 0)"

lemma second_nonneg: "0 \<le> second"
  by (simp add: second_def)

lemma racing_ok: "0 \<le> t \<Longrightarrow> list_all (event_ok mem_view ms_latest i t) (racing_events j n)"
  by (simp add: racing_events_def list_all_iff set_replicate_conv_if)

lemma paste_meta_parse:
  "paste_of_attrs j \<lparr>oa_generation = g, oa_metadata = (paste_meta j c True)(''bincrypt-references'' \<mapsto> i)\<rparr> =
   \<lparr>p_id = j, p_expires_at = 60 * second, p_burn_after_read = True,
    p_size_bytes = (case atoi (itoa (int (length c))) of Some n \<Rightarrow> n | None \<Rightarrow> 0), p_created_at = 0, p_is_burned = False\<rparr>"
  by (simp add: paste_of_attrs_def meta_def paste_metadata_def unix_text_def atoi_itoa second_def format_bool_def)

theorem gcs_burn_once_witness:
  "\<exists>res b'. gcs_SavePaste mem_env empty_mem ''b'' ''QQ=='' 60 True False = (Inr res, b') \<and>
     number (delivered ''b'') (sys_threads (gcs_run (racing_events ''b'' 3) \<lparr>sys_bucket = b', sys_threads = []\<rparr>)) \<le> 1"
proof -
  obtain res where sv: "gcs_SavePaste mem_env empty_mem ''b'' ''QQ=='' 60 True False = (Inr res, first_saved ''b'' True ''QQ=='')"
    "\<not> sr_was_deduplicated res"
    using save_first by blast
  have "list_all (event_ok mem_view ms_latest ''b'' (truncate_to second (60 * second))) (racing_events ''b'' 3)"
    by (simp add: racing_ok truncate_to_def second_def)
  then have "number (delivered ''b'') (sys_threads (gcs_run (racing_events ''b'' 3)
      \<lparr>sys_bucket = first_saved ''b'' True ''QQ=='', sys_threads = []\<rparr>)) \<le> 1"
    by (intro gcs_burn_once [of mem_env mem_view ms_latest, OF _ sv]) (simp_all add: expiry_time_small second_def)
  with sv(1) show ?thesis by blast
qed

text \<open>The race on any store that holds a burn-after-read reference to another object.\<close>

lemma race_delivers:
  assumes "mem_view b (pasteObjectName j) = Some x" "mem_view b (burnObjectName j) = None"
    and "mem_view b (pasteObjectName i) = Some y" "meta (attrs_of x) ''bincrypt-references'' = i"
    and "p_burn_after_read (paste_of_attrs j (attrs_of x))" "0 \<le> p_expires_at (paste_of_attrs j (attrs_of x))"
    and "i \<noteq> []" "i \<noteq> j"
  shows "number (delivered j) (sys_threads (gcs_run (racing_events j 4) \<lparr>sys_bucket = b, sys_threads = []\<rparr>)) = 2"
proof -
  let ?a = "attrs_of x" and ?p = "paste_of_attrs j (attrs_of x)"
  let ?s = "\<lambda>b t. \<lparr>sys_bucket = b, sys_threads = t\<rparr>"
  let ?claim = "\<lambda>b. mem_put b (burnObjectName j) (marker_metadata mem_env j) (format_rfc3339 0)"
  let ?b1 = "?claim b"
  let ?b2 = "mem_drop (mem_drop ?b1 (pasteObjectName j)) (burnObjectName j)"
  define got where "got = G_done (read_result (Inr (go_data y)) (?p\<lparr>p_is_burned := True\<rparr>))"
  have early: "get_step mem_env j G_attrs b = (G_burn ?a, b)"
    "get_step mem_env j (G_burn ?a) b = (G_ref (pasteObjectName i) ?p, b)"
    "get_step mem_env j (G_ref (pasteObjectName i) ?p) b = (G_expiry (pasteObjectName i) (attrs_of y) ?p, b)"
    "get_step mem_env j (G_expiry (pasteObjectName i) (attrs_of y) ?p) b = (G_claim (pasteObjectName i) (attrs_of y) ?p, b)"
    using assms by (simp_all add: mem_calls Let_def)
  have claim: "get_step mem_env j (G_claim (pasteObjectName i) (attrs_of y) ?p) b' =
      (G_read (pasteObjectName i) (attrs_of y) (?p\<lparr>p_is_burned := True\<rparr>), ?claim b')"
    "get_step mem_env j (G_read (pasteObjectName i) (attrs_of y) (?p\<lparr>p_is_burned := True\<rparr>)) (?claim b') = (got, ?claim b')"
    if "mem_view b' (burnObjectName j) = None" "mem_view b' (pasteObjectName i) = Some y" for b'
    using that by (simp_all add: mem_calls mem_view_put attrs_of_def got_def)
  have free: "mem_view ?b2 (burnObjectName j) = None" "mem_view ?b2 (pasteObjectName i) = Some y"
    using assms by (simp_all add: mem_view_put mem_view_drop)
  have del: "delete_step mem_env j D_object ?b1 = (D_marker, mem_drop ?b1 (pasteObjectName j))"
    "delete_step mem_env j D_marker (mem_drop ?b1 (pasteObjectName j)) = (D_done (Inr ()), ?b2)"
    using assms by (simp_all add: mem_calls mem_view_put mem_view_drop)
  have "gcs_run (racing_events j 4) (?s b []) = ?s (?claim ?b2) [TGet j got, TGet j got, TDelete j (D_done (Inr ()))]"
    using early claim [OF assms(2,3)] claim [OF free] del
    by (simp add: racing_events_def eval_nat_numeral del: get_step.simps delete_step.simps)
  moreover have "delivered j (TGet j got)"
    using assms(5) by (simp add: got_def read_result_def)
  ultimately show ?thesis by (simp add: number_def)
qed

lemma duplicate_views:
  assumes "i \<noteq> j"
  shows "mem_view (duplicate_saved i j c) (pasteObjectName j) =
      Some \<lparr>go_generation = 3, go_metadata = (paste_meta j c True)(''bincrypt-references'' \<mapsto> i), go_data = []\<rparr>"
    "mem_view (duplicate_saved i j c) (burnObjectName j) = None"
    "mem_view (duplicate_saved i j c) (pasteObjectName i) =
      Some \<lparr>go_generation = 1, go_metadata = paste_meta i c False, go_data = c\<rparr>"
  using assms by (simp_all add: duplicate_saved_def first_saved_def mem_view_put mem_latest)

text \<open>C14: A deduplicated burn-after-read paste can be delivered twice on Cloud Storage. For any content saved
  first as an ordinary paste and then, by anyone, as a burn-after-read paste, there is an interleaving of two reads
  of the second paste with the deletion that the first delivery queues, with no failing call and
  long before the expiry, in which both reads return the content: the deletion removes the burn
  marker, and the content that the late reader fetches is the other paste's, which is still there.\<close>

theorem gcs_duplicate_delivered_twice:
  assumes "i \<noteq> []" "i \<noteq> j"
  shows "\<exists>r1 b1 r2 b2 events.
    gcs_SavePaste mem_env empty_mem i c 60 False False = (Inr r1, b1) \<and>
    gcs_SavePaste mem_env b1 j c 60 True False = (Inr r2, b2) \<and> sr_was_deduplicated r2 \<and>
    list_all (event_ok mem_view ms_latest j (60 * second)) events \<and>
    number (delivered j) (sys_threads (gcs_run events \<lparr>sys_bucket = b2, sys_threads = []\<rparr>)) = 2"
proof -
  obtain r1 where r1: "gcs_SavePaste mem_env empty_mem i c 60 False False = (Inr r1, first_saved i False c)"
    using save_first by blast
  obtain r2 where r2: "gcs_SavePaste mem_env (first_saved i False c) j c 60 True False = (Inr r2, duplicate_saved i j c)"
    "sr_was_deduplicated r2"
    using save_duplicate [OF assms(1)] by blast
  have ok: "list_all (event_ok mem_view ms_latest j (60 * second)) (racing_events j 4)"
    by (rule racing_ok) (simp add: second_def)
  have "number (delivered j) (sys_threads (gcs_run (racing_events j 4)
      \<lparr>sys_bucket = duplicate_saved i j c, sys_threads = []\<rparr>)) = 2"
    using assms by (intro race_delivers [OF duplicate_views])
      (simp_all add: attrs_of_def meta_def paste_meta_parse second_nonneg)
  with r1 r2 ok show ?thesis by blast
qed

theorem gcs_duplicate_delivered_twice_witness:
  "\<exists>r1 b1 r2 b2 events.
    gcs_SavePaste mem_env empty_mem ''a'' ''QQ=='' 60 False False = (Inr r1, b1) \<and>
    gcs_SavePaste mem_env b1 ''b'' ''QQ=='' 60 True False = (Inr r2, b2) \<and> sr_was_deduplicated r2 \<and>
    list_all (event_ok mem_view ms_latest ''b'' (60 * second)) events \<and>
    number (delivered ''b'') (sys_threads (gcs_run events \<lparr>sys_bucket = b2, sys_threads = []\<rparr>)) = 2"
  by (rule gcs_duplicate_delivered_twice) simp_all

end
