(* ===== verification/DeletionQueue.thy ===== *)
theory DeletionQueue
  imports Postgres "HOL-Library.Multiset"
begin

text \<open>
  \<^verbatim>\<open>src/services/deletion_queue.go\<close>: the bounded queue of asynchronous deletions as a step relation.
  The channel holds its buffer and whether it is closed; sending on a closed channel or closing it
  twice panics, written \<^const>\<open>None\<close>. Each worker is a small state machine, and the code between two
  points where a goroutine can be descheduled is one step: \<^verbatim>\<open>QueueDeletion\<close> and the closing part of
  \<^verbatim>\<open>Shutdown\<close> hold the mutex throughout. Other requests operate on the store in between.
\<close>

record channel =
  ch_buffer :: "string list"
  ch_capacity :: nat
  ch_closed :: bool

text \<open>A worker waits at the channel, is deleting a paste, or has returned.\<close>

datatype worker = Idle | Busy string | Stopped

record 'db dqueue =
  q_tasks :: channel
  q_workers :: "worker list"
  q_closed :: bool
  q_cancelled :: bool
  q_store :: 'db

definition queue_buffer :: nat where "queue_buffer = 1000"

definition NewDeletionQueue :: "'db \<Rightarrow> int \<Rightarrow> 'db dqueue" where
  "NewDeletionQueue db workers =
     (let n = (if workers \<le> 0 then 10 else nat workers)
      in \<lparr>q_tasks = \<lparr>ch_buffer = [], ch_capacity = queue_buffer, ch_closed = False\<rparr>,
          q_workers = replicate n Idle, q_closed = False, q_cancelled = False, q_store = db\<rparr>)"

text \<open>A non-blocking send: \<^term>\<open>Some True\<close> when the value was buffered, \<^term>\<open>Some False\<close> when there is
  no room, \<^const>\<open>None\<close> for the panic.\<close>

definition chan_try_send :: "string \<Rightarrow> channel \<Rightarrow> (bool \<times> channel) option" where
  "chan_try_send x ch =
     (if ch_closed ch then None
      else if length (ch_buffer ch) < ch_capacity ch
        then Some (True, ch\<lparr>ch_buffer := ch_buffer ch @ [x]\<rparr>)
      else Some (False, ch))"

definition chan_close :: "channel \<Rightarrow> channel option" where
  "chan_close ch = (if ch_closed ch then None else Some (ch\<lparr>ch_closed := True\<rparr>))"

text \<open>The result of \<^verbatim>\<open>QueueDeletion\<close> is its error, if any.\<close>

definition QueueDeletion :: "string \<Rightarrow> 'db dqueue \<Rightarrow> (string option \<times> 'db dqueue) option" where
  "QueueDeletion x q =
     (if q_closed q then Some (Some ''deletion queue shutting down'', q)
      else (case chan_try_send x (q_tasks q) of
              None \<Rightarrow> None
            | Some (True, ch) \<Rightarrow> Some (None, q\<lparr>q_tasks := ch\<rparr>)
            | Some (False, ch) \<Rightarrow> Some (Some ''deletion queue full'', q)))"

definition shutdown_close :: "'db dqueue \<Rightarrow> 'db dqueue option" where
  "shutdown_close q =
     (if q_closed q then Some q
      else map_option (\<lambda>ch. q\<lparr>q_closed := True, q_tasks := ch\<rparr>) (chan_close (q_tasks q)))"

text \<open>The rest of \<^verbatim>\<open>Shutdown\<close>: it returns nil once every worker has returned, or an error when its
  timer fires first. Either way the context is cancelled.\<close>

definition all_stopped :: "'db dqueue \<Rightarrow> bool" where
  "all_stopped q = list_all (\<lambda>w. w = Stopped) (q_workers q)"

definition shutdown_return :: "bool \<Rightarrow> 'db dqueue \<Rightarrow> (string option \<times> 'db dqueue) option" where
  "shutdown_return timed_out q =
     (if timed_out then Some (Some ''shutdown timeout exceeded'', q\<lparr>q_cancelled := True\<rparr>)
      else if all_stopped q then Some (None, q\<lparr>q_cancelled := True\<rparr>)
      else None)"

text \<open>The worker's loop. A receive waits while the buffer is empty and the channel open.\<close>

definition worker_at :: "nat \<Rightarrow> worker \<Rightarrow> 'db dqueue \<Rightarrow> bool" where
  "worker_at w s q \<longleftrightarrow> w < length (q_workers q) \<and> q_workers q ! w = s"

definition set_worker :: "nat \<Rightarrow> worker \<Rightarrow> 'db dqueue \<Rightarrow> 'db dqueue" where
  "set_worker w s q = q\<lparr>q_workers := (q_workers q)[w := s]\<rparr>"

definition worker_receive :: "nat \<Rightarrow> 'db dqueue \<Rightarrow> (string \<times> 'db dqueue) option" where
  "worker_receive w q =
     (if worker_at w Idle q then
        (case ch_buffer (q_tasks q) of
           [] \<Rightarrow> None
         | x # xs \<Rightarrow> Some (x, set_worker w (Busy x) (q\<lparr>q_tasks := (q_tasks q)\<lparr>ch_buffer := xs\<rparr>\<rparr>)))
      else None)"

definition worker_delete ::
  "'db backend \<Rightarrow> nat \<Rightarrow> 'db dqueue \<Rightarrow> (string \<times> unit result \<times> 'db dqueue) option" where
  "worker_delete k w q =
     (if w < length (q_workers q) then
        (case q_workers q ! w of
           Busy x \<Rightarrow>
             (case DeletePaste k (q_store q) x of
                (r, db) \<Rightarrow> Some (x, r, set_worker w Idle (q\<lparr>q_store := db\<rparr>)))
         | _ \<Rightarrow> None)
      else None)"

definition worker_exit :: "nat \<Rightarrow> 'db dqueue \<Rightarrow> 'db dqueue option" where
  "worker_exit w q =
     (if worker_at w Idle q \<and> ch_buffer (q_tasks q) = [] \<and> ch_closed (q_tasks q)
      then Some (set_worker w Stopped q) else None)"

subsection \<open>The step relation\<close>

datatype 'e dq_label =
    LQueue string "string option"
  | LReceive nat string
  | LDelete nat string "unit result"
  | LExit nat
  | LShutdown
  | LReturn "string option"
  | LOther 'e store_op

inductive dq_step :: "('e \<Rightarrow> 'db backend) \<Rightarrow> 'db dqueue \<Rightarrow> 'e dq_label \<Rightarrow> 'db dqueue \<Rightarrow> bool"
  for K where
  queue: "QueueDeletion x q = Some (r, q') \<Longrightarrow> dq_step K q (LQueue x r) q'"
| receive: "worker_receive w q = Some (x, q') \<Longrightarrow> dq_step K q (LReceive w x) q'"
| delete: "worker_delete (K e) w q = Some (x, r, q') \<Longrightarrow> dq_step K q (LDelete w x r) q'"
| exit: "worker_exit w q = Some q' \<Longrightarrow> dq_step K q (LExit w) q'"
| shutdown: "shutdown_close q = Some q' \<Longrightarrow> dq_step K q LShutdown q'"
| return: "q_closed q \<Longrightarrow> shutdown_return b q = Some (r, q') \<Longrightarrow> dq_step K q (LReturn r) q'"
| other: "store_step (K e) x (q_store q) = (y, db) \<Longrightarrow> dq_step K q (LOther e x) (q\<lparr>q_store := db\<rparr>)"

inductive dq_run :: "('e \<Rightarrow> 'db backend) \<Rightarrow> 'db dqueue \<Rightarrow> 'e dq_label list \<Rightarrow> 'db dqueue \<Rightarrow> bool"
  for K q where
  start: "dq_run K q [] q"
| step: "dq_run K q ls q' \<Longrightarrow> dq_step K q' l q'' \<Longrightarrow> dq_run K q (ls @ [l]) q''"

inductive_cases dq_run_NilE: "dq_run K q [] q'"
inductive_cases dq_run_snocE: "dq_run K q (ls @ [l]) q'"
inductive_cases dq_stepE: "dq_step K q l q'"

lemma dq_run_append: "dq_run K q' ms q'' \<Longrightarrow> dq_run K q ls q' \<Longrightarrow> dq_run K q (ls @ ms) q''"
  by (induction rule: dq_run.induct) (auto simp flip: append_assoc intro: dq_run.step)

lemma dq_run_split: "dq_run K q (ls @ ms) q'' \<Longrightarrow> \<exists>q'. dq_run K q ls q' \<and> dq_run K q' ms q''"
proof (induction ms arbitrary: q'' rule: rev_induct)
  case (snoc m ms)
  from snoc.prems have "dq_run K q ((ls @ ms) @ [m]) q''" by simp
  then show ?case by (rule dq_run_snocE) (auto dest!: snoc.IH intro: dq_run.step)
qed (auto intro: dq_run.start)

text \<open>The identifiers a run has accepted, deleted, and still holds.\<close>

fun accepted_by :: "'e dq_label \<Rightarrow> string multiset" where
  "accepted_by (LQueue x None) = {#x#}"
| "accepted_by _ = {#}"

fun deleted_by :: "'e dq_label \<Rightarrow> string multiset" where
  "deleted_by (LDelete w x r) = {#x#}"
| "deleted_by _ = {#}"

definition accepted :: "'e dq_label list \<Rightarrow> string multiset" where
  "accepted ls = \<Sum>\<^sub># (mset (map accepted_by ls))"
definition deleted :: "'e dq_label list \<Rightarrow> string multiset" where
  "deleted ls = \<Sum>\<^sub># (mset (map deleted_by ls))"

fun held_by :: "worker \<Rightarrow> string multiset" where
  "held_by (Busy x) = {#x#}"
| "held_by _ = {#}"

definition held :: "'db dqueue \<Rightarrow> string multiset" where
  "held q = mset (ch_buffer (q_tasks q)) + \<Sum>\<^sub># (mset (map held_by (q_workers q)))"

lemma label_sums [simp]:
  "accepted [] = {#}" "accepted (ls @ [l]) = accepted ls + accepted_by l"
  "deleted [] = {#}" "deleted (ls @ [l]) = deleted ls + deleted_by l"
  by (simp_all add: accepted_def deleted_def)

lemma sum_held_update:
  "w < length ws \<Longrightarrow>
   \<Sum>\<^sub># (mset (map held_by (ws[w := s]))) + held_by (ws ! w) = \<Sum>\<^sub># (mset (map held_by ws)) + held_by s"
proof (induction ws arbitrary: w)
  case (Cons a ws)
  then show ?case by (cases w) (simp_all add: ac_simps)
qed simp

lemma set_worker_simps [simp]:
  "q_tasks (set_worker w s q) = q_tasks q" "q_closed (set_worker w s q) = q_closed q"
  "q_store (set_worker w s q) = q_store q" "q_cancelled (set_worker w s q) = q_cancelled q"
  "q_workers (set_worker w s q) = (q_workers q)[w := s]"
  by (simp_all add: set_worker_def)

subsection \<open>Inversion\<close>

lemma QueueDeletion_cases:
  assumes "QueueDeletion x q = Some (r, q')"
  obtains (refused) m where "r = Some m" "q' = q"
  | (buffered) "r = None" "\<not> q_closed q" "\<not> ch_closed (q_tasks q)"
      "length (ch_buffer (q_tasks q)) < ch_capacity (q_tasks q)"
      "q' = q\<lparr>q_tasks := (q_tasks q)\<lparr>ch_buffer := ch_buffer (q_tasks q) @ [x]\<rparr>\<rparr>"
  using assms by (auto simp: QueueDeletion_def chan_try_send_def split: if_splits)

lemma worker_receive_cases:
  assumes "worker_receive w q = Some (x, q')"
  obtains xs where "w < length (q_workers q)" "q_workers q ! w = Idle" "ch_buffer (q_tasks q) = x # xs"
    "q' = set_worker w (Busy x) (q\<lparr>q_tasks := (q_tasks q)\<lparr>ch_buffer := xs\<rparr>\<rparr>)"
  using assms by (auto simp: worker_receive_def worker_at_def split: if_splits list.splits)

lemma worker_delete_cases:
  assumes "worker_delete k w q = Some (x, r, q')"
  obtains db where "w < length (q_workers q)" "q_workers q ! w = Busy x"
    "DeletePaste k (q_store q) x = (r, db)" "q' = set_worker w Idle (q\<lparr>q_store := db\<rparr>)"
  using assms by (auto simp: worker_delete_def split: if_splits worker.splits prod.splits)

lemma worker_exit_cases:
  assumes "worker_exit w q = Some q'"
  obtains "w < length (q_workers q)" "q_workers q ! w = Idle" "ch_buffer (q_tasks q) = []"
    "ch_closed (q_tasks q)" "q' = set_worker w Stopped q"
  using assms by (auto simp: worker_exit_def worker_at_def split: if_splits)

lemma shutdown_close_cases:
  assumes "shutdown_close q = Some q'"
  obtains (again) "q_closed q" "q' = q"
  | (first) "\<not> q_closed q" "\<not> ch_closed (q_tasks q)"
      "q' = q\<lparr>q_closed := True, q_tasks := (q_tasks q)\<lparr>ch_closed := True\<rparr>\<rparr>"
  using assms by (auto simp: shutdown_close_def chan_close_def split: if_splits)

lemma shutdown_return_cases:
  assumes "shutdown_return b q = Some (r, q')"
  obtains "q' = q\<lparr>q_cancelled := True\<rparr>" "r = None \<longrightarrow> all_stopped q"
  using assms by (auto simp: shutdown_return_def split: if_splits)

subsection \<open>The invariant\<close>

text \<open>The flag and the channel agree, the buffer keeps its bound, and a worker has returned only
  when the channel was closed and drained.\<close>

definition dq_ok :: "'db dqueue \<Rightarrow> bool" where
  "dq_ok q \<longleftrightarrow> ch_closed (q_tasks q) = q_closed q \<and> ch_capacity (q_tasks q) = queue_buffer \<and>
     length (ch_buffer (q_tasks q)) \<le> queue_buffer \<and>
     (Stopped \<in> set (q_workers q) \<longrightarrow> q_closed q \<and> ch_buffer (q_tasks q) = [])"

lemma dq_ok_new [wf_intros]: "dq_ok (NewDeletionQueue db n)"
  by (auto simp: dq_ok_def NewDeletionQueue_def Let_def)

lemma update_worker_set: "Stopped \<in> set (ws[w := s]) \<Longrightarrow> s \<noteq> Stopped \<Longrightarrow> Stopped \<in> set ws"
  using set_update_subset_insert [of ws w s] by auto

lemma dq_ok_step:
  assumes "dq_ok q" "dq_step K q l q'"
  shows "dq_ok q' \<and> length (q_workers q') = length (q_workers q)"
  using assms(2)
proof cases
  case (queue x r)
  from queue(2) show ?thesis
    by (cases rule: QueueDeletion_cases) (use assms(1) in \<open>auto simp: dq_ok_def\<close>)
next
  case (receive w x)
  from receive(2) show ?thesis
    by (cases rule: worker_receive_cases)
       (use assms(1) in \<open>auto simp: dq_ok_def dest: update_worker_set\<close>)
next
  case (delete e w x r)
  from delete(2) show ?thesis
    by (cases rule: worker_delete_cases)
       (use assms(1) in \<open>auto simp: dq_ok_def dest: update_worker_set\<close>)
next
  case (exit w)
  from exit(2) show ?thesis
    by (cases rule: worker_exit_cases) (use assms(1) in \<open>auto simp: dq_ok_def\<close>)
next
  case shutdown
  from shutdown(2) show ?thesis
    by (cases rule: shutdown_close_cases) (use assms(1) in \<open>auto simp: dq_ok_def\<close>)
next
  case (return b r)
  from return(3) show ?thesis
    by (cases rule: shutdown_return_cases) (use assms(1) in \<open>auto simp: dq_ok_def\<close>)
qed (use assms(1) in \<open>auto simp: dq_ok_def\<close>)

lemma dq_ok_run: "dq_run K q ls q' \<Longrightarrow> dq_ok q \<Longrightarrow> dq_ok q' \<and> length (q_workers q') = length (q_workers q)"
  by (induction rule: dq_run.induct) (auto dest: dq_ok_step)

subsection \<open>Conservation\<close>

lemma held_step: "dq_step K q l q' \<Longrightarrow> held q + accepted_by l = held q' + deleted_by l"
proof (induction rule: dq_step.induct)
  case (queue x q r q')
  from queue show ?case
    by (cases rule: QueueDeletion_cases) (auto simp: held_def ac_simps)
next
  case (receive w q x q')
  from receive show ?case
    by (cases rule: worker_receive_cases) (use sum_held_update [of w "q_workers q" "Busy x"] in \<open>auto simp: held_def ac_simps\<close>)
next
  case (delete e w q x r q')
  from delete show ?case
    by (cases rule: worker_delete_cases) (use sum_held_update [of w "q_workers q" Idle] in \<open>auto simp: held_def ac_simps\<close>)
next
  case (exit w q q')
  from exit show ?case
    by (cases rule: worker_exit_cases) (use sum_held_update [of w "q_workers q" Stopped] in \<open>auto simp: held_def ac_simps\<close>)
next
  case (shutdown q q')
  from shutdown show ?case
    by (cases rule: shutdown_close_cases) (auto simp: held_def)
next
  case (return q b r q')
  from return(2) show ?case
    by (cases rule: shutdown_return_cases) (auto simp: held_def)
qed (simp add: held_def)

lemma held_run: "dq_run K q ls q' \<Longrightarrow> held q + accepted ls = held q' + deleted ls"
proof (induction rule: dq_run.induct)
  case (step ls q' l q'')
  from held_step [OF step.hyps(2)] step.IH show ?case
    by simp (metis add.assoc add.commute)
qed simp

subsection \<open>Draining\<close>

fun worker_label :: "'e dq_label \<Rightarrow> bool" where
  "worker_label (LReceive w x) = True"
| "worker_label (LDelete w x r) = True"
| "worker_label (LExit w) = True"
| "worker_label _ = False"

fun worker_work :: "worker \<Rightarrow> nat" where
  "worker_work Idle = 1"
| "worker_work (Busy x) = 2"
| "worker_work Stopped = 0"

text \<open>An upper bound on the steps the workers have left once the queue is closed.\<close>

definition work_left :: "'db dqueue \<Rightarrow> nat" where
  "work_left q = 2 * length (ch_buffer (q_tasks q)) + sum_list (map worker_work (q_workers q))"

lemma sum_work_update:
  "w < length ws \<Longrightarrow>
   sum_list (map worker_work (ws[w := s])) + worker_work (ws ! w) = sum_list (map worker_work ws) + worker_work s"
proof (induction ws arbitrary: w)
  case (Cons a ws)
  then show ?case by (cases w) simp_all
qed simp

lemma closed_step: "dq_step K q l q' \<Longrightarrow> q_closed q \<Longrightarrow> q_closed q'"
proof (induction rule: dq_step.induct)
  case (queue x q r q')
  then show ?case by (auto elim: QueueDeletion_cases)
next
  case (shutdown q q')
  then show ?case by (auto elim: shutdown_close_cases)
next
  case (return q b r q')
  then show ?case by (auto elim: shutdown_return_cases)
qed (auto elim: worker_receive_cases worker_delete_cases worker_exit_cases)

lemma work_step:
  assumes "dq_step K q l q'" "q_closed q \<or> worker_label l"
  shows "(if worker_label l then 1 else 0) + work_left q' \<le> work_left q"
  using assms
proof (induction rule: dq_step.induct)
  case (queue x q r q')
  then show ?case by (auto elim!: QueueDeletion_cases)
next
  case (receive w q x q')
  from receive(1) show ?case
    by (cases rule: worker_receive_cases)
       (use sum_work_update [of w "q_workers q" "Busy x"] in \<open>auto simp: work_left_def\<close>)
next
  case (delete e w q x r q')
  from delete(1) show ?case
    by (cases rule: worker_delete_cases)
       (use sum_work_update [of w "q_workers q" Idle] in \<open>auto simp: work_left_def\<close>)
next
  case (exit w q q')
  from exit(1) show ?case
    by (cases rule: worker_exit_cases)
       (use sum_work_update [of w "q_workers q" Stopped] in \<open>auto simp: work_left_def\<close>)
next
  case (shutdown q q')
  then show ?case by (auto elim!: shutdown_close_cases)
next
  case (return q b r q')
  from return(2) show ?case by (cases rule: shutdown_return_cases) (auto simp: work_left_def)
qed (simp add: work_left_def)

lemma work_run:
  "dq_run K q ls q' \<Longrightarrow> q_closed q \<Longrightarrow>
   q_closed q' \<and> length (filter worker_label ls) + work_left q' \<le> work_left q"
proof (induction rule: dq_run.induct)
  case (step ls q' l q'')
  then have "q_closed q'" "length (filter worker_label ls) + work_left q' \<le> work_left q" by simp_all
  with work_step [OF step.hyps(2) disjI1] closed_step [OF step.hyps(2)] show ?case by fastforce
qed simp

text \<open>Until all workers have returned one of them can move, so draining never gets stuck.\<close>

lemma worker_progress:
  assumes "dq_ok q" "q_closed q" "\<not> all_stopped q"
  shows "\<exists>l q'. worker_label l \<and> dq_step K q l q'"
proof -
  obtain w where w: "w < length (q_workers q)" "q_workers q ! w \<noteq> Stopped"
    using assms(3) by (auto simp: all_stopped_def list_all_length)
  show ?thesis
  proof (cases "q_workers q ! w")
    case Idle
    show ?thesis
    proof (cases "ch_buffer (q_tasks q)")
      case Nil
      then have "worker_exit w q = Some (set_worker w Stopped q)"
        using w Idle assms by (simp add: worker_exit_def worker_at_def dq_ok_def)
      then show ?thesis using dq_step.exit by (metis worker_label.simps(3))
    next
      case (Cons x xs)
      then obtain q' where "worker_receive w q = Some (x, q')"
        using w Idle by (simp add: worker_receive_def worker_at_def)
      then show ?thesis using dq_step.receive by (metis worker_label.simps(1))
    qed
  next
    case (Busy x)
    obtain r db where "DeletePaste (K undefined) (q_store q) x = (r, db)" by fastforce
    then have "worker_delete (K undefined) w q = Some (x, r, set_worker w Idle (q\<lparr>q_store := db\<rparr>))"
      using w Busy by (simp add: worker_delete_def)
    then show ?thesis using dq_step.delete by (metis worker_label.simps(2))
  qed (use w in simp)
qed

lemma stopped_holds_nothing:
  assumes "dq_ok q" "all_stopped q" "q_workers q \<noteq> []"
  shows "held q = {#}"
proof -
  have "Stopped \<in> set (q_workers q)"
    using assms(2,3) by (auto simp: all_stopped_def list_all_iff neq_Nil_conv)
  moreover have "\<Sum>\<^sub># (mset (map held_by ws)) = {#}" if "list_all (\<lambda>w. w = Stopped) ws" for ws
    using that by (induction ws) auto
  ultimately show ?thesis using assms by (simp add: held_def dq_ok_def all_stopped_def)
qed

subsection \<open>What the store has lost when the queue has drained\<close>

text \<open>
  What the queue relies on: a deletion that reports success removes the paste, and only a save
  under the same identifier brings it back.
\<close>

locale deleting_store = paste_store K inv pending spent
  for K :: "'e \<Rightarrow> 'db backend" and inv pending spent +
  fixes gone :: "'db \<Rightarrow> string \<Rightarrow> bool"
  assumes delete_gone: "inv db \<Longrightarrow> DeletePaste (K e) db i = (Inr (), db') \<Longrightarrow> gone db' i"
    and gone_step: "inv db \<Longrightarrow> gone db i \<Longrightarrow> \<not> saves i x \<Longrightarrow> gone (snd (store_step (K e) x db)) i"
begin

lemma store_after_step:
  "dq_step K q l q' \<Longrightarrow> q_store q' = q_store q \<or>
   (\<exists>e x. q_store q' = snd (store_step (K e) x (q_store q)) \<and>
      (l = LOther e x \<or> (\<exists>i w r. x = OpDelete i \<and> l = LDelete w i r \<and>
         DeletePaste (K e) (q_store q) i = (r, q_store q'))))"
proof (induction rule: dq_step.induct)
  case (queue x q r q')
  then show ?case by (auto elim!: QueueDeletion_cases)
next
  case (receive w q x q')
  then show ?case by (auto elim!: worker_receive_cases)
next
  case (delete e w q x r q')
  from delete show ?case
  proof (cases rule: worker_delete_cases)
    case (1 db)
    then have "q_store q' = snd (store_step (K e) (OpDelete x) (q_store q)) \<and>
        DeletePaste (K e) (q_store q) x = (r, q_store q')" by simp
    then show ?thesis by blast
  qed
next
  case (exit w q q')
  then show ?case by (auto elim!: worker_exit_cases)
next
  case (shutdown q q')
  then show ?case by (auto elim!: shutdown_close_cases)
next
  case (return q b r q')
  then show ?case by (auto elim!: shutdown_return_cases)
next
  case (other e x q y db)
  then have "db = snd (store_step (K e) x (q_store q))" by simp
  then show ?case by auto
qed

lemma dq_step_inv: "dq_step K q l q' \<Longrightarrow> inv (q_store q) \<Longrightarrow> inv (q_store q')"
  using store_after_step step_inv by metis

lemma dq_run_inv: "dq_run K q ls q' \<Longrightarrow> inv (q_store q) \<Longrightarrow> inv (q_store q')"
  by (induction rule: dq_run.induct) (auto dest: dq_step_inv)

lemma dq_step_gone:
  assumes "dq_step K q l q'" "inv (q_store q)"
    and "gone (q_store q) i \<or> (\<exists>w. l = LDelete w i (Inr ()))" "\<nexists>e x. l = LOther e x \<and> saves i x"
  shows "gone (q_store q') i"
  using store_after_step [OF assms(1)]
proof (elim disjE exE conjE)
  assume "q_store q' = q_store q"
  moreover have "\<nexists>w. l = LDelete w i (Inr ()) \<and> q_store q' = q_store q \<and> \<not> gone (q_store q) i"
    using assms(1,2) by (auto elim!: dq_stepE worker_delete_cases dest: delete_gone)
  ultimately show ?thesis using assms(3) by auto
next
  fix e x
  assume "q_store q' = snd (store_step (K e) x (q_store q))" "l = LOther e x"
  then show ?thesis using assms(2-4) gone_step by auto
next
  fix e x j w r
  assume *: "q_store q' = snd (store_step (K e) x (q_store q))" "x = OpDelete j" "l = LDelete w j r"
    "DeletePaste (K e) (q_store q) j = (r, q_store q')"
  show ?thesis
  proof (cases "gone (q_store q) i")
    case True
    then show ?thesis using *(1,2) assms(2) gone_step [of "q_store q" i x e] by simp
  next
    case False
    then show ?thesis using * assms(2,3) delete_gone by auto
  qed
qed

text \<open>A paste the queue has deleted successfully stays away unless its identifier is saved again.\<close>

lemma dq_run_gone:
  "dq_run K q ls q' \<Longrightarrow> inv (q_store q) \<Longrightarrow> LDelete w i (Inr ()) \<in> set ls \<Longrightarrow>
   (\<forall>e x. LOther e x \<in> set ls \<longrightarrow> \<not> saves i x) \<Longrightarrow> gone (q_store q') i"
proof (induction rule: dq_run.induct)
  case (step ls q' l q'')
  have "inv (q_store q')" using step.hyps(1) step.prems(1) by (rule dq_run_inv)
  moreover have "gone (q_store q') i \<or> (\<exists>w. l = LDelete w i (Inr ()))"
    using step by auto
  ultimately show ?case using step by (intro dq_step_gone [OF step.hyps(2)]) auto
qed simp

end

lemma sqlite_gone_step:
  assumes "pastes db i = None" "\<not> saves i x"
  shows "pastes (snd (store_step (sqlite_backend e) x db)) i = None"
proof (cases x)
  case (OpSave j c n b p)
  have "pastes db' i = None" if "sqlite_SavePaste e db j c n b p = (r, db')" for r db'
    using that
    by (cases rule: sqlite_SavePaste_cases)
       (use assms OpSave in \<open>auto simp: insert_paste_def insert_hash_or_ignore_def split: if_splits\<close>)
  then show ?thesis using OpSave by (auto split: prod.splits)
next
  case (OpGet j)
  then show ?thesis using assms
    by (auto simp: insert_burned_or_ignore_def split: prod.splits if_splits dest!: sqlite_get_state)
next
  case (OpDelete j)
  then show ?thesis using assms by (auto simp: sqlite_DeletePaste_def delete_paste_def)
qed (use assms in \<open>auto simp: sqlite_MarkBurned_def sqlite_BanContentHash_def sqlite_BanPlaintextHash_def
      upsert_ban_def Let_def insert_burned_or_ignore_def split: prod.splits option.splits if_splits\<close>)

lemma pg_gone_step:
  assumes "db_ok db" "pastes db i = None" "\<not> saves i x"
  shows "pastes (snd (store_step (pg_backend e) x db)) i = None"
proof (cases x)
  case (OpSave j c n b p)
  have "pastes db' i = None" if "pg_SavePaste e db j c n b p = (r, db')" for r db'
    using that
    by (cases rule: pg_SavePaste_cases)
       (use assms OpSave in \<open>auto simp: insert_paste_def insert_hash_or_ignore_def split: if_splits\<close>)
  then show ?thesis using OpSave by (auto split: prod.splits)
next
  case (OpGet j)
  then show ?thesis using assms
    by (auto simp: insert_burned_or_ignore_def split: prod.splits if_splits dest!: pg_get_state)
next
  case (OpDelete j)
  then show ?thesis using assms
    by (auto simp: pg_DeletePaste_eq sqlite_DeletePaste_def delete_paste_def)
qed (use assms in \<open>auto simp: pg_unit_ops upsert_ban_def Let_def insert_burned_or_ignore_def
      split: prod.splits option.splits if_splits\<close>)

interpretation sqlite_queue: deleting_store sqlite_backend db_ok sql_pending sql_spent "\<lambda>db i. pastes db i = None"
  by unfold_locales
     (auto intro: sqlite_gone_step simp: sqlite_DeletePaste_def delete_paste_def split: if_splits)

interpretation postgres_queue: deleting_store pg_backend db_ok sql_pending sql_spent "\<lambda>db i. pastes db i = None"
  by unfold_locales
     (auto intro: pg_gone_step simp: pg_DeletePaste_eq sqlite_DeletePaste_def delete_paste_def split: if_splits)

subsection \<open>A shutdown that returned nil\<close>

lemma all_stopped_step:
  assumes "dq_step K q l q'" "all_stopped q"
  shows "all_stopped q'"
  using assms
proof (induction rule: dq_step.induct)
  case (queue x q r q')
  then show ?case by (auto simp: all_stopped_def elim!: QueueDeletion_cases)
next
  case (receive w q x q')
  then show ?case by (fastforce simp: all_stopped_def list_all_length elim!: worker_receive_cases)
next
  case (delete e w q x r q')
  then show ?case by (fastforce simp: all_stopped_def list_all_length elim!: worker_delete_cases)
next
  case (exit w q q')
  then show ?case by (fastforce simp: all_stopped_def list_all_length elim!: worker_exit_cases)
next
  case (shutdown q q')
  then show ?case by (auto simp: all_stopped_def elim!: shutdown_close_cases)
next
  case (return q b r q')
  from return(2) return(3) show ?case by (cases rule: shutdown_return_cases) (simp add: all_stopped_def)
qed (simp add: all_stopped_def)

lemma returned_all_stopped: "dq_run K q ls q' \<Longrightarrow> LReturn None \<in> set ls \<Longrightarrow> all_stopped q'"
proof (induction rule: dq_run.induct)
  case (step ls q' l q'')
  show ?case
  proof (cases "LReturn None \<in> set ls")
    case True
    then show ?thesis using step.IH all_stopped_step [OF step.hyps(2)] by blast
  next
    case False
    then have "l = LReturn None" using step.prems by simp
    then show ?thesis using step.hyps(2)
      by (auto simp: all_stopped_def elim!: dq_stepE shutdown_return_cases)
  qed
qed simp

lemma new_queue [simp]:
  "held (NewDeletionQueue db n) = {#}" "q_workers (NewDeletionQueue db n) \<noteq> []"
  "q_store (NewDeletionQueue db n) = db"
proof -
  have "\<Sum>\<^sub># (mset (map held_by (replicate m Idle))) = {#}" for m by (induction m) simp_all
  then show "held (NewDeletionQueue db n) = {#}"
    by (simp add: held_def NewDeletionQueue_def Let_def)
qed (simp_all add: NewDeletionQueue_def Let_def)

lemma graceful_shutdown_lemma:
  assumes "dq_run K (NewDeletionQueue db n) ls q" "LReturn None \<in> set ls"
  shows "accepted ls = deleted ls"
proof -
  have ok: "dq_ok q" and n: "length (q_workers q) = length (q_workers (NewDeletionQueue db n))"
    using dq_ok_run [OF assms(1) dq_ok_new] by simp_all
  from n have "q_workers q \<noteq> []" by (metis length_0_conv new_queue(2))
  with ok have "held q = {#}"
    using stopped_holds_nothing returned_all_stopped [OF assms] by blast
  with held_run [OF assms(1)] show ?thesis by simp
qed

lemma deleted_label: "x \<in># deleted ls \<longleftrightarrow> (\<exists>w r. LDelete w x r \<in> set ls)"
proof (induction ls rule: rev_induct)
  case (snoc l ls)
  then show ?case by (cases l) auto
qed simp

lemma label_sums_append: "accepted (ls @ ms) = accepted ls + accepted ms" "deleted (ls @ ms) = deleted ls + deleted ms"
  by (simp_all add: accepted_def deleted_def)

lemma accepted_head: "i \<in># accepted (LQueue i None # ls)"
  by (simp add: accepted_def)

text \<open>A run used as a witness: one worker deletes one paste and the queue shuts down.\<close>

definition example_labels :: "'e dq_label list" where
  "example_labels = [LQueue ''a'' None, LReceive 0 ''a'', LDelete 0 ''a'' (Inr ()), LShutdown, LExit 0,
     LReturn None]"

lemma example_run_from:
  assumes "sqlite_DeletePaste e db ''a'' = (Inr (), db')"
  shows "\<exists>q. dq_run sqlite_backend (NewDeletionQueue db 1) example_labels q"
proof -
  let ?K = "sqlite_backend :: env \<Rightarrow> sqldb backend" and ?q0 = "NewDeletionQueue db 1"
  define q1 where "q1 = ?q0\<lparr>q_tasks := (q_tasks ?q0)\<lparr>ch_buffer := [''a'']\<rparr>\<rparr>"
  define q2 where "q2 = set_worker 0 (Busy ''a'') (q1\<lparr>q_tasks := (q_tasks q1)\<lparr>ch_buffer := []\<rparr>\<rparr>)"
  define q3 where "q3 = set_worker 0 Idle (q2\<lparr>q_store := db'\<rparr>)"
  define q4 where "q4 = q3\<lparr>q_closed := True, q_tasks := (q_tasks q3)\<lparr>ch_closed := True\<rparr>\<rparr>"
  define q5 where "q5 = set_worker 0 Stopped q4"
  note q0 = NewDeletionQueue_def queue_buffer_def
  have 1: "dq_step ?K ?q0 (LQueue ''a'' None) q1"
    by (rule dq_step.queue) (simp add: QueueDeletion_def chan_try_send_def q1_def q0)
  have 2: "dq_step ?K q1 (LReceive 0 ''a'') q2"
    by (rule dq_step.receive) (simp add: worker_receive_def worker_at_def q2_def q1_def q0)
  have 3: "dq_step ?K q2 (LDelete 0 ''a'' (Inr ())) q3"
    by (rule dq_step.delete [where e = e])
       (simp add: worker_delete_def assms q3_def q2_def q1_def q0)
  have 4: "dq_step ?K q3 LShutdown q4"
    by (rule dq_step.shutdown) (simp add: shutdown_close_def chan_close_def q4_def q3_def q2_def q1_def q0)
  have 5: "dq_step ?K q4 (LExit 0) q5"
    by (rule dq_step.exit) (simp add: worker_exit_def worker_at_def q5_def q4_def q3_def q2_def q1_def q0)
  have 6: "dq_step ?K q5 (LReturn None) (q5\<lparr>q_cancelled := True\<rparr>)"
    by (rule dq_step.return [where b = False])
       (simp_all add: shutdown_return_def all_stopped_def q5_def q4_def q3_def q2_def q1_def q0)
  have "dq_run ?K ?q0 (((((([] @ [LQueue ''a'' None]) @ [LReceive 0 ''a'']) @ [LDelete 0 ''a'' (Inr ())])
      @ [LShutdown]) @ [LExit 0]) @ [LReturn None]) (q5\<lparr>q_cancelled := True\<rparr>)"
    by (rule dq_run.step [OF dq_run.step [OF dq_run.step [OF dq_run.step [OF dq_run.step
          [OF dq_run.step [OF dq_run.start 1] 2] 3] 4] 5] 6])
  then show ?thesis by (auto simp: example_labels_def)
qed

definition still_env :: env where
  "still_env = \<lparr>now = 0, db_now = 0, fails = (\<lambda>q. False)\<rparr>"

lemma quiet_delete: "\<exists>db'. sqlite_DeletePaste still_env db i = (Inr (), db')"
  by (simp add: sqlite_DeletePaste_def still_env_def)

lemma example_run: "\<exists>q. dq_run sqlite_backend (NewDeletionQueue empty_db 1) example_labels q"
  using quiet_delete [of empty_db "''a''"] example_run_from by blast

subsection \<open>Properties\<close>

text \<open>C11: A graceful shutdown loses no deletion. Along any interleaving of requests, workers and
  shutdown from a new queue, if some \<^verbatim>\<open>Shutdown\<close> has returned nil then the identifiers the queue
  accepted are exactly those for which a worker called \<^verbatim>\<open>DeletePaste\<close>, each as often as it was
  accepted.\<close>

theorem graceful_shutdown_complete:
  assumes "dq_run K (NewDeletionQueue db n) ls q" "LReturn None \<in> set ls"
  shows "accepted ls = deleted ls"
  using assms by (rule graceful_shutdown_lemma)

theorem graceful_shutdown_complete_witness:
  "\<exists>q. dq_run sqlite_backend (NewDeletionQueue empty_db 1) example_labels q \<and>
     accepted (example_labels :: env dq_label list) = deleted (example_labels :: env dq_label list)"
proof -
  obtain q where q: "dq_run sqlite_backend (NewDeletionQueue empty_db 1) example_labels q"
    using example_run by blast
  have "accepted (example_labels :: env dq_label list) = deleted (example_labels :: env dq_label list)"
    by (rule graceful_shutdown_complete [OF q]) (simp add: example_labels_def)
  with q show ?thesis by blast
qed

text \<open>C12: The queue is bounded and never panics. Along any run from a new queue at most 1000
  identifiers are buffered, the number of workers stays what it was at the start, every accepted
  identifier is deleted, buffered or in a worker's hands, and neither \<^verbatim>\<open>QueueDeletion\<close> nor a further
  \<^verbatim>\<open>Shutdown\<close> can send on or close a closed channel.\<close>

theorem queue_bounded:
  assumes "dq_run K (NewDeletionQueue db n) ls q"
  shows "length (ch_buffer (q_tasks q)) \<le> 1000 \<and>
    length (q_workers q) = (if n \<le> 0 then 10 else nat n) \<and>
    accepted ls = held q + deleted ls \<and>
    QueueDeletion x q \<noteq> None \<and> shutdown_close q \<noteq> None"
proof -
  have ok: "dq_ok q" and w: "length (q_workers q) = length (q_workers (NewDeletionQueue db n))"
    using dq_ok_run [OF assms dq_ok_new] by simp_all
  have "accepted ls = held q + deleted ls" using held_run [OF assms] by simp
  then show ?thesis
    using ok w
    by (auto simp: dq_ok_def queue_buffer_def QueueDeletion_def chan_try_send_def shutdown_close_def
        chan_close_def NewDeletionQueue_def Let_def)
qed

theorem queue_bounded_witness:
  "\<exists>q. dq_run sqlite_backend (NewDeletionQueue empty_db 1) example_labels q \<and>
     length (ch_buffer (q_tasks q)) \<le> 1000 \<and> QueueDeletion ''b'' q \<noteq> None"
proof -
  obtain q where q: "dq_run sqlite_backend (NewDeletionQueue empty_db 1) example_labels q"
    using example_run by blast
  from queue_bounded [OF this, of "''b''"] q show ?thesis by blast
qed

text \<open>Draining terminates. Once the queue is closed, however requests interleave, the workers take
  at most twice the buffer plus two steps per worker in total, and as long as one of them has not
  returned some worker can take its next step.\<close>

theorem shutdown_drains:
  assumes "dq_ok q" "q_closed q" "dq_run K q ls q'"
  shows "length (filter worker_label ls) \<le> 2 * length (ch_buffer (q_tasks q)) + 2 * length (q_workers q) \<and>
    (all_stopped q' \<or> (\<exists>l q''. worker_label l \<and> dq_step K q' l q''))"
proof -
  have "sum_list (map worker_work ws) \<le> 2 * length ws" for ws
  proof (induction ws)
    case (Cons a ws)
    then show ?case by (cases a) simp_all
  qed simp
  then have "work_left q \<le> 2 * length (ch_buffer (q_tasks q)) + 2 * length (q_workers q)"
    by (simp add: work_left_def)
  moreover have "q_closed q'" "length (filter worker_label ls) + work_left q' \<le> work_left q"
    using work_run [OF assms(3,2)] by simp_all
  moreover have "dq_ok q'" using dq_ok_run [OF assms(3,1)] by simp
  ultimately show ?thesis using worker_progress [of q' K] by auto
qed

theorem shutdown_drains_witness:
  "\<exists>q. q_closed q \<and> ch_buffer (q_tasks q) = [''a''] \<and>
     (\<exists>l q''. worker_label l \<and> dq_step sqlite_backend q (l :: env dq_label) q'')"
proof -
  let ?q = "\<lparr>q_tasks = \<lparr>ch_buffer = [''a''], ch_capacity = 1000, ch_closed = True\<rparr>, q_workers = [Idle],
    q_closed = True, q_cancelled = False, q_store = empty_db\<rparr>"
  have ok: "dq_ok ?q" by (simp add: dq_ok_def queue_buffer_def)
  have c: "q_closed ?q" by simp
  from shutdown_drains [OF ok c dq_run.start, of sqlite_backend]
  have "\<exists>l q''. worker_label l \<and> dq_step sqlite_backend ?q (l :: env dq_label) q''"
    by (simp add: all_stopped_def)
  then show ?thesis by (intro exI [of _ ?q]) simp
qed

text \<open>C13: What the queue accepted is gone. On the SQLite backend, once the queue has accepted the deletion of a paste,
  be it one that was saved while the server was running, and a shutdown has returned nil, then the paste is not
  stored any more, if the deletions of it since then reported success and nobody has saved the identifier again since then.
  Nothing is assumed of the calls before the acceptance or of those for other pastes.\<close>

theorem shutdown_pastes_gone:
  assumes "db_ok db" "dq_run sqlite_backend (NewDeletionQueue db n) (ls @ LQueue i None # ls') q"
    and "LReturn None \<in> set (ls @ LQueue i None # ls')"
    and "\<forall>w r. LDelete w i r \<in> set ls' \<longrightarrow> r = Inr ()" "\<forall>e x. LOther e x \<in> set ls' \<longrightarrow> \<not> saves i x"
  shows "pastes (q_store q) i = None"
proof -
  obtain q1 where q1: "dq_run sqlite_backend (NewDeletionQueue db n) ls q1" "dq_run sqlite_backend q1 (LQueue i None # ls') q"
    using dq_run_split [OF assms(2)] by blast
  have "accepted ls + accepted (LQueue i None # ls') = deleted ls + deleted (LQueue i None # ls')"
    using graceful_shutdown_lemma [OF assms(2,3)] by (simp add: label_sums_append)
  moreover have "accepted ls = held q1 + deleted ls" using held_run [OF q1(1)] by simp
  ultimately have "held q1 + accepted (LQueue i None # ls') = deleted (LQueue i None # ls')"
    by (simp add: ac_simps)
  then have "i \<in># deleted (LQueue i None # ls')" by (metis accepted_head union_iff)
  then obtain w where "LDelete w i (Inr ()) \<in> set (LQueue i None # ls')"
    using assms(4) deleted_label [of i "LQueue i None # ls'"] by auto
  moreover have "db_ok (q_store q1)" using sqlite_queue.dq_run_inv [OF q1(1)] assms(1) by simp
  ultimately show ?thesis using sqlite_queue.dq_run_gone [OF q1(2), of w i] assms(5) by auto
qed

text \<open>A paste saved while the queue is open, accepted, deleted and gone.\<close>

theorem shutdown_pastes_gone_witness:
  "\<exists>db1 q. snd (store_step (sqlite_backend still_env) (OpSave ''a'' ''QQ=='' 60 False False) empty_db) = db1 \<and>
     pastes db1 ''a'' \<noteq> None \<and>
     dq_run sqlite_backend (NewDeletionQueue empty_db 1)
       (LOther still_env (OpSave ''a'' ''QQ=='' 60 False False) # example_labels) q \<and> pastes (q_store q) ''a'' = None"
proof -
  let ?x = "OpSave ''a'' ''QQ=='' 60 False False" and ?q0 = "NewDeletionQueue empty_db 1"
  obtain y db1 where s: "store_step (sqlite_backend still_env) ?x empty_db = (y, db1)" by fastforce
  then have saved: "pastes db1 ''a'' \<noteq> None"
    by (auto simp: sqlite_SavePaste_def sqlite_hashes_def sqlite_isHashBanned_def has_ban_def insert_paste_def
        insert_hash_or_ignore_def empty_db_def Let_def still_env_def)
  have "?q0\<lparr>q_store := db1\<rparr> = NewDeletionQueue db1 1" by (simp add: NewDeletionQueue_def Let_def)
  moreover have "dq_step sqlite_backend ?q0 (LOther still_env ?x) (?q0\<lparr>q_store := db1\<rparr>)"
    by (rule dq_step.other [of _ _ _ _ y]) (simp only: s new_queue(3))
  ultimately have "dq_run sqlite_backend ?q0 ([] @ [LOther still_env ?x]) (NewDeletionQueue db1 1)"
    using dq_run.start by (metis dq_run.step)
  moreover obtain q where "dq_run sqlite_backend (NewDeletionQueue db1 1) example_labels q"
    using quiet_delete [of db1 "''a''"] example_run_from by blast
  ultimately have run: "dq_run sqlite_backend ?q0
      ([LOther still_env ?x] @ LQueue ''a'' None # tl example_labels) q"
    using dq_run_append by (fastforce simp: example_labels_def)
  have "pastes (q_store q) ''a'' = None"
    by (rule shutdown_pastes_gone [OF db_ok_empty run]) (auto simp: example_labels_def)
  then show ?thesis using s saved run by (auto simp: example_labels_def)
qed

end
