(* ===== verification/Validation.thy ===== *)
theory Validation
  imports Models
begin

text \<open>
  \<^verbatim>\<open>src/validation.go\<close>, \<^verbatim>\<open>src/utils/id.go\<close> and the request model of \<^verbatim>\<open>src/models/invoice.go\<close>:
  the limits of the service, the validators of requests and identifiers, the sanitizer, the error
  responses, and the generator of identifiers. Go's nil error is \<^const>\<open>None\<close>.
\<close>

subsection \<open>Responses\<close>

text \<open>A response as the client sees it: the headers are those set before the status is written.\<close>

record http_response =
  http_status :: int
  http_headers :: "string \<rightharpoonup> string"
  http_body :: string

text \<open>\<^verbatim>\<open>json.NewEncoder(w).Encode(v)\<close> writes the encoding and a line feed.\<close>

definition json_response :: "int \<Rightarrow> (string \<rightharpoonup> string) \<Rightarrow> json \<Rightarrow> http_response" where
  "json_response st hs v = \<lparr>http_status = st, http_headers = hs(''Content-Type'' \<mapsto> ''application/json''),
     http_body = json_encode v @ [CHR 10]\<rparr>"

definition WriteSimpleError :: "string \<Rightarrow> int \<Rightarrow> http_response" where
  "WriteSimpleError message st = json_response st Map.empty (JObj [(''error'', JStr message)])"

definition validation_error_json :: "validation_error \<Rightarrow> json" where
  "validation_error_json e = JObj [(''field'', JStr (ve_field e)), (''message'', JStr (ve_message e))]"

text \<open>A nil slice is encoded as \<^verbatim>\<open>null\<close>.\<close>

definition WriteValidationError :: "validation_error list \<Rightarrow> http_response" where
  "WriteValidationError es = json_response 400 Map.empty
     (JObj [(''errors'', if es = [] then JNull else JArr (map validation_error_json es))])"

subsection \<open>Limits and validators\<close>

definition MaxCiphertextSizeEncrypted :: nat where "MaxCiphertextSizeEncrypted = 393216"
definition MaxCiphertextSizeUnencrypted :: nat where "MaxCiphertextSizeUnencrypted = 524288"
definition MaxCiphertextSize :: nat where "MaxCiphertextSize = 10 * 1024 * 1024"
definition MaxBase64Size :: nat where "MaxBase64Size = MaxCiphertextSize * 4 div 3"
definition MinCiphertextSize :: nat where "MinCiphertextSize = 1"
definition MaxExpirySeconds :: int where "MaxExpirySeconds = 30 * 24 * 60 * 60"
definition MinExpirySeconds :: int where "MinExpirySeconds = 60"
definition maxFreeTierExpirySeconds :: int where "maxFreeTierExpirySeconds = 7 * 24 * 60 * 60"

lemmas limits = MaxCiphertextSizeEncrypted_def MaxCiphertextSizeUnencrypted_def MaxCiphertextSize_def
  MaxBase64Size_def MinCiphertextSize_def MaxExpirySeconds_def MinExpirySeconds_def
  maxFreeTierExpirySeconds_def

text \<open>The four encodings are tried in this order; the first that decodes decides.\<close>

definition decode_any :: "string \<Rightarrow> string option" where
  "decode_any s =
     (case b64_decode StdEncoding s of Some d \<Rightarrow> Some d
      | None \<Rightarrow>
          (case b64_decode URLEncoding s of Some d \<Rightarrow> Some d
           | None \<Rightarrow>
               (case b64_decode RawStdEncoding s of Some d \<Rightarrow> Some d
                | None \<Rightarrow> b64_decode RawURLEncoding s)))"

definition ValidateBase64 :: "string \<Rightarrow> string \<Rightarrow> string option" where
  "ValidateBase64 s field =
     (if s = [] then Some (field @ '' is required'')
      else if length s > MaxBase64Size then Some (field @ '' exceeds maximum size of 10MB'')
      else (case decode_any s of
              None \<Rightarrow> Some (field @ '' contains invalid base64 encoding'')
            | Some d \<Rightarrow>
                if length d < MinCiphertextSize then Some (field @ '' is too small'')
                else if length d > MaxCiphertextSize
                  then Some (field @ '' exceeds maximum decoded size of 10MB'')
                else None))"

definition ValidateExpirySeconds :: "int \<Rightarrow> string option" where
  "ValidateExpirySeconds expiry =
     (if expiry < MinExpirySeconds
        then Some (''expiry must be at least '' @ itoa MinExpirySeconds @ '' seconds'')
      else if expiry > MaxExpirySeconds
        then Some (''expiry cannot exceed '' @ itoa MaxExpirySeconds @ '' seconds (30 days)'')
      else None)"

definition ValidatePasteID :: "string \<Rightarrow> string option" where
  "ValidatePasteID i =
     (if i = [] then Some ''paste ID is required''
      else if \<not> id_pattern i then Some ''invalid paste ID format''
      else None)"

text \<open>The rune mapping drops the control characters other than tab, line feed and return.\<close>

definition drop_control :: "nat \<Rightarrow> nat option" where
  "drop_control r = (if r < 32 \<and> r \<noteq> 9 \<and> r \<noteq> 10 \<and> r \<noteq> 13 then None else Some r)"

definition SanitizeString :: "string \<Rightarrow> string" where
  "SanitizeString s = trim_space (strings_map drop_control s)"

text \<open>\<^verbatim>\<open>rand.Read\<close> fills 32 bytes or fails.\<close>

definition GenerateID :: "string option \<Rightarrow> string option" where
  "GenerateID random = map_option (b64_encode RawURLEncoding) random"

subsection \<open>Requests\<close>

definition validation_error_if :: "bool \<Rightarrow> string \<Rightarrow> string \<Rightarrow> validation_error list" where
  "validation_error_if b f m = (if b then [\<lparr>ve_field = f, ve_message = m\<rparr>] else [])"

definition error_of :: "string \<Rightarrow> string option \<Rightarrow> validation_error list" where
  "error_of f r = (case r of None \<Rightarrow> [] | Some m \<Rightarrow> [\<lparr>ve_field = f, ve_message = m\<rparr>])"

lemma validation_error_if_Nil [simp]: "validation_error_if b f m = [] \<longleftrightarrow> \<not> b"
  by (simp add: validation_error_if_def)

lemma error_of_Nil [simp]: "error_of f r = [] \<longleftrightarrow> r = None"
  by (simp add: error_of_def split: option.splits)

definition validateCreatePasteRequest :: "create_paste_request \<Rightarrow> validation_error list" where
  "validateCreatePasteRequest r =
     (if ciphertext r = [] \<and> plaintext r = []
      then [\<lparr>ve_field = ''content'', ve_message = ''either ciphertext or plaintext is required''\<rparr>]
      else validation_error_if (ciphertext r \<noteq> [] \<and> plaintext r \<noteq> []) ''content''
             ''cannot provide both ciphertext and plaintext''
         @ (if ciphertext r \<noteq> [] then error_of ''ciphertext'' (ValidateBase64 (ciphertext r) ''ciphertext'') else [])
         @ (if plaintext r \<noteq> []
            then validation_error_if (length (plaintext r) > MaxCiphertextSizeUnencrypted) ''plaintext''
                   ''plaintext exceeds 512KB limit'' else [])
         @ error_of ''expiry_seconds'' (ValidateExpirySeconds (expiry_seconds r)))"

text \<open>
  The amount is the rational value of the decoded \<^verbatim>\<open>float64\<close> (JSON has no infinities or NaN);
  the metadata map is nil when absent, and a decoded map always marshals.
\<close>

record create_invoice_request =
  inv_amount :: rat
  inv_currency :: string
  inv_order_id :: string
  inv_buyer_email :: string
  inv_metadata :: "(string \<times> json) list option"
  inv_expiration_minutes :: int

definition defaultInvoiceExpirationMinutes :: int where "defaultInvoiceExpirationMinutes = 30"
definition minInvoiceExpirationMinutes :: int where "minInvoiceExpirationMinutes = 5"
definition maxInvoiceExpirationMinutes :: int where "maxInvoiceExpirationMinutes = 24 * 60"
definition maxInvoiceMetadataBytes :: nat where "maxInvoiceMetadataBytes = 2048"

lemmas invoice_limits = minInvoiceExpirationMinutes_def maxInvoiceExpirationMinutes_def
  defaultInvoiceExpirationMinutes_def maxInvoiceMetadataBytes_def

definition validateCreateInvoiceRequest :: "create_invoice_request \<Rightarrow> validation_error list" where
  "validateCreateInvoiceRequest r =
     validation_error_if (inv_amount r \<le> 0) ''amount'' ''amount must be greater than zero''
     @ validation_error_if (inv_amount r > 1000000) ''amount'' ''amount exceeds maximum supported value''
     @ (if inv_currency r = [] then [\<lparr>ve_field = ''currency'', ve_message = ''currency is required''\<rparr>]
        else validation_error_if (length (inv_currency r) \<noteq> 3) ''currency''
               ''currency must be a 3-letter ISO code'')
     @ validation_error_if (inv_expiration_minutes r < minInvoiceExpirationMinutes \<or>
           inv_expiration_minutes r > maxInvoiceExpirationMinutes) ''expiration_minutes''
         (''expiration_minutes must be between '' @ itoa minInvoiceExpirationMinutes @ '' and '' @
            itoa maxInvoiceExpirationMinutes)
     @ (case inv_metadata r of
          None \<Rightarrow> []
        | Some m \<Rightarrow> validation_error_if (length (json_encode (JObj m)) > maxInvoiceMetadataBytes) ''metadata''
            ''metadata exceeds maximum size'')"

subsection \<open>Content\<close>

lemma decode_any_small: "decode_any s = Some d \<Longrightarrow> 4 * length d \<le> 3 * length s"
  by (auto simp: decode_any_def dest: length_b64_decode split: option.splits)

lemma decode_any_fits:
  assumes "length s \<le> MaxBase64Size" "decode_any s = Some d"
  shows "length d \<le> 10485759"
proof -
  have "4 * length d \<le> 3 * 13981013"
    using decode_any_small [OF assms(2)] assms(1) by (simp add: limits)
  then show ?thesis by simp
qed

lemma ValidateBase64_ok:
  "ValidateBase64 s f = None \<longleftrightarrow>
     s \<noteq> [] \<and> length s \<le> MaxBase64Size \<and> (\<exists>d. decode_any s = Some d \<and> d \<noteq> [])"
proof (cases "s \<noteq> [] \<and> length s \<le> MaxBase64Size")
  case True
  then have "length d \<le> MaxCiphertextSize" if "decode_any s = Some d" for d
    using decode_any_fits [of s d] that by (simp add: MaxCiphertextSize_def)
  then show ?thesis using True
    by (auto simp: ValidateBase64_def MinCiphertextSize_def Suc_le_eq split: option.splits)
qed (auto simp: ValidateBase64_def)

lemma ValidateBase64_std:
  "b64_decode StdEncoding s = Some d \<Longrightarrow> d \<noteq> [] \<Longrightarrow> s \<noteq> [] \<Longrightarrow> length s \<le> MaxBase64Size \<Longrightarrow>
   ValidateBase64 s f = None"
  by (simp add: ValidateBase64_ok decode_any_def)

subsection \<open>Sanitized text\<close>

text \<open>Bytes that may stand in a sanitized string.\<close>

definition printable :: "char \<Rightarrow> bool" where
  "printable c \<longleftrightarrow> 32 \<le> byte c \<or> byte c \<in> {9, 10, 13}"

lemma strip_prefix_of_suffix: "strip_prefix_of ps s = Some t \<Longrightarrow> \<exists>u. s = u @ t"
  by (induction ps) (auto simp: has_prefix_iff split: if_splits)

lemma trim_left_of_suffix: "\<exists>u. s = u @ trim_left_of ps s"
proof (induction ps s rule: trim_left_of.induct)
  case (1 ps s)
  show ?case
  proof (cases "strip_prefix_of ps s")
    case None
    then show ?thesis by (simp add: trim_left_of_None)
  next
    case (Some t)
    then obtain u v where "s = u @ t" "t = v @ trim_left_of ps t"
      using strip_prefix_of_suffix 1 by meson
    then have "s = (u @ v) @ trim_left_of ps t" by simp
    moreover have "trim_left_of ps s = trim_left_of ps t"
      using Some by (subst trim_left_of.simps) simp
    ultimately show ?thesis by metis
  qed
qed

lemma trim_left_of_stuck: "strip_prefix_of ps (trim_left_of ps s) = None"
proof (induction ps s rule: trim_left_of.induct)
  case (1 ps s)
  then show ?case
    by (cases "strip_prefix_of ps s") (simp_all add: trim_left_of_None trim_left_of.simps [of ps s])
qed

text \<open>Trimming keeps a contiguous part of the text.\<close>

lemma trim_space_part: "\<exists>u v. s = u @ trim_space s @ v"
proof -
  let ?t = "trim_left_of unicode_spaces s"
  obtain u where u: "s = u @ ?t" using trim_left_of_suffix by blast
  obtain v where "rev ?t = v @ trim_left_of (map rev unicode_spaces) (rev ?t)"
    using trim_left_of_suffix by blast
  then have "?t = trim_space s @ rev v" by (metis rev_append rev_rev_ident trim_space_def)
  with u show ?thesis by metis
qed

lemma encode_rune_printable:
  assumes "\<not> (r < 32 \<and> r \<noteq> 9 \<and> r \<noteq> 10 \<and> r \<noteq> 13)"
  shows "list_all printable (encode_rune r)"
proof (cases "r < 128")
  case True
  then show ?thesis using assms by (auto simp: encode_rune.simps printable_def)
next
  case False
  have b: "32 \<le> byte (char_of (128 + k mod 64 :: nat))" for k :: nat by simp
  have c: "32 \<le> byte (char_of (192 + r div 64))" if "r < 2048"
    using that by simp
  have d: "32 \<le> byte (char_of (224 + r div 4096))" if "r < 65536"
    using that by simp
  have e: "32 \<le> byte (char_of (240 + r div 262144))" if "\<not> 1114111 < r"
    using that by simp
  show ?thesis using False b c d e
    by (simp add: encode_rune.simps printable_def)
qed

lemma strings_map_printable: "list_all printable (strings_map drop_control s)"
proof (induction drop_control s rule: strings_map.induct)
  case (1 s)
  show ?case
  proof (cases "s = []")
    case True
    then show ?thesis by (simp add: strings_map.simps)
  next
    case False
    have "list_all printable (case drop_control (fst (decode_rune s)) of None \<Rightarrow> [] | Some r \<Rightarrow> encode_rune r)"
      by (auto simp: drop_control_def intro!: encode_rune_printable split: option.splits if_splits)
    with False 1 show ?thesis by (subst strings_map.simps) simp
  qed
qed

definition trimmed :: "string \<Rightarrow> bool" where
  "trimmed s \<longleftrightarrow> strip_prefix_of unicode_spaces s = None \<and>
     strip_prefix_of (map rev unicode_spaces) (rev s) = None"

lemma strip_prefix_of_append: "strip_prefix_of ps (s @ t) = None \<Longrightarrow> strip_prefix_of ps s = None"
  by (induction ps) (auto simp: has_prefix_iff split: if_splits)

lemma trim_space_trimmed: "trimmed (trim_space s)"
proof -
  let ?t = "trim_left_of unicode_spaces s"
  obtain v where "rev ?t = v @ trim_left_of (map rev unicode_spaces) (rev ?t)"
    using trim_left_of_suffix by blast
  then have "?t = trim_space s @ rev v" by (metis rev_append rev_rev_ident trim_space_def)
  moreover have "strip_prefix_of unicode_spaces ?t = None" by (rule trim_left_of_stuck)
  ultimately have "strip_prefix_of unicode_spaces (trim_space s) = None"
    by (metis strip_prefix_of_append)
  moreover have "strip_prefix_of (map rev unicode_spaces) (rev (trim_space s)) = None"
    by (simp add: trim_space_def trim_left_of_stuck)
  ultimately show ?thesis by (simp add: trimmed_def)
qed

lemma SanitizeString_printable: "list_all printable (SanitizeString s)"
proof -
  obtain u v where "strings_map drop_control s = u @ SanitizeString s @ v"
    using trim_space_part unfolding SanitizeString_def by blast
  then show ?thesis using strings_map_printable [of s] by simp
qed

lemma SanitizeString_id: "id_pattern i \<Longrightarrow> SanitizeString i = i"
proof -
  assume i: "id_pattern i"
  have "strings_map drop_control i = i"
  proof (rule strings_map_ascii_id [OF id_pattern_ascii [OF i]])
    fix c
    assume "c \<in> set i"
    then show "drop_control (byte c) = Some (byte c)"
      using i by (auto simp: id_pattern_def list_all_iff id_char_def drop_control_def)
  qed
  then show ?thesis using i by (simp add: SanitizeString_def trim_space_solid id_pattern_solid)
qed

lemma ValidatePasteID_iff [simp]: "ValidatePasteID i = None \<longleftrightarrow> id_pattern i"
  by (auto simp: ValidatePasteID_def id_pattern_def)

subsection \<open>Identifiers\<close>

lemma GenerateID_pattern:
  assumes "length b = 32"
  shows "id_pattern (b64_encode RawURLEncoding b)"
proof -
  have "set (b64_encode RawURLEncoding b) \<subseteq> set url_alphabet"
    using b64_encode_chars [OF good_encodings(4), of b] by (simp add: RawURLEncoding_def)
  moreover have "length (b64_encode RawURLEncoding b) = 43"
    using assms by (simp add: length_b64_encode_raw RawURLEncoding_def)
  ultimately show ?thesis
    using url_alphabet_id_chars by (auto simp: id_pattern_def list_all_iff)
qed

subsection \<open>Properties\<close>

text \<open>C15: Every identifier the service generates is accepted by its own validators. From 32 random
  bytes \<^verbatim>\<open>GenerateID\<close> makes a 43-character identifier that the sanitizer leaves alone and
  \<^verbatim>\<open>ValidatePasteID\<close> accepts, and from which the random bytes can be read back, so that no entropy
  is lost.\<close>

theorem generated_id_valid:
  assumes "length b = 32"
  shows "\<exists>i. GenerateID (Some b) = Some i \<and> length i = 43 \<and> SanitizeString i = i \<and>
    ValidatePasteID i = None \<and> b64_decode RawURLEncoding i = Some b"
  using GenerateID_pattern [OF assms]
  by (simp add: GenerateID_def b64_roundtrip SanitizeString_id id_pattern_def)

theorem generated_id_valid_witness:
  "\<exists>i. GenerateID (Some (replicate 32 (CHR ''x''))) = Some i \<and> length i = 43 \<and> SanitizeString i = i \<and>
    ValidatePasteID i = None \<and> b64_decode RawURLEncoding i = Some (replicate 32 (CHR ''x''))"
  by (rule generated_id_valid) simp

text \<open>Which content the base64 check accepts: non-empty text of at most 13981013 characters that
  the first matching of the four encodings decodes to at least one byte. The decoded bytes then
  number at most 10485759, one less than the limit on them, so the check of the decoded size never
  fires.\<close>

theorem ValidateBase64_accepts:
  "(ValidateBase64 s f = None \<longleftrightarrow>
      s \<noteq> [] \<and> length s \<le> 13981013 \<and>
      (\<exists>d. decode_any s = Some d \<and> 1 \<le> length d \<and> length d \<le> 10485759)) \<and>
   ValidateBase64 s f \<noteq> Some (f @ '' exceeds maximum decoded size of 10MB'')"
proof (rule conjI)
  show "ValidateBase64 s f = None \<longleftrightarrow>
      s \<noteq> [] \<and> length s \<le> 13981013 \<and>
      (\<exists>d. decode_any s = Some d \<and> 1 \<le> length d \<and> length d \<le> 10485759)"
    using decode_any_fits [of s]
    by (auto simp: ValidateBase64_ok MaxBase64Size_def MaxCiphertextSize_def Suc_le_eq)
  show "ValidateBase64 s f \<noteq> Some (f @ '' exceeds maximum decoded size of 10MB'')"
    using decode_any_fits [of s]
    by (fastforce simp: ValidateBase64_def MaxCiphertextSize_def split: option.splits if_splits)
qed

text \<open>Sanitized text is safe to log and compare. Whatever bytes come in, invalid UTF-8 included,
  the result of \<^verbatim>\<open>SanitizeString\<close> holds no control characters but tab, line feed and carriage
  return, and neither starts nor ends with white space.\<close>

theorem SanitizeString_safe: "list_all printable (SanitizeString s) \<and> trimmed (SanitizeString s)"
  using SanitizeString_printable trim_space_trimmed by (simp add: SanitizeString_def)

text \<open>C16: Which paste requests pass validation: exactly one of ciphertext and plaintext is present,
  ciphertext is acceptable base64, plaintext is at most 512 KiB, and the expiry lies between one
  minute and thirty days.\<close>

theorem create_request_accepted_iff:
  "validateCreatePasteRequest r = [] \<longleftrightarrow>
     (ciphertext r = []) \<noteq> (plaintext r = []) \<and>
     (ciphertext r = [] \<or> ValidateBase64 (ciphertext r) ''ciphertext'' = None) \<and>
     length (plaintext r) \<le> 524288 \<and>
     60 \<le> expiry_seconds r \<and> expiry_seconds r \<le> 2592000"
  by (auto simp: validateCreatePasteRequest_def ValidateExpirySeconds_def limits)

text \<open>Which invoice requests pass validation.\<close>

lemma invoice_request_accepted_iff:
  "validateCreateInvoiceRequest r = [] \<longleftrightarrow>
     0 < inv_amount r \<and> inv_amount r \<le> 1000000 \<and> length (inv_currency r) = 3 \<and>
     5 \<le> inv_expiration_minutes r \<and> inv_expiration_minutes r \<le> 1440 \<and>
     (case inv_metadata r of None \<Rightarrow> True | Some m \<Rightarrow> length (json_encode (JObj m)) \<le> 2048)"
  by (cases "inv_metadata r") (auto simp: validateCreateInvoiceRequest_def invoice_limits)

end
