(* ===== verification/Float64.thy ===== *)
theory Float64
  imports Prelude "HOL-Library.Log_Nat"
begin

text \<open>
  The \<^verbatim>\<open>float64\<close> arithmetic of Go: a finite value is the rational number it stands for, and an
  operation is the exact one followed by \<open>round64\<close>, the rounding of IEEE 754 to nearest with ties
  to even, subnormal numbers included. Values beyond the largest one do not arise in the code that is
  modelled. The main facts are exactness on small integers and the bound on the relative error.
\<close>

definition pow2 :: "int \<Rightarrow> rat" where
  "pow2 k = (if 0 \<le> k then 2 ^ nat k else 1 / 2 ^ nat (- k))"

definition round_even :: "rat \<Rightarrow> int" where
  "round_even q =
     (let f = \<lfloor>q\<rfloor>; r = q - of_int f in
      if r < 1 / 2 then f else if 1 / 2 < r then f + 1 else if even f then f else f + 1)"

text \<open>The exponent of the leading binary digit of a positive number.\<close>

definition ilog2 :: "rat \<Rightarrow> int" where
  "ilog2 q =
     (let (a, b) = quotient_of q;
          k = int (floorlog 2 (nat a)) - int (floorlog 2 (nat b))
      in if pow2 k \<le> q then k else k - 1)"

definition unit_exponent :: "rat \<Rightarrow> int" where
  "unit_exponent q = max (ilog2 q - 52) (- 1074)"

definition round64 :: "rat \<Rightarrow> rat" where
  "round64 q =
     (if q = 0 then 0
      else (let u = pow2 (unit_exponent \<bar>q\<bar>); m = of_int (round_even (\<bar>q\<bar> / u)) * u
            in if q < 0 then - m else m))"

text \<open>Conversion to an integer truncates towards zero.\<close>

definition trunc_int :: "rat \<Rightarrow> int" where
  "trunc_int q = (if q < 0 then - \<lfloor>- q\<rfloor> else \<lfloor>q\<rfloor>)"

subsection \<open>Powers of two\<close>

lemma pow2_pos [simp]: "0 < pow2 k" "pow2 k \<noteq> 0" "0 \<le> pow2 k"
  by (simp_all add: pow2_def)

lemma pow2_0 [simp]: "pow2 0 = 1"
  by (simp add: pow2_def)

lemma pow2_nat: "pow2 (int n) = 2 ^ n"
  by (simp add: pow2_def)

lemma pow2_Suc: "pow2 (k + 1) = 2 * pow2 k"
proof (cases "0 \<le> k")
  case True
  then show ?thesis by (simp add: pow2_def nat_add_distrib)
next
  case False
  then have "nat (- k) = Suc (nat (- (k + 1)))" by simp
  then show ?thesis using False by (simp add: pow2_def)
qed

lemma pow2_add_nat: "pow2 (k + int n) = pow2 k * 2 ^ n"
proof (induction n)
  case (Suc n)
  have "pow2 (k + int (Suc n)) = pow2 ((k + int n) + 1)" by (simp add: ac_simps)
  then show ?case using Suc pow2_Suc [of "k + int n"] by simp
qed simp

lemma pow2_add: "pow2 (j + k) = pow2 j * pow2 k"
proof (cases "0 \<le> k")
  case True
  then show ?thesis using pow2_add_nat [of j "nat k"] by (simp add: pow2_def [of k])
next
  case False
  then have "pow2 j = pow2 (j + k) * 2 ^ nat (- k)"
    using pow2_add_nat [of "j + k" "nat (- k)"] by simp
  with False show ?thesis by (simp add: pow2_def [of k])
qed

lemma pow2_minus: "pow2 (- k) = 1 / pow2 k"
  using pow2_add [of k "- k"] by (simp add: field_simps)

lemma pow2_mono: "j \<le> k \<Longrightarrow> pow2 j \<le> pow2 k"
proof -
  assume "j \<le> k"
  then have "pow2 k = pow2 j * 2 ^ nat (k - j)" using pow2_add_nat [of j "nat (k - j)"] by simp
  moreover have "pow2 j * 1 \<le> pow2 j * 2 ^ nat (k - j)" by (intro mult_left_mono) simp_all
  ultimately show ?thesis by simp
qed

lemma pow2_less_cancel: "pow2 j < pow2 k \<Longrightarrow> j < k"
  using pow2_mono [of k j] by (meson not_le)

subsection \<open>The leading digit\<close>

lemma ilog2_bounds:
  assumes "0 < q"
  shows "pow2 (ilog2 q) \<le> q" "q < pow2 (ilog2 q + 1)"
proof -
  obtain a b where ab: "quotient_of q = (a, b)" by fastforce
  have b: "0 < b" using ab by (rule quotient_of_denom_pos)
  have q: "q = of_int a / of_int b" using ab by (rule quotient_of_div)
  have a: "0 < a" using assms b unfolding q by (simp add: zero_less_divide_iff)
  define la where "la = floorlog 2 (nat a)"
  define lb where "lb = floorlog 2 (nat b)"
  have A: "2 ^ (la - 1) \<le> nat a" "nat a < 2 ^ la" "0 < la"
    using floorlog_bounds [of "nat a" 2] a by (auto simp: la_def floorlog_eq_zero_iff intro: ccontr)
  have B: "2 ^ (lb - 1) \<le> nat b" "nat b < 2 ^ lb" "0 < lb"
    using floorlog_bounds [of "nat b" 2] b by (auto simp: lb_def floorlog_eq_zero_iff intro: ccontr)
  have sides: "pow2 (int l - 1) \<le> of_int c" "of_int c < pow2 (int l)"
    if "2 ^ (l - 1) \<le> nat c" "nat c < 2 ^ l" "0 < l" "0 < c" for l and c :: int
  proof -
    have c: "(2 :: int) ^ (l - 1) \<le> c" "c < 2 ^ l"
      using that by (simp_all add: le_nat_iff nat_less_iff)
    from that have "\<exists>m. l = Suc m" by (cases l) auto
    then obtain m where l: "l = Suc m" by blast
    have "(of_int (2 ^ m) :: rat) \<le> of_int c" "(of_int c :: rat) < of_int (2 ^ l)"
      using c unfolding l by (simp_all only: of_int_le_iff of_int_less_iff diff_Suc_1)
    then show "pow2 (int l - 1) \<le> of_int c" "of_int c < pow2 (int l)"
      using pow2_nat [of m] pow2_nat [of l] by (simp_all add: l)
  qed
  have ra: "pow2 (int la - 1) \<le> of_int a" "of_int a < pow2 (int la)"
    using sides [OF A(1,2,3) a] by blast+
  have rb: "pow2 (int lb - 1) \<le> of_int b" "of_int b < pow2 (int lb)"
    using sides [OF B(1,2,3) b] by blast+
  define k where "k = int la - int lb"
  have up: "q < pow2 (k + 1)"
  proof -
    have "pow2 (int la) = pow2 (k + 1) * pow2 (int lb - 1)"
      by (simp add: k_def flip: pow2_add)
    moreover have "pow2 (k + 1) * pow2 (int lb - 1) \<le> pow2 (k + 1) * of_int b"
      using rb(1) by (rule mult_left_mono) simp
    ultimately have "of_int a < pow2 (k + 1) * of_int b"
      using ra(2) by linarith
    then show ?thesis unfolding q using b by (simp add: divide_less_eq)
  qed
  have lo: "pow2 (k - 1) \<le> q"
  proof -
    have "pow2 (int la - 1) = pow2 (k - 1) * pow2 (int lb)"
      by (simp add: k_def flip: pow2_add)
    moreover have "pow2 (k - 1) * of_int b \<le> pow2 (k - 1) * pow2 (int lb)"
      using less_imp_le [OF rb(2)] by (rule mult_left_mono) simp
    ultimately have "pow2 (k - 1) * of_int b \<le> of_int a"
      using ra(1) by linarith
    then show ?thesis unfolding q using b by (simp add: le_divide_eq)
  qed
  have l: "ilog2 q = (if pow2 k \<le> q then k else k - 1)"
    by (simp add: ilog2_def ab k_def la_def lb_def)
  show "pow2 (ilog2 q) \<le> q" using lo by (simp add: l)
  show "q < pow2 (ilog2 q + 1)" using up by (simp add: l)
qed

subsection \<open>Rounding\<close>

lemma round_even_near: "\<bar>of_int (round_even q) - q\<bar> \<le> 1 / 2"
proof -
  define r where "r = q - of_int \<lfloor>q\<rfloor>"
  have "0 \<le> r" "r < 1" using floor_correct [of q] by (auto simp: r_def algebra_simps)
  moreover have "q = of_int \<lfloor>q\<rfloor> + r" by (simp add: r_def)
  ultimately show ?thesis
    by (auto simp: round_even_def Let_def r_def [symmetric] abs_le_iff)
qed

lemma round_even_int [simp]: "round_even (of_int n) = n"
  by (simp add: round_even_def)

lemma round_even_nonneg: "0 \<le> q \<Longrightarrow> 0 \<le> round_even q"
proof -
  assume "0 \<le> q"
  then have "0 \<le> \<lfloor>q\<rfloor>" by simp
  then show ?thesis by (auto simp: round_even_def Let_def)
qed

lemma round_even_mono:
  assumes "p \<le> q"
  shows "round_even p \<le> round_even q"
proof (cases "\<lfloor>p\<rfloor> = \<lfloor>q\<rfloor>")
  case True
  then show ?thesis using assms by (auto simp: round_even_def Let_def)
next
  case False
  then have "\<lfloor>p\<rfloor> + 1 \<le> \<lfloor>q\<rfloor>" using floor_mono [OF assms] by simp
  moreover have "round_even p \<le> \<lfloor>p\<rfloor> + 1" "\<lfloor>q\<rfloor> \<le> round_even q"
    by (auto simp: round_even_def Let_def)
  ultimately show ?thesis by linarith
qed

lemma round64_0 [simp]: "round64 0 = 0"
  by (simp add: round64_def)

lemma round64_pos: "0 < q \<Longrightarrow> round64 q = of_int (round_even (q / pow2 (unit_exponent q))) * pow2 (unit_exponent q)"
  by (simp add: round64_def Let_def)

lemma round64_minus: "round64 (- q) = - round64 q"
  by (auto simp: round64_def Let_def)

lemma round64_nonneg: "0 \<le> q \<Longrightarrow> 0 \<le> round64 q"
  by (cases "q = 0") (auto simp: round64_pos round_even_nonneg)

text \<open>A multiple of the unit of its exponent is exact.\<close>

lemma round64_multiple:
  assumes "q = of_int m * pow2 (unit_exponent \<bar>q\<bar>)"
  shows "round64 q = q"
proof (cases "q < 0")
  case True
  then have "\<bar>q\<bar> / pow2 (unit_exponent \<bar>q\<bar>) = of_int (- m)"
    using assms by (simp add: field_simps)
  then show ?thesis using True assms by (simp add: round64_def Let_def del: of_int_minus)
next
  case False
  then show ?thesis using assms by (auto simp: round64_def Let_def) (metis nonzero_mult_div_cancel_right pow2_pos(2) round_even_int)
qed

text \<open>The integers up to \<^verbatim>\<open>2^53\<close> are exact.\<close>

lemma round64_int:
  assumes "\<bar>n\<bar> \<le> 2 ^ 53"
  shows "round64 (of_int n) = of_int n"
proof (cases "n = 0")
  case False
  define q :: rat where "q = of_int n"
  define e where "e = unit_exponent \<bar>q\<bar>"
  have q: "1 \<le> \<bar>q\<bar>" "\<bar>q\<bar> \<le> 2 ^ 53"
  proof -
    have "1 \<le> \<bar>n\<bar>" using False by linarith
    then have "(of_int 1 :: rat) \<le> of_int \<bar>n\<bar>" by (simp only: of_int_le_iff)
    then show "1 \<le> \<bar>q\<bar>" by (simp add: q_def)
    have "(of_int \<bar>n\<bar> :: rat) \<le> of_int (2 ^ 53)" using assms by (simp only: of_int_le_iff)
    then show "\<bar>q\<bar> \<le> 2 ^ 53" by (simp add: q_def)
  qed
  have l: "ilog2 \<bar>q\<bar> \<le> 53" "0 \<le> ilog2 \<bar>q\<bar>"
  proof -
    have "pow2 (ilog2 \<bar>q\<bar>) < pow2 54"
      using order_le_less_trans [OF order_trans [OF ilog2_bounds(1) q(2)], of "pow2 54"] q(1)
      by (simp add: pow2_def [of 54])
    then show "ilog2 \<bar>q\<bar> \<le> 53" using pow2_less_cancel by fastforce
    have "0 < \<bar>q\<bar>" using q(1) by linarith
    then have "pow2 0 < pow2 (ilog2 \<bar>q\<bar> + 1)"
      using order_le_less_trans [OF q(1) ilog2_bounds(2)] by simp
    then show "0 \<le> ilog2 \<bar>q\<bar>" using pow2_less_cancel by fastforce
  qed
  show ?thesis
  proof (cases "e \<le> 0")
    case True
    then have "q = of_int (n * 2 ^ nat (- e)) * pow2 e"
      by (cases "e = 0") (simp_all add: q_def pow2_def)
    then show ?thesis using round64_multiple [of q "n * 2 ^ nat (- e)"] by (simp add: q_def e_def)
  next
    case False
    then have e: "e = 1" "ilog2 \<bar>q\<bar> = 53" using l by (auto simp: e_def unit_exponent_def)
    then have "2 ^ 53 \<le> \<bar>q\<bar>"
      using ilog2_bounds(1) [of "\<bar>q\<bar>"] q by (simp add: pow2_def)
    then have "\<bar>q\<bar> = 2 ^ 53" using q by simp
    then have "q = of_int (sgn n * 2 ^ 52) * pow2 e"
      using e by (cases "n < 0") (auto simp: q_def pow2_def)
    then show ?thesis using round64_multiple [of q "sgn n * 2 ^ 52"] by (simp add: q_def e_def)
  qed
qed simp

text \<open>The relative error of a result in the normal range is at most \<^verbatim>\<open>2^-53\<close>.\<close>

lemma round64_error:
  assumes "pow2 (- 1022) \<le> \<bar>q\<bar>"
  shows "\<bar>round64 q - q\<bar> \<le> \<bar>q\<bar> / 2 ^ 53"
proof -
  have pos: "\<bar>round64 p - p\<bar> \<le> p / 2 ^ 53" if p: "pow2 (- 1022) \<le> p" for p
  proof -
    have p0: "0 < p" using p pow2_pos(1) [of "- 1022"] by linarith
    have "pow2 (- 1022) < pow2 (ilog2 p + 1)" using ilog2_bounds(2) [OF p0] p by simp
    then have "- 1022 \<le> ilog2 p" using pow2_less_cancel by fastforce
    then have e: "unit_exponent p = ilog2 p - 52" by (simp add: unit_exponent_def)
    define u where "u = pow2 (unit_exponent p)"
    have u: "0 < u" by (simp add: u_def)
    have "round64 p - p = (of_int (round_even (p / u)) - p / u) * u"
      using p0 u by (simp add: round64_pos u_def field_simps)
    then have "\<bar>round64 p - p\<bar> = \<bar>of_int (round_even (p / u)) - p / u\<bar> * u"
      using u by (simp add: abs_mult)
    also have "\<dots> \<le> 1 / 2 * u" using round_even_near u by (intro mult_right_mono) auto
    also have "\<dots> \<le> p / 2 ^ 53"
    proof -
      have "u * 2 ^ 52 = pow2 (ilog2 p)"
        using pow2_add_nat [of "ilog2 p - 52" 52] by (simp add: u_def e)
      then have "u * 2 ^ 52 \<le> p" using ilog2_bounds(1) [OF p0] by simp
      then show ?thesis by (simp add: field_simps)
    qed
    finally show ?thesis .
  qed
  show ?thesis
  proof (cases "q < 0")
    case True
    then show ?thesis using pos [of "- q"] assms by (simp add: round64_minus abs_minus_commute)
  next
    case False
    then show ?thesis using pos [of q] assms by simp
  qed
qed

lemma trunc_int_mono_nonneg: "0 \<le> q \<Longrightarrow> trunc_int q = \<lfloor>q\<rfloor>"
  by (simp add: trunc_int_def)

lemma trunc_int_neg: "q \<le> 0 \<Longrightarrow> trunc_int q \<le> 0"
proof -
  assume "q \<le> 0"
  then have "0 \<le> \<lfloor>- q\<rfloor>" by simp
  then show ?thesis using \<open>q \<le> 0\<close> by (auto simp: trunc_int_def)
qed

lemma trunc_int_pos_le: "0 < trunc_int q \<Longrightarrow> 0 < q \<and> of_int (trunc_int q) \<le> q"
  using trunc_int_neg [of q] by (cases "q \<le> 0") (auto simp: trunc_int_def)

lemma ilog2_eq: "pow2 k \<le> q \<Longrightarrow> q < pow2 (k + 1) \<Longrightarrow> ilog2 q = k"
  using ilog2_bounds [of q] pow2_less_cancel [of "ilog2 q" "k + 1"] pow2_less_cancel [of k "ilog2 q + 1"] pow2_pos(1) [of k]
  by fastforce

text \<open>Rounding keeps the order.\<close>

lemma ilog2_mono: "0 < p \<Longrightarrow> p \<le> q \<Longrightarrow> ilog2 p \<le> ilog2 q"
  using pow2_less_cancel [of "ilog2 p" "ilog2 q + 1"] ilog2_bounds [of p] ilog2_bounds [of q] by simp

lemma round64_le_multiple:
  assumes "0 < p" "p \<le> of_int m * pow2 (unit_exponent p)"
  shows "round64 p \<le> of_int m * pow2 (unit_exponent p)"
proof -
  have "round_even (p / pow2 (unit_exponent p)) \<le> round_even (of_int m)"
    using assms(2) by (intro round_even_mono) (simp add: divide_le_eq)
  then show ?thesis using assms(1) by (simp add: round64_pos)
qed

lemma round64_ge_multiple:
  assumes "0 < p" "of_int m * pow2 (unit_exponent p) \<le> p"
  shows "of_int m * pow2 (unit_exponent p) \<le> round64 p"
proof -
  have "round_even (of_int m) \<le> round_even (p / pow2 (unit_exponent p))"
    using assms(2) by (intro round_even_mono) (simp add: le_divide_eq)
  then show ?thesis using assms(1) by (simp add: round64_pos)
qed

lemma round64_mono_pos:
  assumes "0 < p" "p \<le> q"
  shows "round64 p \<le> round64 q"
proof (cases "unit_exponent p = unit_exponent q")
  case True
  have "p / pow2 (unit_exponent q) \<le> q / pow2 (unit_exponent q)"
    using assms(2) by (intro divide_right_mono) simp_all
  then have "round_even (p / pow2 (unit_exponent q)) \<le> round_even (q / pow2 (unit_exponent q))" by (rule round_even_mono)
  then show ?thesis using True assms by (simp add: round64_pos)
next
  case False
  let ?B = "pow2 (ilog2 q)"
  have l: "ilog2 p \<le> ilog2 q" using assms by (rule ilog2_mono)
  with False have f: "unit_exponent q = ilog2 q - 52" "unit_exponent p < unit_exponent q" "ilog2 p < ilog2 q"
    by (auto simp: unit_exponent_def max_def split: if_splits)
  have "?B = of_int (2 ^ 52) * pow2 (unit_exponent q)"
    using pow2_add_nat [of "unit_exponent q" 52] f(1) by simp
  then have low: "?B \<le> round64 q"
    using round64_ge_multiple [of q "2 ^ 52"] ilog2_bounds(1) [of q] assms by simp
  have "?B = of_int (2 ^ nat (ilog2 q - unit_exponent p)) * pow2 (unit_exponent p)"
    using pow2_add_nat [of "unit_exponent p" "nat (ilog2 q - unit_exponent p)"] f by simp
  moreover have "p \<le> ?B" using ilog2_bounds(2) [OF assms(1)] pow2_mono [of "ilog2 p + 1" "ilog2 q"] f(3) by simp
  ultimately have "round64 p \<le> ?B" using round64_le_multiple [OF assms(1)] by metis
  with low show ?thesis by simp
qed

lemma round64_mono:
  assumes "p \<le> q"
  shows "round64 p \<le> round64 q"
proof -
  consider "0 < p" | "p \<le> 0" "0 \<le> q" | "q < 0" using assms by linarith
  then show ?thesis
  proof cases
    case 1
    then show ?thesis using assms by (rule round64_mono_pos)
  next
    case 2
    then show ?thesis using round64_nonneg [of q] round64_nonneg [of "- p"] by (simp add: round64_minus)
  next
    case 3
    then show ?thesis using round64_mono_pos [of "- q" "- p"] assms by (simp add: round64_minus)
  qed
qed

end
