(* ===== verification/FloatText.thy ===== *)
theory FloatText
  imports Float64 Json
begin

text \<open>
  How \<^verbatim>\<open>encoding/json\<close> reads a number literal into a \<^verbatim>\<open>float64\<close> and prints it again: the shortest
  decimal that reads back as the same value, in exponent form below \<^verbatim>\<open>1e-6\<close> and from \<^verbatim>\<open>1e21\<close> on.
\<close>

definition pow10 :: "int \<Rightarrow> rat" where
  "pow10 k = (if 0 \<le> k then 10 ^ nat k else 1 / 10 ^ nat (- k))"

definition literal_magnitude :: "string \<Rightarrow> rat" where
  "literal_magnitude s =
     (let t = (if has_prefix s ''-'' then tl s else s);
          mant = takeWhile (\<lambda>c. c \<noteq> CHR ''e'' \<and> c \<noteq> CHR ''E'') t;
          ex = tl (dropWhile (\<lambda>c. c \<noteq> CHR ''e'' \<and> c \<noteq> CHR ''E'') t);
          frac = filter is_digit (dropWhile is_digit mant);
          m = digits_value (filter is_digit mant) 0;
          en = digits_value (filter is_digit ex) 0;
          e = (if has_prefix ex ''-'' then - int en else int en) - int (length frac)
      in of_nat m * pow10 e)"

definition floor_log10 :: "rat \<Rightarrow> int" where
  "floor_log10 v = (case find (\<lambda>k. pow10 k \<le> v) (rev [-330..309]) of Some k \<Rightarrow> k | None \<Rightarrow> - 330)"

text \<open>The digits of a decimal with \<open>n\<close> significant digits that rounds to \<open>v\<close>, the nearest one first.\<close>

definition digits_rounding :: "rat \<Rightarrow> int \<Rightarrow> nat \<Rightarrow> nat option" where
  "digits_rounding v k n =
     (let u = pow10 (k - int n + 1); q = v / u; lo = nat \<lfloor>q\<rfloor>; hi = lo + 1;
          first = (if q - of_nat lo \<le> 1 / 2 then lo else hi);
          second = (if first = lo then hi else lo)
      in if round64 (of_nat first * u) = v then Some first
         else if round64 (of_nat second * u) = v then Some second
         else None)"

definition shortest_digits :: "rat \<Rightarrow> nat \<times> int" where
  "shortest_digits v =
     (let k = floor_log10 v in
      case find (\<lambda>n. digits_rounding v k n \<noteq> None) [1..<18] of
        None \<Rightarrow> (nat \<lfloor>v / pow10 (k - 16)\<rfloor>, k - 16)
      | Some n \<Rightarrow> (the (digits_rounding v k n), k - int n + 1))"

definition strip_zeros :: "string \<Rightarrow> string" where
  "strip_zeros s = rev (dropWhile (\<lambda>c. c = CHR ''0'') (rev s))"

definition plain_decimal :: "nat \<Rightarrow> int \<Rightarrow> string" where
  "plain_decimal m e =
     (let ds = nat_digits m in
      if 0 \<le> e then ds @ replicate (nat e) (CHR ''0'')
      else (let f = nat (- e);
                p = replicate (f + 1 - length ds) (CHR ''0'') @ ds;
                whole = take (length p - f) p; frac = strip_zeros (drop (length p - f) p)
            in if frac = [] then whole else whole @ ''.'' @ frac))"

definition exponent_decimal :: "nat \<Rightarrow> int \<Rightarrow> string" where
  "exponent_decimal m e =
     (let ds = nat_digits m; x = e + int (length ds) - 1; frac = strip_zeros (tl ds) in
      take 1 ds @ (if frac = [] then [] else ''.'' @ frac) @ ''e'' @
      (if x < 0 then ''-'' @ itoa (- x) else ''+'' @ (if x < 10 then ''0'' else []) @ itoa x))"

definition float_text :: "bool \<Rightarrow> rat \<Rightarrow> string" where
  "float_text negative v =
     (if negative then ''-'' else []) @
     (if v = 0 then ''0''
      else (let (m, e) = shortest_digits v in
            if v < round64 (1 / 10 ^ 6) \<or> 10 ^ 21 \<le> v then exponent_decimal m e else plain_decimal m e))"

definition normal_literal :: "string \<Rightarrow> string" where
  "normal_literal s = float_text (has_prefix s ''-'') (round64 (literal_magnitude s))"

text \<open>A value decoded into an \<^verbatim>\<open>interface{}\<close> with its numbers as the encoder will print them, and
  the encoder's order of map keys, byte by byte.\<close>

fun json_numbers :: "json \<Rightarrow> json" where
  "json_numbers (JNum s) = JNum (normal_literal s)"
| "json_numbers (JArr xs) = JArr (map json_numbers xs)"
| "json_numbers (JObj m) = JObj (map (\<lambda>(k, v). (k, json_numbers v)) m)"
| "json_numbers v = v"

fun bytes_less_eq :: "string \<Rightarrow> string \<Rightarrow> bool" where
  "bytes_less_eq [] t = True"
| "bytes_less_eq (c # s) [] = False"
| "bytes_less_eq (c # s) (d # t) = (if c = d then bytes_less_eq s t else byte c < byte d)"

fun insert_key :: "string \<times> json \<Rightarrow> (string \<times> json) list \<Rightarrow> (string \<times> json) list" where
  "insert_key p [] = [p]"
| "insert_key p (q # m) = (if bytes_less_eq (fst p) (fst q) then p # q # m else q # insert_key p m)"

fun json_sorted :: "json \<Rightarrow> json" where
  "json_sorted (JArr xs) = JArr (map json_sorted xs)"
| "json_sorted (JObj m) = JObj (foldr insert_key (map (\<lambda>(k, v). (k, json_sorted v)) m) [])"
| "json_sorted v = v"

lemma set_insert_key [simp]: "set (insert_key p m) = insert p (set m)"
  by (induction m) auto

lemma set_sorted_keys [simp]: "set (foldr insert_key m []) = set m"
  by (induction m) auto

definition json_marshal :: "json \<Rightarrow> string" where
  "json_marshal v = json_encode (json_sorted v)"

end
