(* ===== verification/RateLimit.thy ===== *)
theory RateLimit
  imports Float64
begin

text \<open>
  \<^verbatim>\<open>src/services/ratelimit.go\<close>: the in-memory token bucket, its clean-up, and the protocol by which
  \<^verbatim>\<open>Stop\<close> ends the clean-up goroutine. Each call runs under the mutex and is one step; the
  clock is read just before, so the bounds are for calls that do not overtake each other there. The token
  arithmetic is that of \<^verbatim>\<open>float64\<close>; where Go leaves the conversion of an infinity or of a value
  beyond 64 bits to the implementation the model has no result, and \<open>CheckRateLimit_total\<close> shows
  that the limits in use do not get there.
\<close>

record rate_bucket =
  tokens :: int
  lastRefill :: gotime
  lastAccessed :: gotime

type_synonym buckets = "string \<rightharpoonup> rate_bucket"

record limit_result =
  lr_allowed :: bool
  lr_remaining :: int
  lr_reset_at :: gotime
  lr_retry_after :: duration

text \<open>\<^verbatim>\<open>Time.Sub\<close> saturates; \<^verbatim>\<open>Duration.Seconds\<close> adds the whole seconds and the rest.\<close>

definition time_sub :: "gotime \<Rightarrow> gotime \<Rightarrow> duration" where
  "time_sub t u = max (- (2 ^ 63)) (min (2 ^ 63 - 1) (t - u))"

definition seconds64 :: "duration \<Rightarrow> rat" where
  "seconds64 d =
     (let a = \<bar>d\<bar>; s = round64 (of_int (a div second) + round64 (of_int (a mod second) / 10 ^ 9))
      in if d < 0 then - s else s)"

definition to_int64 :: "rat \<Rightarrow> int option" where
  "to_int64 q = (if \<bar>q\<bar> < 2 ^ 63 then Some (trunc_int q) else None)"

definition refill_rate :: "int \<Rightarrow> duration \<Rightarrow> rat" where
  "refill_rate limit window = round64 (round64 (of_int limit) / seconds64 window)"

definition tokens_to_add :: "duration \<Rightarrow> rat \<Rightarrow> int option" where
  "tokens_to_add elapsed rate = to_int64 (round64 (seconds64 elapsed * rate))"

definition retry_after :: "rat \<Rightarrow> duration option" where
  "retry_after rate = to_int64 (round64 (round64 (1 / rate) * 10 ^ 9))"

definition refill :: "gotime \<Rightarrow> int \<Rightarrow> rat \<Rightarrow> rate_bucket \<Rightarrow> rate_bucket option" where
  "refill t limit rate b =
     (case tokens_to_add (time_sub t (lastRefill b)) rate of
        None \<Rightarrow> None
      | Some n \<Rightarrow>
          Some ((if 0 < n then b\<lparr>tokens := min limit (int64_of (tokens b + n)), lastRefill := t\<rparr> else b)
                  \<lparr>lastAccessed := t\<rparr>))"

definition CheckRateLimit ::
  "gotime \<Rightarrow> string \<Rightarrow> int \<Rightarrow> duration \<Rightarrow> buckets \<Rightarrow> (limit_result \<times> buckets) option" where
  "CheckRateLimit t key limit window bs =
     (if limit \<le> 0 \<or> window \<le> 0 then None
      else (let rate = refill_rate limit window in
        case (case bs key of
                None \<Rightarrow> Some \<lparr>tokens = limit, lastRefill = t, lastAccessed = t\<rparr>
              | Some b \<Rightarrow> refill t limit rate b) of
          None \<Rightarrow> None
        | Some b \<Rightarrow>
            if 0 < tokens b then
              Some (\<lparr>lr_allowed = True, lr_remaining = tokens b - 1, lr_reset_at = t + window,
                     lr_retry_after = 0\<rparr>, bs(key \<mapsto> b\<lparr>tokens := tokens b - 1\<rparr>))
            else
              (case retry_after rate of
                 None \<Rightarrow> None
               | Some r \<Rightarrow>
                   Some (\<lparr>lr_allowed = False, lr_remaining = 0, lr_reset_at = t + r,
                          lr_retry_after = r\<rparr>, bs(key \<mapsto> b)))))"

definition cleanup :: "gotime \<Rightarrow> buckets \<Rightarrow> buckets" where
  "cleanup t bs = (\<lambda>k. case bs k of
     None \<Rightarrow> None
   | Some b \<Rightarrow> if time_sub t (lastAccessed b) > 2 * hour then None else Some b)"

subsection \<open>Rounding errors\<close>

definition ulp :: rat where "ulp = 1 / 2 ^ 53"

lemma ulp_pos: "0 < ulp" "ulp < 1" "0 < 1 - ulp" "0 < 1 + ulp"
  by (simp_all add: ulp_def)

lemma round64_rel:
  assumes "0 < q" "pow2 (- 1022) \<le> q"
  shows "q * (1 - ulp) \<le> round64 q" "round64 q \<le> q * (1 + ulp)" "0 < round64 q"
proof -
  have "\<bar>round64 q - q\<bar> \<le> q * ulp"
    using round64_error [of q] assms by (simp add: ulp_def)
  then show l: "q * (1 - ulp) \<le> round64 q" and "round64 q \<le> q * (1 + ulp)"
    unfolding abs_le_iff by (simp_all only: right_diff_distrib distrib_left) linarith+
  have "0 < q * (1 - ulp)" using assms(1) ulp_pos by simp
  with l show "0 < round64 q" by linarith
qed

lemma tiny: "pow2 (- 1022) \<le> 1 / 2 ^ 200"
proof -
  have "pow2 (- 1022) \<le> pow2 (- 200)" by (rule pow2_mono) simp
  also have "pow2 (- 200) = 1 / 2 ^ 200" by (simp add: pow2_def)
  finally show ?thesis .
qed

lemma normal: "1 / 2 ^ 200 \<le> q \<Longrightarrow> pow2 (- 1022) \<le> q"
  using tiny by (rule order_trans)

text \<open>A positive duration in seconds, up to two roundings.\<close>

lemma seconds64_bounds:
  assumes "0 < d" "d \<le> 2 ^ 63"
  shows "of_int d / 10 ^ 9 * (1 - ulp) ^ 2 \<le> seconds64 d"
    and "seconds64 d \<le> of_int d / 10 ^ 9 * (1 + ulp) ^ 2"
    and "0 < seconds64 d"
proof -
  define a where "a = d div second"
  define b where "b = d mod second"
  have d: "d = a * 10 ^ 9 + b" by (simp add: a_def b_def second_def)
  have a: "0 \<le> a" "\<bar>a\<bar> \<le> 2 ^ 53" using assms by (simp_all add: a_def second_def)
  have b: "0 \<le> b" by (simp add: b_def second_def)
  define r where "r = round64 (of_int b / 10 ^ 9)"
  have r: "of_int b / 10 ^ 9 * (1 - ulp) \<le> r" "r \<le> of_int b / 10 ^ 9 * (1 + ulp)"
  proof -
    have "of_int b / 10 ^ 9 * (1 - ulp) \<le> r \<and> r \<le> of_int b / 10 ^ 9 * (1 + ulp)"
    proof (cases "b = 0")
      case False
      then have "(of_int 1 :: rat) \<le> of_int b" using b by (simp only: of_int_le_iff)
      then have n: "1 / 2 ^ 200 \<le> (of_int b / 10 ^ 9 :: rat)" by (simp add: field_simps)
      then have p: "0 < (of_int b / 10 ^ 9 :: rat)" by (rule less_le_trans [rotated]) simp
      show ?thesis using round64_rel(1,2) [OF p normal [OF n]] unfolding r_def by (rule conjI)
    qed (simp add: r_def)
    then show "of_int b / 10 ^ 9 * (1 - ulp) \<le> r" "r \<le> of_int b / 10 ^ 9 * (1 + ulp)" by simp_all
  qed
  define s :: rat where "s = of_int d / 10 ^ 9"
  have s: "s = of_int a + of_int b / 10 ^ 9" by (simp add: s_def d add_divide_distrib)
  have sl: "s * (1 - ulp) \<le> of_int a + r" and su: "of_int a + r \<le> s * (1 + ulp)"
  proof -
    have "of_int a * (1 - ulp) \<le> of_int a * 1" "of_int a * 1 \<le> of_int a * (1 + ulp)"
      using a(1) ulp_pos by (intro mult_left_mono; simp)+
    then show "s * (1 - ulp) \<le> of_int a + r" "of_int a + r \<le> s * (1 + ulp)"
      using r by (simp_all add: s distrib_right)
  qed
  have s1: "1 / 10 ^ 9 \<le> s"
  proof -
    have "(of_int 1 :: rat) \<le> of_int d" using assms(1) by (simp only: of_int_le_iff)
    then show ?thesis by (simp add: s_def divide_right_mono)
  qed
  have "1 / 2 ^ 200 \<le> 1 / 10 ^ 9 * (1 - ulp)" by (simp add: ulp_def)
  also have "\<dots> \<le> s * (1 - ulp)" using s1 ulp_pos by (intro mult_right_mono) simp_all
  finally have big: "1 / 2 ^ 200 \<le> of_int a + r" using sl by linarith
  then have pos: "0 < of_int a + r" by (rule less_le_trans [rotated]) simp
  have e: "seconds64 d = round64 (of_int a + r)"
    using assms(1) round64_int [OF a(2)] by (simp add: seconds64_def a_def b_def r_def Let_def)
  note rr = round64_rel [OF pos normal [OF big]]
  show "0 < seconds64 d" using rr(3) by (simp add: e)
  have "s * (1 - ulp) * (1 - ulp) \<le> (of_int a + r) * (1 - ulp)"
    using sl ulp_pos by (intro mult_right_mono) simp_all
  then show "of_int d / 10 ^ 9 * (1 - ulp) ^ 2 \<le> seconds64 d"
    using rr(1) unfolding e s_def [symmetric] power2_eq_square mult.assoc [symmetric] by linarith
  have "(of_int a + r) * (1 + ulp) \<le> s * (1 + ulp) * (1 + ulp)"
    using su ulp_pos by (intro mult_right_mono) simp_all
  then show "seconds64 d \<le> of_int d / 10 ^ 9 * (1 + ulp) ^ 2"
    using rr(2) unfolding e s_def [symmetric] power2_eq_square mult.assoc [symmetric] by linarith
qed

text \<open>The limits in use: up to 100 million requests per window of a second to some years.\<close>

definition limits_ok :: "int \<Rightarrow> duration \<Rightarrow> bool" where
  "limits_ok limit window \<longleftrightarrow> 0 < limit \<and> limit \<le> 10 ^ 8 \<and> second \<le> window \<and> window < 2 ^ 62"

text \<open>Tokens per nanosecond.\<close>

definition exact_rate :: "int \<Rightarrow> duration \<Rightarrow> rat" where
  "exact_rate limit window = of_int limit / of_int window"

definition slack :: rat where "slack = 1 / 2 ^ 50"

lemma exact_rate_pos: "limits_ok limit window \<Longrightarrow> 0 < exact_rate limit window"
  by (simp add: exact_rate_def limits_ok_def second_def)

lemma refill_rate_bounds:
  assumes "limits_ok limit window"
  shows "exact_rate limit window * 10 ^ 9 * ((1 - ulp) / (1 + ulp) ^ 2) \<le> refill_rate limit window"
    and "refill_rate limit window \<le> exact_rate limit window * 10 ^ 9 * ((1 + ulp) / (1 - ulp) ^ 2)"
    and "0 < refill_rate limit window"
proof -
  define L :: rat where "L = of_int limit"
  define W where "W = seconds64 window"
  define w :: rat where "w = of_int window / 10 ^ 9"
  have lims: "0 < limit" "limit \<le> 10 ^ 8" "0 < window" "window < 2 ^ 63"
    using assms by (simp_all add: limits_ok_def second_def)
  have L: "0 < L" "1 \<le> L"
  proof -
    have "(of_int 1 :: rat) \<le> of_int limit" using lims(1) by (simp only: of_int_le_iff)
    then show "1 \<le> L" by (simp add: L_def)
    then show "0 < L" by linarith
  qed
  have w: "0 < w" using lims(3) by (simp add: w_def)
  have W: "w * (1 - ulp) ^ 2 \<le> W" "W \<le> w * (1 + ulp) ^ 2" "0 < W"
    using seconds64_bounds [OF lims(3) less_imp_le [OF lims(4)]] by (simp_all add: W_def w_def)
  have ex: "exact_rate limit window * 10 ^ 9 = L / w"
    by (simp add: exact_rate_def L_def w_def)
  have R: "refill_rate limit window = round64 (L / W)"
    using round64_int [of limit] lims(1,2) by (simp add: refill_rate_def L_def W_def)
  have w63: "w \<le> 2 ^ 63"
  proof -
    have "(of_int window :: rat) \<le> of_int (2 ^ 63)" using lims(4) by (simp only: of_int_le_iff)
    then have "of_int window / 10 ^ 9 \<le> (2 ^ 63 :: rat)" using lims(3) by (simp add: field_simps)
    then show ?thesis by (simp add: w_def)
  qed
  have "W \<le> 2 ^ 65"
  proof -
    have "w * (1 + ulp) ^ 2 \<le> 2 ^ 63 * 4" using w63 w
      by (intro mult_mono) (simp_all add: ulp_def power2_eq_square)
    with W(2) show ?thesis by simp
  qed
  then have "L / W \<ge> 1 / 2 ^ 65"
    using L(2) W(3) by (intro frac_le) simp_all
  moreover have "1 / 2 ^ 200 \<le> (1 / 2 ^ 65 :: rat)" by simp
  ultimately have n: "1 / 2 ^ 200 \<le> L / W" by linarith
  have p: "0 < L / W" using L(1) W(3) by simp
  note rr = round64_rel [OF p normal [OF n]]
  show "0 < refill_rate limit window" using rr(3) by (simp add: R)
  have "L / W \<le> L / (w * (1 - ulp) ^ 2)"
    using W(1,3) L(1) w ulp_pos by (intro divide_left_mono) simp_all
  then have "L / W * (1 + ulp) \<le> L / (w * (1 - ulp) ^ 2) * (1 + ulp)"
    using ulp_pos by (intro mult_right_mono) simp_all
  then show "refill_rate limit window \<le> exact_rate limit window * 10 ^ 9 * ((1 + ulp) / (1 - ulp) ^ 2)"
    using rr(2) unfolding R ex by simp
  have "L / (w * (1 + ulp) ^ 2) \<le> L / W"
    using W(2,3) L(1) w ulp_pos by (intro divide_left_mono) simp_all
  then have "L / (w * (1 + ulp) ^ 2) * (1 - ulp) \<le> L / W * (1 - ulp)"
    using ulp_pos by (intro mult_right_mono) simp_all
  then show "exact_rate limit window * 10 ^ 9 * ((1 - ulp) / (1 + ulp) ^ 2) \<le> refill_rate limit window"
    using rr(1) unfolding R ex by simp
qed

text \<open>The unrounded number of tokens of a refill is within \<open>slack\<close> of the exact one.\<close>

lemma refill_product_bounds:
  assumes "limits_ok limit window" "0 < d" "d \<le> 2 ^ 63"
  defines "P \<equiv> round64 (seconds64 d * refill_rate limit window)"
  shows "of_int d * exact_rate limit window * (1 - slack) \<le> P"
    and "P \<le> of_int d * exact_rate limit window * (1 + slack)"
    and "0 < P"
proof -
  define R where "R = refill_rate limit window"
  define S where "S = seconds64 d"
  define r where "r = exact_rate limit window * 10 ^ 9"
  define s :: rat where "s = of_int d / 10 ^ 9"
  have r: "0 < r" using exact_rate_pos [OF assms(1)] by (simp add: r_def)
  have s: "0 < s" using assms(2) by (simp add: s_def)
  have R: "r * ((1 - ulp) / (1 + ulp) ^ 2) \<le> R" "R \<le> r * ((1 + ulp) / (1 - ulp) ^ 2)" "0 < R"
    using refill_rate_bounds [OF assms(1)] by (simp_all add: R_def r_def)
  have S: "s * (1 - ulp) ^ 2 \<le> S" "S \<le> s * (1 + ulp) ^ 2" "0 < S"
    using seconds64_bounds [OF assms(2,3)] by (simp_all add: S_def s_def)
  have lo: "s * (1 - ulp) ^ 2 * (r * ((1 - ulp) / (1 + ulp) ^ 2)) \<le> S * R"
    using R S r s ulp_pos by (intro mult_mono) simp_all
  have hi: "S * R \<le> s * (1 + ulp) ^ 2 * (r * ((1 + ulp) / (1 - ulp) ^ 2))"
    using R S r s ulp_pos by (intro mult_mono) simp_all
  have rmin: "1 / 2 ^ 62 * 10 ^ 9 \<le> r"
  proof -
    have "(of_int window :: rat) \<le> of_int (2 ^ 62)" "(of_int 1 :: rat) \<le> of_int limit" "0 < window"
      using assms(1) unfolding of_int_le_iff by (simp_all add: limits_ok_def second_def)
    then have "1 / 2 ^ 62 \<le> (of_int limit / of_int window :: rat)"
      by (intro frac_le) simp_all
    then show ?thesis by (simp add: r_def exact_rate_def)
  qed
  have smin: "1 / 10 ^ 9 \<le> s"
  proof -
    have "(of_int 1 :: rat) \<le> of_int d" using assms(2) by (simp only: of_int_le_iff)
    then show ?thesis by (simp add: s_def divide_right_mono)
  qed
  have c: "1 / 4 \<le> (1 - ulp) ^ 2 * ((1 - ulp) / (1 + ulp) ^ 2)" by (simp add: ulp_def power2_eq_square)
  have sr: "1 / 2 ^ 62 \<le> s * r"
    using mult_mono [OF smin rmin] s r by simp
  have "1 / 2 ^ 62 * (1 / 4) \<le> s * r * ((1 - ulp) ^ 2 * ((1 - ulp) / (1 + ulp) ^ 2))"
    using sr c s r by (intro mult_mono) simp_all
  also have "\<dots> = s * (1 - ulp) ^ 2 * (r * ((1 - ulp) / (1 + ulp) ^ 2))" by simp
  also have "\<dots> \<le> S * R" by (rule lo)
  finally have "1 / 2 ^ 64 \<le> S * R" by simp
  moreover have "1 / 2 ^ 200 \<le> (1 / 2 ^ 64 :: rat)" by simp
  ultimately have n: "1 / 2 ^ 200 \<le> S * R" by linarith
  have p: "0 < S * R" using S(3) R(3) by simp
  note rr = round64_rel [OF p normal [OF n]]
  have P: "P = round64 (S * R)" by (simp add: P_def S_def R_def)
  have E: "of_int d * exact_rate limit window = s * r" by (simp add: s_def r_def)
  have pos: "0 \<le> s * r" using s r by simp
  show "0 < P" using rr(3) by (simp add: P)
  have "S * R * (1 + ulp) \<le> s * (1 + ulp) ^ 2 * (r * ((1 + ulp) / (1 - ulp) ^ 2)) * (1 + ulp)"
    using hi ulp_pos by (intro mult_right_mono) simp_all
  also have "\<dots> = s * r * ((1 + ulp) ^ 2 * ((1 + ulp) / (1 - ulp) ^ 2) * (1 + ulp))" by simp
  also have "\<dots> \<le> s * r * (1 + slack)"
    using pos by (intro mult_left_mono) (simp_all add: ulp_def slack_def power2_eq_square)
  finally show "P \<le> of_int d * exact_rate limit window * (1 + slack)"
    using rr(2) unfolding P E by linarith
  have "s * r * (1 - slack) \<le> s * r * ((1 - ulp) ^ 2 * ((1 - ulp) / (1 + ulp) ^ 2) * (1 - ulp))"
    using pos by (intro mult_left_mono) (simp_all add: ulp_def slack_def power2_eq_square)
  also have "\<dots> = s * (1 - ulp) ^ 2 * (r * ((1 - ulp) / (1 + ulp) ^ 2)) * (1 - ulp)" by simp
  also have "\<dots> \<le> S * R * (1 - ulp)"
    using lo ulp_pos by (intro mult_right_mono) simp_all
  finally show "of_int d * exact_rate limit window * (1 - slack) \<le> P"
    using rr(1) unfolding P E by linarith
qed

lemma seconds64_nonpos: "d \<le> 0 \<Longrightarrow> seconds64 d \<le> 0"
proof -
  assume d: "d \<le> 0"
  have "0 \<le> round64 (of_int (\<bar>d\<bar> div second) + round64 (of_int (\<bar>d\<bar> mod second) / 10 ^ 9))"
    by (intro round64_nonneg add_nonneg_nonneg divide_nonneg_nonneg) (simp_all add: second_def)
  with d show ?thesis by (cases "d = 0") (simp_all add: seconds64_def Let_def)
qed

lemma round64_nonpos: "q \<le> 0 \<Longrightarrow> round64 q \<le> 0"
  using round64_nonneg [of "- q"] by (simp add: round64_minus)

lemma refill_product_nonpos:
  assumes "limits_ok limit window" "d \<le> 0"
  shows "round64 (seconds64 d * refill_rate limit window) \<le> 0"
  using refill_rate_bounds(3) [OF assms(1)] seconds64_nonpos [OF assms(2)]
  by (intro round64_nonpos mult_nonpos_nonneg) simp_all

text \<open>A refill never adds more tokens than the elapsed time is worth.\<close>

lemma tokens_to_add_le:
  assumes "limits_ok limit window" "d \<le> 2 ^ 63"
    and "tokens_to_add d (refill_rate limit window) = Some n" "0 < n"
  shows "0 < d" "of_int n \<le> of_int d * exact_rate limit window * (1 + slack)"
proof -
  define P where "P = round64 (seconds64 d * refill_rate limit window)"
  have n: "n = trunc_int P" using assms(3) by (simp add: tokens_to_add_def to_int64_def P_def split: if_splits)
  then have P: "0 < P" "of_int n \<le> P" using trunc_int_pos_le assms(4) by simp_all
  show d: "0 < d"
    using P(1) refill_product_nonpos [OF assms(1), of d] by (cases "d \<le> 0") (simp_all add: P_def)
  show "of_int n \<le> of_int d * exact_rate limit window * (1 + slack)"
    using P(2) refill_product_bounds(2) [OF assms(1) d assms(2)] by (simp add: P_def)
qed

lemma time_sub_le: "u \<le> t \<Longrightarrow> time_sub t u \<le> t - u"
  by (simp add: time_sub_def)

lemma time_sub_range: "- (2 ^ 63) \<le> time_sub t u" "time_sub t u \<le> 2 ^ 63"
  by (simp_all add: time_sub_def)

lemma time_sub_pos: "0 < time_sub t u \<Longrightarrow> time_sub t u \<le> t - u"
  by (auto simp: time_sub_def max_def min_def split: if_splits)

lemma exact_rate_le: "limits_ok limit window \<Longrightarrow> exact_rate limit window \<le> 1 / 10"
proof -
  assume l: "limits_ok limit window"
  have "(of_int limit :: rat) \<le> of_int (10 ^ 8)" "(of_int (10 ^ 9) :: rat) \<le> of_int window"
    using l unfolding of_int_le_iff by (simp_all add: limits_ok_def second_def)
  moreover have "0 < limit" "0 < window" using l by (simp_all add: limits_ok_def second_def)
  ultimately have "(of_int limit / of_int window :: rat) \<le> 10 ^ 8 / 10 ^ 9"
    by (intro frac_le) simp_all
  then show ?thesis by (simp add: exact_rate_def)
qed

lemma refill_product_less:
  assumes "limits_ok limit window" "- (2 ^ 63) \<le> d" "d \<le> 2 ^ 63"
  shows "\<bar>round64 (seconds64 d * refill_rate limit window)\<bar> < 2 ^ 62"
proof -
  have pos: "round64 (seconds64 d * refill_rate limit window) < 2 ^ 62" if d: "0 < d" "d \<le> 2 ^ 63" for d
  proof -
    have "(of_int d :: rat) \<le> of_int (2 ^ 63)" using d(2) by (simp only: of_int_le_iff)
    then have "of_int d * exact_rate limit window * (1 + slack) \<le> 2 ^ 63 * (1 / 10) * 2"
      using exact_rate_le [OF assms(1)] exact_rate_pos [OF assms(1)] d
      by (intro mult_mono) (simp_all add: slack_def)
    then show ?thesis using refill_product_bounds(2) [OF assms(1) d] by simp
  qed
  consider "0 < d" | "d = 0" | "d < 0" by linarith
  then show ?thesis
  proof cases
    case 1
    then show ?thesis using pos [of d] refill_product_bounds(3) [OF assms(1) 1 assms(3)] assms(3) by simp
  next
    case 2
    then show ?thesis by (simp add: seconds64_def)
  next
    case 3
    have "seconds64 d = - seconds64 (- d)" using 3 by (simp add: seconds64_def Let_def)
    then have "round64 (seconds64 d * refill_rate limit window) =
        - round64 (seconds64 (- d) * refill_rate limit window)"
      by (simp add: round64_minus)
    moreover have "0 < - d" "- d \<le> 2 ^ 63" using 3 assms(2) by simp_all
    ultimately show ?thesis using pos [of "- d"] refill_product_bounds(3) [OF assms(1), of "- d"] by simp
  qed
qed

lemma trunc_int_bound: "\<bar>q\<bar> < of_int k \<Longrightarrow> \<bar>trunc_int q\<bar> < k"
proof -
  assume "\<bar>q\<bar> < of_int k"
  moreover have "0 \<le> \<lfloor>- q\<rfloor>" if "q < 0" using that by simp
  then have "\<bar>trunc_int q\<bar> = \<lfloor>\<bar>q\<bar>\<rfloor>" by (auto simp: trunc_int_def)
  ultimately show ?thesis by (simp add: floor_less_iff)
qed

lemma tokens_to_add_total:
  assumes "limits_ok limit window" "- (2 ^ 63) \<le> d" "d \<le> 2 ^ 63"
  obtains n where "tokens_to_add d (refill_rate limit window) = Some n" "\<bar>n\<bar> < 2 ^ 62"
proof -
  define P where "P = round64 (seconds64 d * refill_rate limit window)"
  have P: "\<bar>P\<bar> < 2 ^ 62" using refill_product_less [OF assms] by (simp add: P_def)
  then have "tokens_to_add d (refill_rate limit window) = Some (trunc_int P)"
    by (simp add: tokens_to_add_def to_int64_def P_def)
  moreover have "\<bar>trunc_int P\<bar> < 2 ^ 62" using P trunc_int_bound [of P "2 ^ 62"] by simp
  ultimately show thesis by (rule that)
qed

lemma unscale:
  fixes a b x :: rat
  shows "0 < a \<Longrightarrow> 0 < b \<Longrightarrow> 0 < x \<Longrightarrow>
    1 / (x * 10 ^ 9 * (b / a ^ 2)) * a * 10 ^ 9 * a = 1 / x * (a ^ 2 / b * a * a)"
  by (simp add: field_simps)

lemma exact_rate_range:
  assumes "limits_ok limit window"
  shows "1 / 2 ^ 62 \<le> exact_rate limit window" "exact_rate limit window \<le> 1 / 10"
proof -
  have "(of_int window :: rat) \<le> of_int (2 ^ 62)" "(of_int 1 :: rat) \<le> of_int limit" "0 < window"
    using assms unfolding of_int_le_iff by (simp_all add: limits_ok_def second_def)
  then show "1 / 2 ^ 62 \<le> exact_rate limit window" unfolding exact_rate_def by (intro frac_le) simp_all
  show "exact_rate limit window \<le> 1 / 10" using exact_rate_le [OF assms] by simp
qed

text \<open>\<^verbatim>\<open>1 / rate * 1e9\<close>: both operations are in the normal range, each with its relative error.\<close>

lemma inverse_rate_bounds:
  assumes "limits_ok limit window"
  defines "R \<equiv> refill_rate limit window"
  defines "y \<equiv> round64 (1 / R)"
  shows "1 / R * (1 - ulp) \<le> y" "y \<le> 1 / R * (1 + ulp)" "0 < y"
    and "y * 10 ^ 9 * (1 - ulp) \<le> round64 (y * 10 ^ 9)" "round64 (y * 10 ^ 9) \<le> y * 10 ^ 9 * (1 + ulp)"
      "0 < round64 (y * 10 ^ 9)"
proof -
  define x where "x = exact_rate limit window"
  have x: "0 < x" "x \<le> 1 / 10" using exact_rate_pos [OF assms(1)] exact_rate_range [OF assms(1)] by (simp_all add: x_def)
  have R: "R \<le> x * 10 ^ 9 * ((1 + ulp) / (1 - ulp) ^ 2)" "0 < R"
    using refill_rate_bounds [OF assms(1)] by (simp_all add: R_def x_def)
  have "R \<le> 1 / 10 * 10 ^ 9 * 2"
    using R(1) mult_mono [of "x * 10 ^ 9" "1 / 10 * 10 ^ 9" "(1 + ulp) / (1 - ulp) ^ 2" 2] x
    by (simp add: ulp_def power2_eq_square)
  then have R31: "1 / 2 ^ 31 \<le> 1 / R" using R(2) by (intro divide_left_mono) simp_all
  moreover have "1 / 2 ^ 200 \<le> (1 / 2 ^ 31 :: rat)" by simp
  ultimately have "1 / 2 ^ 200 \<le> 1 / R" by linarith
  then show y: "1 / R * (1 - ulp) \<le> y" "y \<le> 1 / R * (1 + ulp)" "0 < y"
    using round64_rel [of "1 / R"] R(2) normal by (simp_all add: y_def)
  have "1 / 2 ^ 31 * (1 / 2) \<le> 1 / R * (1 - ulp)" using R31 R(2) by (intro mult_mono) (simp_all add: ulp_def)
  from order_trans [OF this y(1)] have "1 / 2 ^ 200 \<le> y * 10 ^ 9" by simp
  then show "y * 10 ^ 9 * (1 - ulp) \<le> round64 (y * 10 ^ 9)" "round64 (y * 10 ^ 9) \<le> y * 10 ^ 9 * (1 + ulp)"
    "0 < round64 (y * 10 ^ 9)"
    using round64_rel [of "y * 10 ^ 9"] y(3) normal by simp_all
qed

lemma retry_after_bounds:
  assumes "limits_ok limit window"
  obtains r where "retry_after (refill_rate limit window) = Some r"
    "of_int window / of_int limit * (1 - slack) - 1 \<le> (of_int r :: rat)"
    "(of_int r :: rat) \<le> of_int window / of_int limit * (1 + slack)" "0 \<le> r"
proof -
  define x where "x = exact_rate limit window"
  define R where "R = refill_rate limit window"
  define y where "y = round64 (1 / R)"
  define z where "z = round64 (y * 10 ^ 9)"
  have x: "0 < x" "1 / 2 ^ 62 \<le> x" using exact_rate_pos [OF assms] exact_rate_range [OF assms] by (simp_all add: x_def)
  have R: "x * 10 ^ 9 * ((1 - ulp) / (1 + ulp) ^ 2) \<le> R" "R \<le> x * 10 ^ 9 * ((1 + ulp) / (1 - ulp) ^ 2)" "0 < R"
    using refill_rate_bounds [OF assms] by (simp_all add: R_def x_def)
  note yz = inverse_rate_bounds [OF assms, folded R_def, folded y_def, folded z_def]
  have inv: "1 / x = of_int window / of_int limit" by (simp add: x_def exact_rate_def)
  have a: "1 / (x * 10 ^ 9 * ((1 + ulp) / (1 - ulp) ^ 2)) \<le> 1 / R"
    using R x ulp_pos by (intro divide_left_mono) simp_all
  have b: "1 / R \<le> 1 / (x * 10 ^ 9 * ((1 - ulp) / (1 + ulp) ^ 2))"
    using R x ulp_pos by (intro divide_left_mono) simp_all
  have "z \<le> 1 / (x * 10 ^ 9 * ((1 - ulp) / (1 + ulp) ^ 2)) * (1 + ulp) * 10 ^ 9 * (1 + ulp)"
    using yz(2,5) b ulp_pos by (elim order_trans) (intro mult_right_mono order_trans [OF yz(2)]; simp)
  also have "\<dots> = 1 / x * ((1 + ulp) ^ 2 / (1 - ulp) * (1 + ulp) * (1 + ulp))"
    using x(1) ulp_pos by (intro unscale) simp_all
  also have "\<dots> \<le> 1 / x * (1 + slack)"
    using x(1) by (intro mult_left_mono) (simp_all add: ulp_def slack_def power2_eq_square)
  finally have up: "z \<le> 1 / x * (1 + slack)" .
  have "1 / x * (1 - slack) \<le> 1 / x * ((1 - ulp) ^ 2 / (1 + ulp) * (1 - ulp) * (1 - ulp))"
    using x(1) by (intro mult_left_mono) (simp_all add: ulp_def slack_def power2_eq_square)
  also have "\<dots> = 1 / (x * 10 ^ 9 * ((1 + ulp) / (1 - ulp) ^ 2)) * (1 - ulp) * 10 ^ 9 * (1 - ulp)"
    using x(1) ulp_pos by (intro unscale [symmetric]) simp_all
  also have "\<dots> \<le> y * 10 ^ 9 * (1 - ulp)"
    using a yz(1) ulp_pos by (intro mult_right_mono order_trans [OF _ yz(1)]) simp_all
  finally have lo: "1 / x * (1 - slack) \<le> z" using yz(4) by linarith
  have "1 / x \<le> 2 ^ 62" using divide_left_mono [OF x(2), of 1] x(1) by simp
  then have "1 / x * (1 + slack) < 2 ^ 62 * 2"
    using x(1) by (intro mult_le_less_imp_less) (simp_all add: slack_def)
  then have "retry_after (refill_rate limit window) = Some \<lfloor>z\<rfloor>"
    using up yz(6) by (simp add: retry_after_def to_int64_def trunc_int_def z_def y_def R_def)
  then show thesis
  proof (rule that)
    show "of_int window / of_int limit * (1 - slack) - 1 \<le> (of_int \<lfloor>z\<rfloor> :: rat)" using lo unfolding inv by linarith
    show "(of_int \<lfloor>z\<rfloor> :: rat) \<le> of_int window / of_int limit * (1 + slack)" using up unfolding inv by linarith
    show "0 \<le> \<lfloor>z\<rfloor>" using yz(6) by simp
  qed
qed

subsection \<open>Histories\<close>

text \<open>
  A history of calls and clean-ups with the clock each of them reads; \<open>lims\<close> gives the limit and the
  window the callers use for a key.
\<close>

datatype rl_op = RCheck gotime string | RCleanup gotime

fun rl_time :: "rl_op \<Rightarrow> gotime" where
  "rl_time (RCheck t k) = t"
| "rl_time (RCleanup t) = t"

fun rl_step :: "(string \<Rightarrow> int \<times> duration) \<Rightarrow> rl_op \<Rightarrow> buckets \<Rightarrow> limit_result option \<times> buckets" where
  "rl_step lims (RCheck t k) bs =
     (case CheckRateLimit t k (fst (lims k)) (snd (lims k)) bs of
        None \<Rightarrow> (None, bs) | Some (r, bs') \<Rightarrow> (Some r, bs'))"
| "rl_step lims (RCleanup t) bs = (None, cleanup t bs)"

fun admits :: "string \<Rightarrow> rl_op \<Rightarrow> limit_result option \<Rightarrow> bool" where
  "admits k (RCheck t k') (Some r) = (k = k' \<and> lr_allowed r)"
| "admits k _ _ = False"

text \<open>The number of requests under a key that a history admits.\<close>

fun rl_admitted :: "(string \<Rightarrow> int \<times> duration) \<Rightarrow> string \<Rightarrow> rl_op list \<Rightarrow> buckets \<Rightarrow> nat" where
  "rl_admitted lims k [] bs = 0"
| "rl_admitted lims k (x # xs) bs =
     (case rl_step lims x bs of
        (r, bs') \<Rightarrow> (if admits k x r then 1 else 0) + rl_admitted lims k xs bs')"

text \<open>The buckets after a history.\<close>

fun rl_run :: "(string \<Rightarrow> int \<times> duration) \<Rightarrow> rl_op list \<Rightarrow> buckets \<Rightarrow> buckets" where
  "rl_run lims [] bs = bs"
| "rl_run lims (x # xs) bs = rl_run lims xs (snd (rl_step lims x bs))"

text \<open>The clock never runs backwards between two operations.\<close>

fun clock_from :: "gotime \<Rightarrow> rl_op list \<Rightarrow> bool" where
  "clock_from t [] = True"
| "clock_from t (x # xs) = (t \<le> rl_time x \<and> clock_from (rl_time x) xs)"

fun last_time :: "gotime \<Rightarrow> rl_op list \<Rightarrow> gotime" where
  "last_time t [] = t"
| "last_time t (x # xs) = last_time (rl_time x) xs"

lemma last_time_mono: "clock_from t xs \<Longrightarrow> t \<le> last_time t xs"
  by (induction xs arbitrary: t) force+

subsection \<open>One call\<close>

lemma CheckRateLimit_other:
  "CheckRateLimit t k l w bs = Some (r, bs') \<Longrightarrow> k' \<noteq> k \<Longrightarrow> bs' k' = bs k'"
  by (auto simp: CheckRateLimit_def Let_def split: if_splits option.splits)

text \<open>The bucket a call works on, after the refill.\<close>

definition bucket_at :: "gotime \<Rightarrow> int \<Rightarrow> duration \<Rightarrow> rate_bucket option \<Rightarrow> rate_bucket option" where
  "bucket_at t limit window bo =
     (case bo of None \<Rightarrow> Some \<lparr>tokens = limit, lastRefill = t, lastAccessed = t\<rparr>
      | Some b \<Rightarrow> refill t limit (refill_rate limit window) b)"

lemma refill_Some:
  assumes "limits_ok limit window" "0 \<le> tokens b" "tokens b \<le> 2 ^ 62"
  obtains b' n where "refill t limit (refill_rate limit window) b = Some b'"
    "lastAccessed b' = t"
    "(n \<le> 0 \<and> tokens b' = tokens b \<and> lastRefill b' = lastRefill b) \<or>
     (0 < n \<and> tokens b' = min limit (tokens b + n) \<and> lastRefill b' = t \<and> lastRefill b < t \<and>
      of_int n \<le> of_int (t - lastRefill b) * exact_rate limit window * (1 + slack))"
    "tokens_to_add (time_sub t (lastRefill b)) (refill_rate limit window) = Some n"
proof -
  let ?d = "time_sub t (lastRefill b)"
  obtain n where n: "tokens_to_add ?d (refill_rate limit window) = Some n" "\<bar>n\<bar> < 2 ^ 62"
    using tokens_to_add_total [OF assms(1) time_sub_range] by metis
  have i: "int64_of (tokens b + n) = tokens b + n" if "0 < n"
    using that n(2) assms(2,3) by (intro int64_of_id) simp_all
  show thesis
  proof (cases "0 < n")
    case False
    then show ?thesis using n by (intro that [of "b\<lparr>lastAccessed := t\<rparr>" n]) (simp_all add: refill_def)
  next
    case True
    note le = tokens_to_add_le [OF assms(1) time_sub_range(2) n(1) True]
    have d: "?d \<le> t - lastRefill b" using le(1) by (rule time_sub_pos)
    then have "(of_int ?d :: rat) \<le> of_int (t - lastRefill b)" by (simp only: of_int_le_iff)
    then have "of_int ?d * exact_rate limit window * (1 + slack)
        \<le> of_int (t - lastRefill b) * exact_rate limit window * (1 + slack)"
      using exact_rate_pos [OF assms(1)] by (intro mult_right_mono) (simp_all add: slack_def)
    with le(2) have "of_int n \<le> of_int (t - lastRefill b) * exact_rate limit window * (1 + slack)"
      by (rule order_trans)
    with True d le(1) n i show ?thesis
      by (intro that [of "b\<lparr>tokens := min limit (tokens b + n), lastRefill := t, lastAccessed := t\<rparr>" n])
         (simp_all add: refill_def)
  qed
qed

lemma CheckRateLimit_cases:
  assumes "limits_ok limit window" "bucket_at t limit window (bs k) = Some b"
  obtains (allowed) "0 < tokens b"
      "CheckRateLimit t k limit window bs =
         Some (\<lparr>lr_allowed = True, lr_remaining = tokens b - 1, lr_reset_at = t + window, lr_retry_after = 0\<rparr>,
           bs(k \<mapsto> b\<lparr>tokens := tokens b - 1\<rparr>))"
  | (limited) r where "tokens b \<le> 0" "retry_after (refill_rate limit window) = Some r"
      "CheckRateLimit t k limit window bs =
         Some (\<lparr>lr_allowed = False, lr_remaining = 0, lr_reset_at = t + r, lr_retry_after = r\<rparr>, bs(k \<mapsto> b))"
proof -
  obtain r where r: "retry_after (refill_rate limit window) = Some r"
    using retry_after_bounds [OF assms(1)] by metis
  have lims: "0 < limit" "0 < window" using assms(1) by (simp_all add: limits_ok_def second_def)
  show thesis
  proof (cases "0 < tokens b")
    case True
    show ?thesis
      by (rule allowed [OF True])
         (use assms(2) lims True in \<open>simp add: CheckRateLimit_def Let_def bucket_at_def\<close>)
  next
    case False
    show ?thesis
      by (rule limited [OF _ r])
         (use assms(2) lims False r in \<open>simp_all add: CheckRateLimit_def Let_def bucket_at_def\<close>)
  qed
qed

subsection \<open>The bound\<close>

text \<open>What is known of a key when \<open>n\<close> of its requests were admitted since \<open>t0\<close> and the clock reads \<open>t\<close>.\<close>

definition rl_inv :: "int \<Rightarrow> duration \<Rightarrow> gotime \<Rightarrow> gotime \<Rightarrow> nat \<Rightarrow> rate_bucket option \<Rightarrow> bool" where
  "rl_inv limit window t0 t n bo \<longleftrightarrow>
     (let c = exact_rate limit window * (1 + slack) in
      t0 \<le> t \<and>
      (case bo of
         None \<Rightarrow> of_nat n \<le> c * of_int (t - t0)
       | Some b \<Rightarrow> 0 \<le> tokens b \<and> tokens b \<le> limit \<and> lastRefill b \<le> lastAccessed b \<and> lastAccessed b \<le> t \<and>
           of_nat n + of_int (tokens b) \<le> of_int limit + c * of_int (lastRefill b - t0)))"

lemma rl_inv_bound:
  assumes "limits_ok limit window" "rl_inv limit window t0 t n bo"
  shows "of_nat n \<le> of_int limit + of_int (t - t0) * exact_rate limit window * (1 + slack)"
proof (cases bo)
  case None
  have "(0 :: rat) \<le> of_int limit" using assms(1) by (simp add: limits_ok_def)
  then show ?thesis using assms(2) None by (simp add: rl_inv_def Let_def ac_simps)
next
  case (Some b)
  define c where "c = exact_rate limit window * (1 + slack)"
  have c: "0 \<le> c" using exact_rate_pos [OF assms(1)] by (simp add: c_def slack_def)
  have i: "0 \<le> tokens b" "lastRefill b \<le> t"
    "of_nat n + of_int (tokens b) \<le> of_int limit + c * of_int (lastRefill b - t0)"
    using assms(2) Some by (simp_all add: rl_inv_def Let_def c_def)
  have "(0 :: rat) \<le> of_int (tokens b)" using i(1) by simp
  moreover have "c * of_int (lastRefill b - t0) \<le> c * of_int (t - t0)"
    using c i(2) by (intro mult_left_mono) simp_all
  ultimately have "of_nat n \<le> of_int limit + c * of_int (t - t0)" using i(3) by linarith
  then show ?thesis by (simp add: c_def ac_simps)
qed

lemma rate_scale:
  assumes "limits_ok limit window" "x \<le> y"
  shows "exact_rate limit window * (1 + slack) * of_int x \<le> exact_rate limit window * (1 + slack) * of_int y"
  using assms(2) exact_rate_pos [OF assms(1)]
  by (intro mult_left_mono) (simp_all add: slack_def)

lemma rl_inv_wait:
  assumes "limits_ok limit window" "rl_inv limit window t0 t n bo" "t \<le> t'"
  shows "rl_inv limit window t0 t' n bo"
  using assms rate_scale [OF assms(1), of "t - t0" "t' - t0"]
  by (cases bo) (auto simp: rl_inv_def Let_def)

lemma rl_inv_bucket:
  assumes l: "limits_ok limit window" and i: "rl_inv limit window t0 t n bo" and "t \<le> t'"
  obtains b where "bucket_at t' limit window bo = Some b" "rl_inv limit window t0 t' n (Some b)"
proof (cases bo)
  case None
  have "of_nat n \<le> exact_rate limit window * (1 + slack) * of_int (t' - t0)" "t0 \<le> t'"
    using i None rate_scale [OF l, of "t - t0" "t' - t0"] assms(3) by (auto simp: rl_inv_def Let_def)
  moreover have "0 \<le> limit" using l by (simp add: limits_ok_def)
  ultimately show ?thesis using None
    by (intro that [of "\<lparr>tokens = limit, lastRefill = t', lastAccessed = t'\<rparr>"])
       (simp_all add: bucket_at_def rl_inv_def Let_def)
next
  case (Some b)
  define c where "c = exact_rate limit window * (1 + slack)"
  have b: "0 \<le> tokens b" "tokens b \<le> limit" "lastRefill b \<le> t'" "t0 \<le> t'"
    "of_nat n + of_int (tokens b) \<le> of_int limit + c * of_int (lastRefill b - t0)"
    using i Some assms(3) by (auto simp: rl_inv_def Let_def c_def)
  have "tokens b \<le> 2 ^ 62" using b(2) l by (simp add: limits_ok_def)
  then obtain b' m where b': "refill t' limit (refill_rate limit window) b = Some b'" "lastAccessed b' = t'"
    "(m \<le> 0 \<and> tokens b' = tokens b \<and> lastRefill b' = lastRefill b) \<or>
     (0 < m \<and> tokens b' = min limit (tokens b + m) \<and> lastRefill b' = t' \<and> lastRefill b < t' \<and>
      of_int m \<le> of_int (t' - lastRefill b) * exact_rate limit window * (1 + slack))"
    using refill_Some [OF l b(1)] by metis
  have "rl_inv limit window t0 t' n (Some b')"
    using b'(3)
  proof (elim disjE conjE)
    assume "tokens b' = tokens b" "lastRefill b' = lastRefill b"
    then show ?thesis using b b'(2) by (simp add: rl_inv_def Let_def c_def)
  next
    assume m: "0 < m" "tokens b' = min limit (tokens b + m)" "lastRefill b' = t'"
      "of_int m \<le> of_int (t' - lastRefill b) * exact_rate limit window * (1 + slack)"
    have "(of_int (tokens b') :: rat) \<le> of_int (tokens b + m)" using m(2) by (simp only: of_int_le_iff)
    moreover have "of_int m \<le> c * of_int (t' - t0) - c * of_int (lastRefill b - t0)"
      using m(4) by (simp add: c_def algebra_simps)
    ultimately have "of_nat n + of_int (tokens b') \<le> of_int limit + c * of_int (t' - t0)"
      using b(5) by simp
    then show ?thesis using m b b'(2) l by (auto simp: rl_inv_def Let_def c_def limits_ok_def)
  qed
  then show ?thesis using b'(1) Some by (intro that [of b']) (simp_all add: bucket_at_def)
qed

lemma rl_inv_check:
  assumes l: "limits_ok limit window" and i: "rl_inv limit window t0 t n (bs k)" "t \<le> t'"
  obtains r bs' where "CheckRateLimit t' k limit window bs = Some (r, bs')"
    "rl_inv limit window t0 t' (n + (if lr_allowed r then 1 else 0)) (bs' k)"
    "0 \<le> lr_remaining r" "lr_remaining r < limit" "0 \<le> lr_retry_after r"
proof -
  obtain b where b: "bucket_at t' limit window (bs k) = Some b" "rl_inv limit window t0 t' n (Some b)"
    using rl_inv_bucket [OF l i] by metis
  show thesis
    using l b(1)
  proof (cases rule: CheckRateLimit_cases)
    case allowed
    then show ?thesis using b(2) by (intro that) (auto simp: rl_inv_def Let_def)
  next
    case (limited r)
    moreover have "0 \<le> r" using retry_after_bounds [OF l] limited(2) by (metis option.inject)
    ultimately show ?thesis using b(2) l by (intro that) (auto simp: limits_ok_def)
  qed
qed

text \<open>A bucket idle for two hours is full again, so dropping it gives nothing away.\<close>

lemma rl_inv_cleanup:
  assumes l: "limits_ok limit window" "window \<le> 2 * hour"
    and i: "rl_inv limit window t0 t n (bs k)" "t \<le> t'"
  shows "rl_inv limit window t0 t' n (cleanup t' bs k)"
proof (cases "bs k")
  case None
  then show ?thesis using rl_inv_wait [OF l(1) i] by (simp add: cleanup_def)
next
  case (Some b)
  show ?thesis
  proof (cases "time_sub t' (lastAccessed b) > 2 * hour")
    case False
    then show ?thesis using rl_inv_wait [OF l(1) i] Some by (simp add: cleanup_def)
  next
    case True
    define c where "c = exact_rate limit window * (1 + slack)"
    have b: "0 \<le> tokens b" "lastRefill b \<le> lastAccessed b" "t0 \<le> t'"
      "of_nat n + of_int (tokens b) \<le> of_int limit + c * of_int (lastRefill b - t0)"
      using i Some by (auto simp: rl_inv_def Let_def c_def)
    have "time_sub t' (lastAccessed b) \<le> t' - lastAccessed b"
      using True by (intro time_sub_pos) (simp add: hour_def second_def)
    then have "window \<le> t' - lastRefill b" using True b(2) l(2) by linarith
    then have "c * of_int window \<le> c * of_int (t' - lastRefill b)"
      unfolding c_def by (rule rate_scale [OF l(1)])
    moreover have "of_int limit \<le> c * of_int window"
      using l(1) by (simp add: c_def exact_rate_def limits_ok_def second_def slack_def)
    ultimately have "of_int limit \<le> c * of_int (t' - t0) - c * of_int (lastRefill b - t0)"
      by (simp add: algebra_simps)
    moreover have "(0 :: rat) \<le> of_int (tokens b)" using b(1) by simp
    ultimately have "of_nat n \<le> c * of_int (t' - t0)" using b(4) by linarith
    then show ?thesis using True Some b(3) by (simp add: cleanup_def rl_inv_def Let_def c_def)
  qed
qed

lemma rl_inv_step:
  assumes l: "limits_ok (fst (lims k)) (snd (lims k))" "snd (lims k) \<le> 2 * hour"
    and i: "rl_inv (fst (lims k)) (snd (lims k)) t0 t n (bs k)" "t \<le> rl_time x"
  shows "rl_inv (fst (lims k)) (snd (lims k)) t0 (rl_time x)
    (n + (if admits k x (fst (rl_step lims x bs)) then 1 else 0)) (snd (rl_step lims x bs) k)"
proof (cases x)
  case (RCleanup t')
  then show ?thesis using rl_inv_cleanup [where bs = bs and k = k, OF l i(1)] i(2) by simp
next
  case (RCheck t' k')
  show ?thesis
  proof (cases "k' = k")
    case True
    have "t \<le> t'" using i(2) RCheck by simp
    from rl_inv_check [where bs = bs and k = k, OF l(1) i(1) this] obtain r bs'
      where "CheckRateLimit t' k (fst (lims k)) (snd (lims k)) bs = Some (r, bs')"
        "rl_inv (fst (lims k)) (snd (lims k)) t0 t' (n + (if lr_allowed r then 1 else 0)) (bs' k)"
      by metis
    then show ?thesis using RCheck True by simp
  next
    case False
    have "snd (rl_step lims x bs) k = bs k" "\<not> admits k x (fst (rl_step lims x bs))"
      using RCheck False CheckRateLimit_other [of t' k' "fst (lims k')" "snd (lims k')" bs _ _ k]
      by (auto split: option.splits)
    then show ?thesis using rl_inv_wait [OF l(1) i] by simp
  qed
qed

lemma rl_inv_run:
  "limits_ok (fst (lims k)) (snd (lims k)) \<Longrightarrow> snd (lims k) \<le> 2 * hour \<Longrightarrow>
   rl_inv (fst (lims k)) (snd (lims k)) t0 t n (bs k) \<Longrightarrow> clock_from t xs \<Longrightarrow>
   rl_inv (fst (lims k)) (snd (lims k)) t0 (last_time t xs) (n + rl_admitted lims k xs bs) (rl_run lims xs bs k)"
proof (induction xs arbitrary: t n bs)
  case Nil
  then show ?case by auto
next
  case (Cons x xs)
  obtain r bs' where st: "rl_step lims x bs = (r, bs')" by fastforce
  have "rl_inv (fst (lims k)) (snd (lims k)) t0 (rl_time x) (n + (if admits k x r then 1 else 0)) (bs' k)"
    using rl_inv_step [where lims = lims and k = k and bs = bs, OF Cons.prems(1-3), of x] Cons.prems(4) st by simp
  from Cons.IH [where bs = bs', OF Cons.prems(1,2) this] Cons.prems(4) show ?case
    by (simp add: st add.assoc)
qed

subsection \<open>Answers\<close>

definition bucket_ok :: "int \<Rightarrow> gotime \<Rightarrow> rate_bucket option \<Rightarrow> bool" where
  "bucket_ok limit t bo = (case bo of None \<Rightarrow> True
     | Some b \<Rightarrow> 0 \<le> tokens b \<and> tokens b \<le> limit \<and> lastRefill b \<le> t)"

lemma bucket_ok_at:
  assumes "limits_ok limit window" "bucket_ok limit t bo"
  obtains b where "bucket_at t limit window bo = Some b" "bucket_ok limit t (Some b)" "lastAccessed b = t"
proof (cases bo)
  case None
  then show ?thesis using assms(1)
    by (intro that [of "\<lparr>tokens = limit, lastRefill = t, lastAccessed = t\<rparr>"])
       (simp_all add: bucket_at_def bucket_ok_def limits_ok_def)
next
  case (Some b)
  then have b: "0 \<le> tokens b" "tokens b \<le> limit" "lastRefill b \<le> t"
    using assms(2) by (simp_all add: bucket_ok_def)
  have "tokens b \<le> 2 ^ 62" using b(2) assms(1) by (simp add: limits_ok_def)
  then obtain b' n where "refill t limit (refill_rate limit window) b = Some b'" "lastAccessed b' = t"
    "(n \<le> 0 \<and> tokens b' = tokens b \<and> lastRefill b' = lastRefill b) \<or>
     (0 < n \<and> tokens b' = min limit (tokens b + n) \<and> lastRefill b' = t \<and> lastRefill b < t \<and>
      of_int n \<le> of_int (t - lastRefill b) * exact_rate limit window * (1 + slack))"
    using refill_Some [OF assms(1) b(1)] by metis
  then show ?thesis using Some b by (intro that [of b']) (auto simp: bucket_at_def bucket_ok_def)
qed

text \<open>A wait of at least \<open>d\<close> nanoseconds that is worth a token adds one.\<close>

lemma tokens_to_add_pos:
  assumes "limits_ok limit window" "0 < d" "d \<le> 2 ^ 63" "tokens_to_add d (refill_rate limit window) = Some n"
    and "1 \<le> of_int d * exact_rate limit window * (1 - slack)"
  shows "0 < n"
proof -
  define P where "P = round64 (seconds64 d * refill_rate limit window)"
  have "1 \<le> P" using refill_product_bounds(1) [OF assms(1-3)] assms(5) by (simp add: P_def)
  moreover have "n = trunc_int P" using assms(4) by (simp add: tokens_to_add_def to_int64_def P_def split: if_splits)
  moreover have "trunc_int P = \<lfloor>P\<rfloor>" using \<open>1 \<le> P\<close> by (intro trunc_int_mono_nonneg) simp
  ultimately show ?thesis by simp
qed

lemma retry_is_worth_a_token:
  assumes l: "limits_ok limit window" "window \<le> 2 * hour"
    and r: "retry_after (refill_rate limit window) = Some r" and d: "r + 2 \<le> d"
  shows "1 \<le> of_int d * exact_rate limit window * (1 - slack)"
proof -
  define x :: rat where "x = of_int window / of_int limit"
  have lims: "0 < limit" "0 < window" using l(1) by (simp_all add: limits_ok_def second_def)
  have e: "exact_rate limit window = 1 / x" by (simp add: exact_rate_def x_def)
  have x: "0 < x" using lims by (simp add: x_def)
  have "x \<le> of_int window / 1"
    using lims unfolding x_def by (intro divide_left_mono) simp_all
  moreover have "(of_int window :: rat) \<le> of_int (7200 * 10 ^ 9)"
    using l(2) unfolding of_int_le_iff by (simp add: hour_def second_def)
  ultimately have xs: "x * slack * 2 \<le> 1" by (simp add: slack_def)
  have "x * (1 - slack) - 1 \<le> of_int r"
    using retry_after_bounds [OF l(1)] r by (metis option.inject x_def)
  moreover have "(of_int (r + 2) :: rat) \<le> of_int d" using d by (simp only: of_int_le_iff)
  ultimately have "x * (1 - slack) + 1 \<le> of_int d" by simp
  moreover have "x * (1 - slack) + 1 \<ge> x * (1 + slack)" using xs by (simp add: algebra_simps)
  ultimately have "x * (1 + slack) * (1 - slack) \<le> of_int d * (1 - slack)"
    by (intro mult_right_mono) (simp_all add: slack_def)
  moreover have "x * (1 - slack * slack) + slack * slack * x = x" by (simp add: algebra_simps)
  ultimately have g: "x - slack * slack * x \<le> of_int d * (1 - slack)" by (simp add: algebra_simps)
  have "x * (1 + slack) * (1 - slack) + (1 - slack) * (1 - x * slack * 2) \<le> of_int d * (1 - slack)"
  proof -
    have "x * (1 + slack) + (1 - x * slack * 2) \<le> of_int d"
      using \<open>x * (1 - slack) + 1 \<le> of_int d\<close> by (simp add: algebra_simps)
    then have "(x * (1 + slack) + (1 - x * slack * 2)) * (1 - slack) \<le> of_int d * (1 - slack)"
      by (intro mult_right_mono) (simp_all add: slack_def)
    then show ?thesis by (simp add: algebra_simps)
  qed
  moreover have "slack * slack * x \<le> (1 - slack) * (1 - x * slack * 2)"
  proof -
    have "x * slack \<le> 1 / 100"
      using \<open>x \<le> of_int window / 1\<close> \<open>(of_int window :: rat) \<le> of_int (7200 * 10 ^ 9)\<close> by (simp add: slack_def)
    then have "slack * (x * slack) \<le> 1 / 2 * (1 / 100)" using x by (intro mult_mono) (simp_all add: slack_def)
    moreover have "1 / 2 * (1 / 2) \<le> (1 - slack) * (1 - x * slack * 2)"
      using \<open>x * slack \<le> 1 / 100\<close> by (intro mult_mono) (simp_all add: slack_def)
    moreover have "slack * slack * x = slack * (x * slack)" by (simp add: ac_simps)
    ultimately show ?thesis by linarith
  qed
  ultimately have "x \<le> of_int d * (1 - slack)" by (simp add: algebra_simps)
  then show ?thesis using x by (simp add: e field_simps)
qed

subsection \<open>Stopping\<close>

text \<open>
  \<^verbatim>\<open>stopCleanup\<close> and \<^verbatim>\<open>cleanupDone\<close> are channels with room for one value; \<open>stoppers\<close> counts the
  callers of \<^verbatim>\<open>Stop\<close> that wait on \<^verbatim>\<open>cleanupDone\<close>.
\<close>

record stop_state =
  stop_buffer :: nat
  done_buffer :: nat
  routine_running :: bool
  stoppers :: nat

definition new_stop_state :: stop_state where
  "new_stop_state = \<lparr>stop_buffer = 0, done_buffer = 0, routine_running = True, stoppers = 0\<rparr>"

definition stop_begin :: "stop_state \<Rightarrow> stop_state" where
  "stop_begin s = (if stop_buffer s < 1 then s\<lparr>stop_buffer := stop_buffer s + 1, stoppers := stoppers s + 1\<rparr> else s)"

definition routine_stop :: "stop_state \<Rightarrow> stop_state option" where
  "routine_stop s =
     (if routine_running s \<and> 0 < stop_buffer s \<and> done_buffer s < 1
      then Some (s\<lparr>stop_buffer := stop_buffer s - 1, routine_running := False, done_buffer := done_buffer s + 1\<rparr>)
      else None)"

definition stop_finish :: "stop_state \<Rightarrow> stop_state option" where
  "stop_finish s =
     (if 0 < stoppers s \<and> 0 < done_buffer s
      then Some (s\<lparr>stoppers := stoppers s - 1, done_buffer := done_buffer s - 1\<rparr>) else None)"

inductive stop_step :: "stop_state \<Rightarrow> stop_state \<Rightarrow> bool" where
  begin_stop: "stop_step s (stop_begin s)"
| end_routine: "routine_stop s = Some s' \<Longrightarrow> stop_step s s'"
| end_stop: "stop_finish s = Some s' \<Longrightarrow> stop_step s s'"

inductive_cases stop_stepE: "stop_step s s'"

text \<open>Once the goroutine is gone and its signal consumed, a waiting \<^verbatim>\<open>Stop\<close> waits for ever.\<close>

lemma stuck_step:
  "stop_step s s' \<Longrightarrow> \<not> routine_running s \<Longrightarrow> done_buffer s = 0 \<Longrightarrow>
   \<not> routine_running s' \<and> done_buffer s' = 0 \<and> stoppers s \<le> stoppers s'"
  by (auto elim!: stop_stepE simp: stop_begin_def routine_stop_def stop_finish_def split: if_splits)

lemma stuck_run:
  "stop_step\<^sup>*\<^sup>* s s' \<Longrightarrow> \<not> routine_running s \<Longrightarrow> done_buffer s = 0 \<Longrightarrow>
   \<not> routine_running s' \<and> done_buffer s' = 0 \<and> stoppers s \<le> stoppers s'"
  by (induction rule: rtranclp_induct) (auto dest: stuck_step)

subsection \<open>Properties\<close>

lemma rate_limit_bound_lemma:
  assumes "limits_ok (fst (lims k)) (snd (lims k))" "snd (lims k) \<le> 2 * hour" "clock_from t0 xs"
  shows "of_nat (rl_admitted lims k xs Map.empty) \<le>
    of_int (fst (lims k)) +
    of_int (last_time t0 xs - t0) * (of_int (fst (lims k)) / of_int (snd (lims k))) * (1 + 1 / 2 ^ 50 :: rat)"
proof -
  have "rl_inv (fst (lims k)) (snd (lims k)) t0 t0 0 None" by (simp add: rl_inv_def)
  then have "rl_inv (fst (lims k)) (snd (lims k)) t0 (last_time t0 xs)
      (0 + rl_admitted lims k xs Map.empty) (rl_run lims xs Map.empty k)"
    using rl_inv_run [where lims = lims and k = k and bs = Map.empty and n = 0, OF assms(1,2) _ assms(3)] by auto
  from rl_inv_bound [OF assms(1) this] show ?thesis by (simp add: exact_rate_def slack_def)
qed

subsection \<open>Any window\<close>

text \<open>Within a window the first call under the key counts: a refill by it starts the account afresh at its time, and
  without a refill less than one token has become due since the last one.\<close>

definition window_bound :: "int \<Rightarrow> duration \<Rightarrow> int \<Rightarrow> rat" where
  "window_bound limit window d = of_int limit + (1 + of_int d * (of_int limit / of_int window)) * (1 + 1 / 2 ^ 48)"

lemma window_bound_fresh:
  assumes "limits_ok limit window" "0 \<le> d" "d \<le> d'"
  shows "of_int limit + of_int d * exact_rate limit window * (1 + slack) \<le> window_bound limit window d'"
proof -
  have e: "0 \<le> exact_rate limit window" using exact_rate_pos [OF assms(1)] by simp
  then have "of_int d * exact_rate limit window \<le> of_int d' * exact_rate limit window"
    using assms(3) by (intro mult_right_mono) simp_all
  moreover have "0 \<le> of_int d * exact_rate limit window" using assms(2) e by simp
  ultimately have "of_int d * exact_rate limit window * (1 + slack) \<le> (1 + of_int d' * exact_rate limit window) * (1 + 1 / 2 ^ 48)"
    by (intro mult_mono) (simp_all add: slack_def)
  then show ?thesis by (simp add: window_bound_def exact_rate_def)
qed

lemma window_bound_late:
  assumes "limits_ok limit window" "of_int e * exact_rate limit window * (1 - slack) < 1"
  shows "of_int limit + of_int (d + e) * exact_rate limit window * (1 + slack) \<le> window_bound limit window d \<or> d < 0"
proof (cases "d < 0")
  case False
  define c where "c = exact_rate limit window"
  have "of_int e * c < 1 / (1 - slack)" using assms(2) by (simp add: c_def slack_def field_simps)
  then have "of_int e * c * (1 + slack) \<le> 1 / (1 - slack) * (1 + slack)"
    by (intro mult_right_mono) (simp_all add: slack_def)
  also have "\<dots> \<le> 1 + 1 / 2 ^ 48" by (simp add: slack_def)
  finally have e: "of_int e * c * (1 + slack) \<le> 1 + 1 / 2 ^ 48" .
  have "of_int d * c * (1 + slack) \<le> of_int d * c * (1 + 1 / 2 ^ 48)"
    using False exact_rate_pos [OF assms(1)] by (intro mult_left_mono) (simp_all add: c_def slack_def)
  with e have "of_int (d + e) * c * (1 + slack) \<le> (1 + of_int d * c) * (1 + 1 / 2 ^ 48)" by (simp add: algebra_simps)
  then show ?thesis by (simp add: window_bound_def c_def exact_rate_def)
qed simp

text \<open>A check that does not refill comes less than one token after the last refill.\<close>

lemma no_refill_soon:
  assumes l: "limits_ok limit window" "window \<le> 2 * hour"
    and n: "tokens_to_add (time_sub t u) (refill_rate limit window) = Some n" "n \<le> 0" "u \<le> t"
  shows "of_int (t - u) * exact_rate limit window * (1 - slack) < 1"
proof (cases "t - u \<le> 2 ^ 63 - 1")
  case True
  then have d: "time_sub t u = t - u" using n(3) by (simp add: time_sub_def)
  show ?thesis
  proof (cases "t = u")
    case False
    then show ?thesis
      using tokens_to_add_pos [OF l(1) _ _ n(1)] n(2,3) True unfolding d by (auto simp: not_le [symmetric])
  qed simp
next
  case False
  then have d: "time_sub t u = 2 ^ 63 - 1" by (simp add: time_sub_def)
  have "1 / 2 ^ 62 * (2 ^ 63 - 1) * (1 - slack) \<le> exact_rate limit window * (2 ^ 63 - 1) * (1 - slack)"
    using exact_rate_range [OF l(1)] by (intro mult_right_mono) (simp_all add: slack_def)
  then have "1 \<le> of_int (2 ^ 63 - 1) * exact_rate limit window * (1 - slack)" by (simp add: slack_def ac_simps)
  then show ?thesis using tokens_to_add_pos [OF l(1) _ _ n(1)] n(2) unfolding d by simp
qed

lemma window_bound_mono: "limits_ok limit window \<Longrightarrow> d \<le> d' \<Longrightarrow> window_bound limit window d \<le> window_bound limit window d'"
  using exact_rate_pos [of limit window] unfolding window_bound_def exact_rate_def
  by (intro add_left_mono mult_right_mono) simp_all

definition bucket_fit :: "int \<Rightarrow> gotime \<Rightarrow> rate_bucket option \<Rightarrow> bool" where
  "bucket_fit limit t bo = (case bo of None \<Rightarrow> True
     | Some b \<Rightarrow> 0 \<le> tokens b \<and> tokens b \<le> limit \<and> lastRefill b \<le> lastAccessed b \<and> lastAccessed b \<le> t)"

lemma rl_inv_fit: "rl_inv limit window t0 t n bo \<Longrightarrow> t \<le> t' \<Longrightarrow> bucket_fit limit t' bo"
  by (cases bo) (auto simp: rl_inv_def bucket_fit_def Let_def)

lemma step_elsewhere:
  assumes "x \<noteq> RCheck (rl_time x) k" "rl_step lims x bs = (r, bs')"
  shows "\<not> admits k x r \<and> (bs' k = bs k \<or> bs' k = None)"
proof (cases x)
  case (RCheck t k')
  then show ?thesis
    using assms CheckRateLimit_other [of t k' "fst (lims k')" "snd (lims k')" bs _ _ k] by (auto split: option.splits)
next
  case (RCleanup t)
  then show ?thesis using assms(2) by (auto simp: cleanup_def split: option.splits if_splits)
qed

text \<open>The account of a window whose first call under the key finds a bucket.\<close>

lemma window_check:
  assumes l: "limits_ok (fst (lims k)) (snd (lims k))" "snd (lims k) \<le> 2 * hour"
    and b: "bs k = Some b" "bucket_fit (fst (lims k)) t (bs k)" "t \<le> t'" "clock_from t' xs"
  shows "of_nat (rl_admitted lims k (RCheck t' k # xs) bs) \<le>
    window_bound (fst (lims k)) (snd (lims k)) (last_time t' xs - t')"
proof -
  let ?limit = "fst (lims k)" and ?window = "snd (lims k)"
  have fit: "0 \<le> tokens b" "tokens b \<le> ?limit" "lastRefill b \<le> t'" "lastAccessed b \<le> t'" "lastRefill b \<le> lastAccessed b"
    using b(1-3) by (auto simp: bucket_fit_def)
  have "tokens b \<le> 2 ^ 62" using fit(2) l(1) by (simp add: limits_ok_def)
  then obtain b' n where r: "refill t' ?limit (refill_rate ?limit ?window) b = Some b'" "lastAccessed b' = t'"
    "(n \<le> 0 \<and> tokens b' = tokens b \<and> lastRefill b' = lastRefill b) \<or>
     (0 < n \<and> tokens b' = min ?limit (tokens b + n) \<and> lastRefill b' = t' \<and> lastRefill b < t' \<and>
      of_int n \<le> of_int (t' - lastRefill b) * exact_rate ?limit ?window * (1 + slack))"
    "tokens_to_add (time_sub t' (lastRefill b)) (refill_rate ?limit ?window) = Some n"
    using refill_Some [OF l(1) fit(1)] by metis
  have m: "t' \<le> last_time t' xs" using b(4) by (rule last_time_mono)
  show ?thesis
  proof (cases "0 < n")
    case False
    have "rl_inv ?limit ?window (lastRefill b) t' 0 (bs k)" using b(1) fit by (simp add: rl_inv_def)
    then have "rl_inv ?limit ?window (lastRefill b) (last_time t' xs) (rl_admitted lims k (RCheck t' k # xs) bs)
        (rl_run lims (RCheck t' k # xs) bs k)"
      using rl_inv_run [where lims = lims and k = k and n = 0 and xs = "RCheck t' k # xs", OF l] b(4) by force
    from rl_inv_bound [OF l(1) this] show ?thesis
      using window_bound_late [OF l(1) no_refill_soon [OF l r(4) _ fit(3)], of "last_time t' xs - t'"] False m by simp
  next
    case True
    then have b': "0 \<le> tokens b'" "tokens b' \<le> ?limit" "lastRefill b' = t'" using r(3) fit(1) l(1) by (auto simp: limits_ok_def)
    have "bucket_at t' ?limit ?window (bs k) = Some b'" using b(1) r(1) by (simp add: bucket_at_def)
    with l(1) obtain res bs' where c: "CheckRateLimit t' k ?limit ?window bs = Some (res, bs')"
      "bs' k = Some (b'\<lparr>tokens := tokens b' - (if lr_allowed res then 1 else 0)\<rparr>)" "lr_allowed res \<longrightarrow> 0 < tokens b'"
      by (cases rule: CheckRateLimit_cases) auto
    then have "rl_inv ?limit ?window t' t' (if lr_allowed res then 1 else 0) (bs' k)"
      using b' r(2) by (auto simp: rl_inv_def Let_def)
    then have "rl_inv ?limit ?window t' (last_time t' xs) ((if lr_allowed res then 1 else 0) + rl_admitted lims k xs bs')
        (rl_run lims xs bs' k)"
      by (rule rl_inv_run [where lims = lims and k = k, OF l _ b(4)])
    from rl_inv_bound [OF l(1) this] show ?thesis
      using window_bound_fresh [OF l(1), of "last_time t' xs - t'" "last_time t' xs - t'"] m c(1) by simp
  qed
qed

lemma window_run:
  assumes l: "limits_ok (fst (lims k)) (snd (lims k))" "snd (lims k) \<le> 2 * hour"
  shows "clock_from t ys \<Longrightarrow> last_time t ys \<le> t2 \<Longrightarrow> bucket_fit (fst (lims k)) t (bs k) \<Longrightarrow>
    of_nat (rl_admitted lims k ys bs) \<le> window_bound (fst (lims k)) (snd (lims k)) (t2 - t)"
proof (induction ys arbitrary: t bs)
  case Nil
  then show ?case using window_bound_fresh [OF l(1), of 0 "t2 - t"] l(1) by (simp add: limits_ok_def)
next
  case (Cons x xs)
  have m: "t \<le> rl_time x" "clock_from (rl_time x) xs" "rl_time x \<le> last_time (rl_time x) xs"
    using Cons.prems(1) last_time_mono by auto
  consider "bs k = None" | b where "bs k = Some b" "x = RCheck (rl_time x) k" | "x \<noteq> RCheck (rl_time x) k" by blast
  then show ?case
  proof cases
    case 1
    then have "rl_inv (fst (lims k)) (snd (lims k)) t t 0 (bs k)" by (simp add: rl_inv_def)
    from rl_inv_bound [OF l(1) rl_inv_run [where lims = lims and k = k and bs = bs, OF l this Cons.prems(1)]] show ?thesis
      using window_bound_fresh [OF l(1), of "last_time t (x # xs) - t" "t2 - t"] Cons.prems(2) last_time_mono [OF Cons.prems(1)]
      by simp
  next
    case 2
    then show ?thesis
      using window_check [where lims = lims and k = k and bs = bs, OF l 2(1) Cons.prems(3) m(1,2)]
        window_bound_mono [OF l(1), of "last_time (rl_time x) xs - rl_time x" "t2 - t"] Cons.prems(2) m(1)
      by (metis diff_mono last_time.simps(2) order_trans)
  next
    case 3
    obtain r bs' where st: "rl_step lims x bs = (r, bs')" by fastforce
    note e = step_elsewhere [OF 3 st]
    then have "bucket_fit (fst (lims k)) (rl_time x) (bs' k)"
      using Cons.prems(3) m(1) by (auto simp: bucket_fit_def split: option.splits)
    from Cons.IH [where bs = bs', OF m(2) _ this] show ?thesis
      using Cons.prems(2) e st window_bound_mono [OF l(1), of "t2 - rl_time x" "t2 - t"] m(1) by simp
  qed
qed

text \<open>C19: The token bucket limits the rate in every window. Take any history from an empty limiter, under any keys and
  with clean-ups, on a clock that does not run backwards, and after it any window from \<open>t1\<close> to \<open>t2\<close>. The requests admitted
  under a key within the window number at most its limit plus what the length of the window is worth at limit per
  window plus one, for the part of a token that was due at the start, up to a factor of one plus \<^verbatim>\<open>2^-48\<close> for
  the rounding of \<^verbatim>\<open>float64\<close>. However long the key was idle before, no more than its limit has been saved up, and
  dropping idle buckets after two hours admits nothing extra, as long as the limiter's window is at most two hours.\<close>

theorem rate_limit_bound:
  assumes "limits_ok (fst (lims k)) (snd (lims k))" "snd (lims k) \<le> 2 * hour"
    and "clock_from t0 xs" "last_time t0 xs \<le> t1" "clock_from t1 ys" "last_time t1 ys \<le> t2"
  shows "of_nat (rl_admitted lims k ys (rl_run lims xs Map.empty)) \<le>
    of_int (fst (lims k)) +
    (1 + of_int (t2 - t1) * (of_int (fst (lims k)) / of_int (snd (lims k)))) * (1 + 1 / 2 ^ 48 :: rat)"
proof -
  have "rl_inv (fst (lims k)) (snd (lims k)) t0 t0 0 (Map.empty k)" by (simp add: rl_inv_def)
  from rl_inv_run [where lims = lims and k = k and bs = Map.empty, OF assms(1,2) this assms(3)]
  have "bucket_fit (fst (lims k)) t1 (rl_run lims xs Map.empty k)" using assms(4) by (rule rl_inv_fit)
  from window_run [where lims = lims and k = k and bs = "rl_run lims xs Map.empty", OF assms(1,2,5,6) this] show ?thesis by (simp add: window_bound_def)
qed

theorem rate_limit_bound_witness:
  "of_nat (rl_admitted (\<lambda>k. (10, 60000000000)) ''create_paste:1.2.3.4''
      [RCheck 90000000000 ''create_paste:1.2.3.4'', RCheck 90000000005 ''create_paste:1.2.3.4'']
      (rl_run (\<lambda>k. (10, 60000000000)) [RCheck 5 ''create_paste:1.2.3.4'', RCleanup 9] Map.empty)) \<le>
    (10 + (1 + 30000000000 * (10 / 60000000000)) * (1 + 1 / 2 ^ 48) :: rat)"
  using rate_limit_bound [of "\<lambda>k. (10, 60000000000)" "''create_paste:1.2.3.4''" 5
      "[RCheck 5 ''create_paste:1.2.3.4'', RCleanup 9]" 80000000000
      "[RCheck 90000000000 ''create_paste:1.2.3.4'', RCheck 90000000005 ''create_paste:1.2.3.4'']" 110000000000]
  by (simp add: limits_ok_def second_def hour_def del: rl_admitted.simps rl_run.simps)

subsection \<open>Answers to the client\<close>

text \<open>What a call answers. For a key whose bucket holds no more than its limit, a call always has an
  answer and leaves such a bucket. An admitted request is told how many more it may make, fewer than
  the limit, and no wait; a refused one is told a wait within a nanosecond and rounding of window
  divided by limit, and a reset time that matches it.\<close>

theorem rate_limit_answer:
  assumes "limits_ok limit window" "bucket_ok limit t (bs k)"
  shows "\<exists>r bs'. CheckRateLimit t k limit window bs = Some (r, bs') \<and> bucket_ok limit t (bs' k) \<and>
    (if lr_allowed r
     then 0 \<le> lr_remaining r \<and> lr_remaining r < limit \<and> lr_retry_after r = 0 \<and> lr_reset_at r = t + window
     else lr_remaining r = 0 \<and> lr_reset_at r = t + lr_retry_after r \<and> 0 \<le> lr_retry_after r \<and>
       of_int window / of_int limit * (1 - 1 / 2 ^ 50) - 1 \<le> (of_int (lr_retry_after r) :: rat) \<and>
       (of_int (lr_retry_after r) :: rat) \<le> of_int window / of_int limit * (1 + 1 / 2 ^ 50))"
proof -
  obtain b where b: "bucket_at t limit window (bs k) = Some b" "bucket_ok limit t (Some b)"
    using bucket_ok_at [OF assms] by metis
  show ?thesis
    using assms(1) b(1)
  proof (cases rule: CheckRateLimit_cases)
    case allowed
    then show ?thesis using b(2) by (simp add: bucket_ok_def)
  next
    case (limited r)
    obtain r' where "retry_after (refill_rate limit window) = Some r'"
      "of_int window / of_int limit * (1 - slack) - 1 \<le> (of_int r' :: rat)"
      "(of_int r' :: rat) \<le> of_int window / of_int limit * (1 + slack)" "0 \<le> r'"
      by (rule retry_after_bounds [OF assms(1)])
    then show ?thesis using limited b(2) by (simp add: bucket_ok_def slack_def)
  qed
qed

theorem rate_limit_answer_witness:
  "\<exists>r bs'. CheckRateLimit 5 ''k'' 10 60000000000 [''k'' \<mapsto> \<lparr>tokens = 0, lastRefill = 5, lastAccessed = 5\<rparr>]
     = Some (r, bs') \<and> bucket_ok 10 5 (bs' ''k'')"
proof -
  have "limits_ok 10 60000000000" by (simp add: limits_ok_def second_def)
  moreover have "bucket_ok 10 5 ([''k'' \<mapsto> \<lparr>tokens = 0, lastRefill = 5, lastAccessed = 5\<rparr>] ''k'')"
    by (simp add: bucket_ok_def)
  ultimately show ?thesis using rate_limit_answer [of 10 60000000000 5 "[''k'' \<mapsto> \<lparr>tokens = 0, lastRefill = 5, lastAccessed = 5\<rparr>]" "''k''"]
    by blast
qed

text \<open>A refusal announces the wait of the exact rate and leaves the bucket of the key empty.\<close>

lemma refused_state:
  assumes "limits_ok limit window" "bucket_ok limit t (bs k)" "CheckRateLimit t k limit window bs = Some (r, bs')" "\<not> lr_allowed r"
  obtains b where "bs' k = Some b" "tokens b = 0" "lastRefill b \<le> t"
    "0 \<le> lr_retry_after r" "retry_after (refill_rate limit window) = Some (lr_retry_after r)"
proof -
  obtain b where b: "bucket_at t limit window (bs k) = Some b" "bucket_ok limit t (Some b)"
    using bucket_ok_at [OF assms(1,2)] by metis
  then have last: "lastRefill b \<le> t" by (simp add: bucket_ok_def)
  from assms(1) b(1) show thesis
  proof (cases rule: CheckRateLimit_cases)
    case allowed
    then show thesis using assms(3,4) by auto
  next
    case (limited q)
    moreover have "0 \<le> q" using retry_after_bounds [OF assms(1)] limited(2) by (metis option.inject)
    ultimately show thesis using that [of b] assms(3) b(2) last by (auto simp: bucket_ok_def)
  qed
qed

lemma retry_after_limit:
  assumes "limits_ok limit window" "window \<le> 2 * hour" "retry_after (refill_rate limit window) = Some q"
  shows "q < 2 ^ 63 - 4"
proof -
  have "(of_int q :: rat) \<le> of_int window / of_int limit * (1 + slack)"
    using retry_after_bounds [OF assms(1)] assms(3) by (metis option.inject)
  also have "\<dots> \<le> of_int window * 2"
    using assms(1) by (intro mult_mono) (simp_all add: limits_ok_def slack_def second_def field_simps)
  finally have "q \<le> window * 2" by linarith
  then show ?thesis using assms(2) by (simp add: hour_def second_def)
qed

text \<open>C20: The announced wait is enough. A client that was refused under a key and calls again under that
  key two nanoseconds or more after the announced wait is admitted, if nobody else used the key in between
  and its window is at most two hours.\<close>

theorem rate_limit_retry_admitted:
  assumes "limits_ok limit window" "window \<le> 2 * hour" "bucket_ok limit t (bs k)"
    and "CheckRateLimit t k limit window bs = Some (r, bs')" "\<not> lr_allowed r"
    and "t + lr_retry_after r + 2 \<le> t'"
  shows "\<exists>r' bs''. CheckRateLimit t' k limit window bs' = Some (r', bs'') \<and> lr_allowed r'"
proof -
  obtain b where b: "bs' k = Some b" "tokens b = 0" "lastRefill b \<le> t"
    and r: "0 \<le> lr_retry_after r" "retry_after (refill_rate limit window) = Some (lr_retry_after r)"
    using assms(1,3,4,5) by (rule refused_state)
  obtain b2 n where b2: "refill t' limit (refill_rate limit window) b = Some b2"
    "(n \<le> 0 \<and> tokens b2 = tokens b \<and> lastRefill b2 = lastRefill b) \<or>
     (0 < n \<and> tokens b2 = min limit (tokens b + n) \<and> lastRefill b2 = t' \<and> lastRefill b < t' \<and>
      of_int n \<le> of_int (t' - lastRefill b) * exact_rate limit window * (1 + slack))"
    "tokens_to_add (time_sub t' (lastRefill b)) (refill_rate limit window) = Some n"
    by (rule refill_Some [OF assms(1), of b t']) (use b(2) in auto)
  have d: "lr_retry_after r + 2 \<le> time_sub t' (lastRefill b)"
    using retry_after_limit [OF assms(1,2) r(2)] assms(6) b(3) r(1) by (simp add: time_sub_def)
  then have "0 < n"
    using tokens_to_add_pos [OF assms(1) _ time_sub_range(2) b2(3) retry_is_worth_a_token [OF assms(1,2) r(2) d]] r(1)
    by simp
  then have "0 < tokens b2" using b2(2) b(2) assms(1) by (auto simp: limits_ok_def)
  moreover have "bucket_at t' limit window (bs' k) = Some b2" using b2(1) b(1) by (simp add: bucket_at_def)
  ultimately show ?thesis
    using CheckRateLimit_cases [where bs = bs' and k = k, OF assms(1)] by (metis limit_result.select_convs(1) not_le)
qed

theorem rate_limit_retry_admitted_witness:
  "\<exists>r bs'. CheckRateLimit 5 ''k'' 10 60000000000 [''k'' \<mapsto> \<lparr>tokens = 0, lastRefill = 5, lastAccessed = 5\<rparr>]
       = Some (r, bs') \<and>
     (\<exists>r' bs''. CheckRateLimit (5 + lr_retry_after r + 2) ''k'' 10 60000000000 bs' = Some (r', bs'') \<and> lr_allowed r')"
proof -
  let ?b = "\<lparr>tokens = 0, lastRefill = 5, lastAccessed = 5\<rparr>" and ?bs = "[''k'' \<mapsto> \<lparr>tokens = 0, lastRefill = 5, lastAccessed = 5\<rparr>]"
  have l: "limits_ok 10 60000000000" by (simp add: limits_ok_def second_def)
  have ok: "bucket_ok 10 5 (?bs ''k'')" by (simp add: bucket_ok_def)
  have at: "bucket_at 5 10 60000000000 (?bs ''k'') = Some ?b"
    by (simp add: bucket_at_def refill_def time_sub_def tokens_to_add_def seconds64_def to_int64_def trunc_int_def)
  from l at show ?thesis
  proof (cases rule: CheckRateLimit_cases [where bs = ?bs and k = "''k''"])
    case (limited r)
    have "(60000000000 :: int) \<le> 2 * hour" by (simp add: hour_def second_def)
    from rate_limit_retry_admitted [where bs = ?bs and k = "''k''", OF l this ok limited(3)] limited(3)
    show ?thesis by simp
  qed simp
qed

text \<open>C21: A second \<^verbatim>\<open>Stop\<close> never returns. After a first \<^verbatim>\<open>Stop\<close> has ended the goroutine and returned, the
  next caller of \<^verbatim>\<open>Stop\<close> finds room in the signal channel again and waits for an answer that nobody
  is left to give, whatever other callers do.\<close>

theorem second_stop_hangs:
  "\<exists>s1 s2. routine_stop (stop_begin new_stop_state) = Some s1 \<and> stop_finish s1 = Some s2 \<and> stoppers s2 = 0 \<and>
     {s. stop_step\<^sup>*\<^sup>* (stop_begin s2) s} \<subseteq> {s. 1 \<le> stoppers s}"
proof -
  let ?s1 = "\<lparr>stop_buffer = 0, done_buffer = 1, routine_running = False, stoppers = 1\<rparr>"
  let ?s2 = "\<lparr>stop_buffer = 0, done_buffer = 0, routine_running = False, stoppers = 0\<rparr>"
  have "1 \<le> stoppers s" if "stop_step\<^sup>*\<^sup>* (stop_begin ?s2) s" for s
    using stuck_run [OF that] by (simp add: stop_begin_def)
  then have "{s. stop_step\<^sup>*\<^sup>* (stop_begin ?s2) s} \<subseteq> {s. 1 \<le> stoppers s}" by blast
  then show ?thesis
    by (intro exI [of _ ?s1] exI [of _ ?s2])
       (simp add: new_stop_state_def stop_begin_def routine_stop_def stop_finish_def)
qed

end
