(* ===== verification/RequestJson.thy ===== *)
theory RequestJson
  imports Validation FloatText
begin

text \<open>
  Decoding of request bodies: \<^verbatim>\<open>json.NewDecoder(body)\<close> with \<^verbatim>\<open>DisallowUnknownFields\<close> into
  \<^verbatim>\<open>models.CreatePasteRequest\<close> (\<^verbatim>\<open>src/handlers_paste.go\<close>, \<^verbatim>\<open>src/models/paste.go\<close>). The decoder reads one
  value and ignores what follows it; member names match fields up to case; \<^verbatim>\<open>null\<close> leaves a field
  as it is (an \<^verbatim>\<open>interface{}\<close> becomes nil); a member of the wrong type or of no field is an error.
\<close>

text \<open>\<^verbatim>\<open>foldName\<close> on the letters that occur in field names: ASCII letters fold to upper case, and so do
  the two other runes that Unicode folds to \<^verbatim>\<open>s\<close> and \<^verbatim>\<open>k\<close>, U+017F and U+212A.\<close>

definition upper_ascii :: "char \<Rightarrow> char" where
  "upper_ascii c = (if 97 \<le> byte c \<and> byte c \<le> 122 then char_of (byte c - 32) else c)"

fun fold_name :: "string \<Rightarrow> string" where
  "fold_name [] = []"
| "fold_name (c # s) =
     (if byte c = 197 \<and> s \<noteq> [] \<and> byte (hd s) = 191 then CHR ''S'' # fold_name (tl s)
      else if byte c = 226 \<and> map byte (take 2 s) = [132, 170] then CHR ''K'' # fold_name (drop 2 s)
      else upper_ascii c # fold_name s)"

definition names_field :: "string \<Rightarrow> string \<Rightarrow> bool" where
  "names_field key field \<longleftrightarrow> fold_name key = fold_name field"

text \<open>The members of the first value of a body, when it is an object or \<^verbatim>\<open>null\<close>.\<close>

definition body_members :: "string \<Rightarrow> (string \<times> json) list option" where
  "body_members s =
     (case parse_value (2 * length s + 2) max_nesting_depth s of
        Some (JObj m, r) \<Rightarrow> Some m
      | Some (JNull, r) \<Rightarrow> Some []
      | _ \<Rightarrow> None)"

text \<open>Setters for one field: \<^const>\<open>None\<close> is a type error.\<close>

definition string_field :: "json \<Rightarrow> string \<Rightarrow> string option" where
  "string_field v old = (case v of JStr s \<Rightarrow> Some s | JNull \<Rightarrow> Some old | _ \<Rightarrow> None)"

definition bool_field :: "json \<Rightarrow> bool \<Rightarrow> bool option" where
  "bool_field v old = (case v of JBool b \<Rightarrow> Some b | JNull \<Rightarrow> Some old | _ \<Rightarrow> None)"

text \<open>\<^verbatim>\<open>strconv.ParseInt(s, 10, 64)\<close> on a number literal.\<close>

definition parse_int64 :: "string \<Rightarrow> int option" where
  "parse_int64 s =
     (let neg = has_prefix s ''-''; t = (if neg then tl s else s);
          n = (if neg then - int (digits_value t 0) else int (digits_value t 0))
      in if t \<noteq> [] \<and> list_all is_digit t \<and> - (2 ^ 63) \<le> n \<and> n < 2 ^ 63 then Some n else None)"

definition int_field :: "json \<Rightarrow> int \<Rightarrow> int option" where
  "int_field v old = (case v of JNum s \<Rightarrow> parse_int64 s | JNull \<Rightarrow> Some old | _ \<Rightarrow> None)"

definition any_field :: "json \<Rightarrow> json option option" where
  "any_field v =
     (if v = JNull then Some None
      else if numbers_in_range v then Some (Some (json_numbers (json_go v))) else None)"

definition empty_create_request :: create_paste_request where
  "empty_create_request = \<lparr>ciphertext = [], plaintext = [], metadata = None, expiry_seconds = 0,
     burn_after_read = False, turnstile_token = []\<rparr>"

definition set_create_field :: "string \<times> json \<Rightarrow> create_paste_request \<Rightarrow> create_paste_request option" where
  "set_create_field kv r =
     (let k = fst kv; v = snd kv in
      if names_field k ''ciphertext'' then map_option (\<lambda>s. r\<lparr>ciphertext := s\<rparr>) (string_field v (ciphertext r))
      else if names_field k ''plaintext'' then map_option (\<lambda>s. r\<lparr>plaintext := s\<rparr>) (string_field v (plaintext r))
      else if names_field k ''metadata'' then map_option (\<lambda>m. r\<lparr>metadata := m\<rparr>) (any_field v)
      else if names_field k ''expiry_seconds'' then map_option (\<lambda>n. r\<lparr>expiry_seconds := n\<rparr>) (int_field v (expiry_seconds r))
      else if names_field k ''burn_after_read'' then map_option (\<lambda>b. r\<lparr>burn_after_read := b\<rparr>) (bool_field v (burn_after_read r))
      else if names_field k ''turnstile_token'' then map_option (\<lambda>s. r\<lparr>turnstile_token := s\<rparr>) (string_field v (turnstile_token r))
      else None)"

fun set_create_fields :: "(string \<times> json) list \<Rightarrow> create_paste_request \<Rightarrow> create_paste_request option" where
  "set_create_fields [] r = Some r"
| "set_create_fields (kv # m) r =
     (case set_create_field kv r of None \<Rightarrow> None | Some r' \<Rightarrow> set_create_fields m r')"

definition decode_create_request :: "string \<Rightarrow> create_paste_request option" where
  "decode_create_request body =
     (case body_members body of None \<Rightarrow> None | Some m \<Rightarrow> set_create_fields m empty_create_request)"

end
