(* ===== verification/Http.thy ===== *)
theory Http
  imports Validation
begin

text \<open>
  HTTP requests as the middleware of \<^verbatim>\<open>src/middleware.go\<close> sees them, with the functions of
  packages \<^verbatim>\<open>net/http\<close>, \<^verbatim>\<open>net/url\<close>, \<^verbatim>\<open>net/textproto\<close> and \<^verbatim>\<open>strings\<close> that it calls. The
  headers are a list in the order in which the code's iteration over the map visits them; a request
  handler answers or panics, and a panic keeps the headers set so far.
\<close>

record http_request =
  rq_method :: string
  rq_path :: string
  rq_query :: string
  rq_headers :: "(string \<times> string list) list"
  rq_remote :: string
  rq_vars :: "(string \<times> string) list"
  rq_body :: string
  rq_too_large :: bool
  rq_nonce :: string

datatype outcome = Answered http_response | Panicked "string \<rightharpoonup> string"

text \<open>Headers set on the writer before the next handler runs; the handler's own settings win.\<close>

fun set_before :: "(string \<rightharpoonup> string) \<Rightarrow> outcome \<Rightarrow> outcome" where
  "set_before hs (Answered r) = Answered (r\<lparr>http_headers := hs ++ http_headers r\<rparr>)"
| "set_before hs (Panicked hs') = Panicked (hs ++ hs')"

subsection \<open>Header names and lookup\<close>

text \<open>\<^verbatim>\<open>textproto.CanonicalMIMEHeaderKey\<close>: a name with a byte that no token may hold is left alone,
  otherwise letters after the start or a hyphen are upper case and all others lower case.\<close>

definition token_byte :: "char \<Rightarrow> bool" where
  "token_byte c \<longleftrightarrow> (48 \<le> byte c \<and> byte c \<le> 57) \<or> (65 \<le> byte c \<and> byte c \<le> 90) \<or>
     (97 \<le> byte c \<and> byte c \<le> 122) \<or> c \<in> set ''!#$%&*+-.^_|~'' \<or> byte c = 39 \<or> byte c = 96"

definition upper_char :: "char \<Rightarrow> char" where
  "upper_char c = (if 97 \<le> byte c \<and> byte c \<le> 122 then char_of (byte c - 32) else c)"

definition lower_char :: "char \<Rightarrow> char" where
  "lower_char c = (if 65 \<le> byte c \<and> byte c \<le> 90 then char_of (byte c + 32) else c)"

fun canonical_from :: "bool \<Rightarrow> string \<Rightarrow> string" where
  "canonical_from up [] = []"
| "canonical_from up (c # s) = (if up then upper_char c else lower_char c) # canonical_from (c = CHR ''-'') s"

definition canonical_key :: "string \<Rightarrow> string" where
  "canonical_key s = (if list_all token_byte s then canonical_from True s else s)"

text \<open>\<^verbatim>\<open>Header.Get\<close>: the first value, or the empty string.\<close>

definition header_value :: "http_request \<Rightarrow> string \<Rightarrow> string" where
  "header_value rq name =
     (case map_of (rq_headers rq) (canonical_key name) of Some (v # _) \<Rightarrow> v | _ \<Rightarrow> [])"

subsection \<open>Lower case\<close>

text \<open>
  \<^verbatim>\<open>strings.ToLower\<close> as far as a search for ASCII text in its result can tell: beside the ASCII
  capitals, U+0130 and U+212A are the only runes whose lower case is an ASCII letter. Other runes
  are left alone here, where Go may replace them by another rune outside ASCII.
\<close>

definition lower_rune :: "nat \<Rightarrow> nat" where
  "lower_rune r = (if 65 \<le> r \<and> r \<le> 90 then r + 32 else if r = 304 then 105 else if r = 8490 then 107 else r)"

definition to_lower :: "string \<Rightarrow> string" where
  "to_lower s = strings_map (\<lambda>r. Some (lower_rune r)) s"

lemma to_lower_ascii: "ascii s \<Longrightarrow> to_lower s = map lower_char s"
proof -
  assume s: "ascii s"
  have "encode_rune (lower_rune (byte c)) = [lower_char c]" if "byte c < 128" for c
    using that encode_rune_ascii [of c] encode_rune_ascii [of "char_of (byte c + 32)"]
    by (auto simp: lower_rune_def lower_char_def)
  with s have "concat (map (\<lambda>c. encode_rune (lower_rune (byte c))) s) = concat (map (\<lambda>c. [lower_char c]) s)"
    by (intro arg_cong [where f = concat] map_cong) (auto simp: ascii_def list_all_iff)
  with s show ?thesis by (simp add: to_lower_def strings_map_ascii)
qed

subsection \<open>Queries\<close>

text \<open>\<^verbatim>\<open>url.QueryUnescape\<close> and \<^verbatim>\<open>url.ParseQuery\<close>: parameters with a bad escape or a semicolon are
  dropped. The pairs are in the order of the text.\<close>

fun query_unescape :: "string \<Rightarrow> string option" where
  "query_unescape [] = Some []"
| "query_unescape (c # s) =
     (if c = CHR ''%'' then
        (case s of
           a # b # t \<Rightarrow>
             (case (hex_value a, hex_value b) of
                (Some x, Some y) \<Rightarrow> map_option (Cons (char_of (16 * x + y))) (query_unescape t)
              | _ \<Rightarrow> None)
         | _ \<Rightarrow> None)
      else map_option (Cons (if c = CHR ''+'' then CHR '' '' else c)) (query_unescape s))"

definition parse_query_part :: "string \<Rightarrow> (string \<times> string) option" where
  "parse_query_part p =
     (if p = [] \<or> CHR '';'' \<in> set p then None
      else (let kv = split_n2 (CHR ''='') p in
            case (query_unescape (hd kv), query_unescape (concat (tl kv))) of
              (Some k, Some v) \<Rightarrow> Some (k, v)
            | _ \<Rightarrow> None))"

definition parse_query :: "string \<Rightarrow> (string \<times> string) list" where
  "parse_query q = List.map_filter parse_query_part (split_char (CHR ''&'') q)"

subsection \<open>Bodies\<close>

text \<open>\<^verbatim>\<open>http.MaxBytesReader\<close>: at most \<open>n\<close> bytes can be read, and reading on is an error if there were
  more.\<close>

definition max_bytes_reader :: "nat \<Rightarrow> http_request \<Rightarrow> http_request" where
  "max_bytes_reader n rq =
     rq\<lparr>rq_body := take n (rq_body rq), rq_too_large := n < length (rq_body rq)\<rparr>"

text \<open>\<^verbatim>\<open>ParseMultipartForm\<close> on a request whose content type has no boundary reads the body of a form
  and nothing else.\<close>

definition parse_form :: "http_request \<Rightarrow> http_request" where
  "parse_form rq =
     (if header_value rq ''Content-Type'' = ''application/x-www-form-urlencoded'' \<and>
         rq_method rq \<in> {''POST'', ''PUT'', ''PATCH''}
      then rq\<lparr>rq_body := []\<rparr> else rq)"

text \<open>\<^verbatim>\<open>http.Error\<close>.\<close>

definition http_error :: "string \<Rightarrow> int \<Rightarrow> http_response" where
  "http_error m st = \<lparr>http_status = st,
     http_headers = [''Content-Type'' \<mapsto> ''text/plain; charset=utf-8'', ''X-Content-Type-Options'' \<mapsto> ''nosniff''],
     http_body = m @ [CHR 10]\<rparr>"

text \<open>\<^verbatim>\<open>strings.ReplaceAll\<close>.\<close>

fun replace_all :: "string \<Rightarrow> string \<Rightarrow> string \<Rightarrow> string" where
  "replace_all [] new s = s"
| "replace_all (a # as) new [] = []"
| "replace_all (a # as) new (c # s) =
     (if has_prefix (c # s) (a # as) then new @ replace_all (a # as) new (drop (length as) s)
      else c # replace_all (a # as) new s)"

end
