(* ===== verification/Handlers.thy ===== *)
theory Handlers
  imports SqliteSpec DeletionQueue RequestJson Http "HOL-Library.Code_Target_Nat"
begin

text \<open>
  \<^verbatim>\<open>src/handlers_paste.go\<close>: the HTTP handlers for pastes, over any storage backend. A handler takes
  what the code reads from outside (the body, the path variable, random bytes, clocks, the
  environments of its storage calls) and the server's state, which holds the deletion queue with the
  store behind it and the counters of \<^verbatim>\<open>src/logger/monitor.go\<close> that the handlers bump. Log and audit
  lines are output only and left out.
\<close>

record metrics =
  pastesCreated :: int
  pastesViewed :: int
  pastesBurned :: int

record 'db server =
  srv_queue :: "'db dqueue"
  srv_metrics :: metrics

definition srv_store :: "'db server \<Rightarrow> 'db" where
  "srv_store s = q_store (srv_queue s)"

definition set_store :: "'db \<Rightarrow> 'db server \<Rightarrow> 'db server" where
  "set_store db s = s\<lparr>srv_queue := (srv_queue s)\<lparr>q_store := db\<rparr>\<rparr>"

definition IncrementPasteCreated :: "metrics \<Rightarrow> metrics" where
  "IncrementPasteCreated m = m\<lparr>pastesCreated := int64_of (pastesCreated m + 1)\<rparr>"
definition IncrementPasteViewed :: "metrics \<Rightarrow> metrics" where
  "IncrementPasteViewed m = m\<lparr>pastesViewed := int64_of (pastesViewed m + 1)\<rparr>"
definition IncrementPasteBurned :: "metrics \<Rightarrow> metrics" where
  "IncrementPasteBurned m = m\<lparr>pastesBurned := int64_of (pastesBurned m + 1)\<rparr>"

definition bump :: "(metrics \<Rightarrow> metrics) \<Rightarrow> 'db server \<Rightarrow> 'db server" where
  "bump f s = s\<lparr>srv_metrics := f (srv_metrics s)\<rparr>"

definition no_store_headers :: "string \<rightharpoonup> string" where
  "no_store_headers = [''Content-Type'' \<mapsto> ''application/json'',
     ''Cache-Control'' \<mapsto> ''no-store, no-cache, must-revalidate'']"

text \<open>An encoder that fails writes nothing; the status is 200 unless it was set.\<close>

definition encoded_response :: "(string \<rightharpoonup> string) \<Rightarrow> string option \<Rightarrow> http_response" where
  "encoded_response hs enc = \<lparr>http_status = 200, http_headers = hs,
     http_body = (case enc of None \<Rightarrow> [] | Some b \<Rightarrow> b @ [CHR 10])\<rparr>"

subsection \<open>Creating a paste\<close>

definition plaintext_json :: "create_paste_request \<Rightarrow> string" where
  "plaintext_json r = json_marshal (JObj
     [(''content'', JStr (plaintext r)),
      (''metadata'', case metadata r of None \<Rightarrow> JNull | Some v \<Rightarrow> v),
      (''version'', JStr ''2.0'')])"

text \<open>What to store and whether it is a no-password paste, or the error response.\<close>

definition prepare_content :: "create_paste_request \<Rightarrow> http_response + string \<times> bool" where
  "prepare_content r =
     (if ciphertext r \<noteq> [] then
        (case b64_decode StdEncoding (ciphertext r) of
           None \<Rightarrow> Inl (WriteSimpleError ''Invalid base64 encoding'' 400)
         | Some d \<Rightarrow>
             if length d > MaxCiphertextSizeEncrypted
             then Inl (WriteSimpleError ''Encrypted paste too large (max 384KB)'' 400)
             else Inr (ciphertext r, False))
      else if length (plaintext r) > MaxCiphertextSizeUnencrypted
        then Inl (WriteSimpleError ''Plaintext paste too large (max 512KB)'' 400)
      else Inr (b64_encode StdEncoding (plaintext_json r), True))"

definition paste_response_json :: "paste_response \<Rightarrow> string option" where
  "paste_response_json r = map_option
     (\<lambda>e. ''{\"id\":'' @ json_quote (resp_id r) @ '',\"expires_at\":'' @ e @ ''}'')
     (time_marshal_json (resp_expires_at r))"

definition free_tier_expiry :: "int \<Rightarrow> int" where
  "free_tier_expiry n = (if n > maxFreeTierExpirySeconds then maxFreeTierExpirySeconds else n)"

definition CreatePaste ::
  "'db backend \<Rightarrow> string option \<Rightarrow> string \<Rightarrow> 'db server \<Rightarrow> http_response \<times> 'db server" where
  "CreatePaste k random body srv =
     (let s = bump IncrementPasteCreated srv in
      case decode_create_request body of
        None \<Rightarrow> (WriteSimpleError ''Invalid JSON request'' 400, s)
      | Some r \<Rightarrow>
          if validateCreatePasteRequest r \<noteq> []
          then (WriteValidationError (validateCreatePasteRequest r), s)
          else (case prepare_content r of
             Inl err \<Rightarrow> (err, s)
           | Inr (content, isPlaintext) \<Rightarrow>
               (case GenerateID random of
                  None \<Rightarrow> (WriteSimpleError ''Failed to generate ID'' 500, s)
                | Some i \<Rightarrow>
                    (case SavePaste k (srv_store s) i content (free_tier_expiry (expiry_seconds r))
                            (burn_after_read r) isPlaintext of
                       (Inl x, db) \<Rightarrow>
                         (if x = ErrBannedContent then WriteSimpleError ''Content not permitted'' 403
                          else WriteSimpleError ''Failed to save paste'' 500, set_store db s)
                     | (Inr res, db) \<Rightarrow>
                         (if paste_validate (sr_paste res) \<noteq> None
                          then WriteSimpleError ''Internal validation error'' 500
                          else encoded_response no_store_headers
                            (paste_response_json \<lparr>resp_id = p_id (sr_paste res),
                               resp_expires_at = p_expires_at (sr_paste res)\<rparr>),
                          set_store db s)))))"

subsection \<open>Reading a paste\<close>

definition view_json :: "string \<Rightarrow> paste \<Rightarrow> string option" where
  "view_json c p = map_option
     (\<lambda>e. ''{\"burn_after_read\":'' @ bool_text (p_burn_after_read p) @ '',\"ciphertext\":'' @ json_quote c @
          '',\"expires_at\":'' @ e @ '',\"id\":'' @ json_quote (p_id p) @ ''}'')
     (time_marshal_json (p_expires_at p))"

definition view_response :: "string \<Rightarrow> paste \<Rightarrow> http_response" where
  "view_response c p =
     encoded_response (no_store_headers(''X-Content-Type-Options'' \<mapsto> ''nosniff'')) (view_json c p)"

text \<open>The storage calls of one request run in the environments \<open>e1\<close> and \<open>e2\<close>; \<open>t\<close> is the clock of the
  expiry check. The panic is that of a send on a closed channel.\<close>

definition GetPasteAPI ::
  "('e \<Rightarrow> 'db backend) \<Rightarrow> 'e \<Rightarrow> 'e \<Rightarrow> gotime \<Rightarrow> string \<Rightarrow> 'db server \<Rightarrow> outcome \<times> 'db server" where
  "GetPasteAPI K e1 e2 t raw srv =
     (let i = SanitizeString raw in
      case ValidatePasteID i of
        Some m \<Rightarrow> (Answered (WriteSimpleError m 400), srv)
      | None \<Rightarrow>
          (case GetPaste (K e1) (srv_store srv) i of
             (Inl x, db) \<Rightarrow>
               (Answered (if x = ErrNotFound then WriteSimpleError ''Paste not found'' 404
                     else WriteSimpleError ''Failed to retrieve paste'' 500), set_store db srv)
           | (Inr (c, p), db) \<Rightarrow>
               (let s = set_store db srv in
                if ValidateBase64 c ''stored ciphertext'' \<noteq> None
                then (Answered (WriteSimpleError ''Paste data corrupted'' 500), s)
                else if paste_validate p \<noteq> None
                then (Answered (WriteSimpleError ''Invalid paste metadata'' 500), s)
                else if t > p_expires_at p
                then (Answered (WriteSimpleError ''Paste has expired'' 410),
                      set_store (snd (DeletePaste (K e2) (srv_store s) i)) s)
                else if p_is_burned p \<and> \<not> p_burn_after_read p
                then (Answered (WriteSimpleError ''Paste has been burned'' 410), s)
                else if p_is_burned p
                then (case QueueDeletion i (srv_queue s) of
                        None \<Rightarrow> (Panicked Map.empty, bump IncrementPasteBurned s)
                      | Some (r, q) \<Rightarrow> (Answered (view_response c p),
                          bump IncrementPasteViewed ((bump IncrementPasteBurned s)\<lparr>srv_queue := q\<rparr>)))
                else (Answered (view_response c p), bump IncrementPasteViewed s))))"

subsection \<open>The viewer page and the health check\<close>

text \<open>The embedded page as read from the file system, or \<^const>\<open>None\<close>.\<close>

definition ViewPaste :: "string option \<Rightarrow> http_response" where
  "ViewPaste page =
     (case page of
        None \<Rightarrow> http_error ''Viewer page not found'' 500
      | Some content \<Rightarrow> \<lparr>http_status = 200,
          http_headers = [''Content-Type'' \<mapsto> ''text/html; charset=utf-8''], http_body = content\<rparr>)"

definition HealthCheck :: "'db backend \<Rightarrow> gotime \<Rightarrow> 'db server \<Rightarrow> http_response" where
  "HealthCheck k t srv =
     (let storage = (if is_ok (Ping k (srv_store srv)) then ''healthy'' else ''unhealthy'');
          overall = (if storage = ''healthy'' then ''healthy'' else ''degraded'')
      in json_response (if overall = ''healthy'' then 200 else 503) Map.empty
           (JObj [(''services'', JObj [(''storage'', JStr storage)]),
                  (''status'', JStr overall),
                  (''timestamp'', JStr (format_rfc3339 t))]))"

lemma store_simps [simp]:
  "srv_store (set_store db s) = db" "srv_store (bump f s) = srv_store s"
  "srv_queue (set_store db s) = (srv_queue s)\<lparr>q_store := db\<rparr>" "srv_queue (bump f s) = srv_queue s"
  "srv_store (s\<lparr>srv_queue := q\<rparr>) = q_store q"
  by (simp_all add: srv_store_def set_store_def bump_def)

lemma status_simps [simp]:
  "http_status (WriteSimpleError m st) = st" "http_status (view_response c p) = 200"
  "http_status (encoded_response hs enc) = 200"
  by (simp_all add: WriteSimpleError_def json_response_def view_response_def encoded_response_def)

lemma set_store_id [simp]: "set_store (srv_store s) s = s"
  by (simp add: set_store_def srv_store_def)

subsection \<open>What a read can do\<close>

lemma QueueDeletion_store: "QueueDeletion x q = Some (r, q') \<Longrightarrow> q_store q' = q_store q"
  by (erule QueueDeletion_cases) simp_all

lemma GetPasteAPI_cases:
  assumes "GetPasteAPI K e1 e2 t raw srv = (out, srv')"
  defines "i \<equiv> SanitizeString raw"
  obtains (invalid) m where "ValidatePasteID i = Some m" "out = Answered (WriteSimpleError m 400)" "srv' = srv"
  | (failed) x db where "ValidatePasteID i = None" "GetPaste (K e1) (srv_store srv) i = (Inl x, db)"
      "out = Answered (if x = ErrNotFound then WriteSimpleError ''Paste not found'' 404
               else WriteSimpleError ''Failed to retrieve paste'' 500)" "srv_store srv' = db"
  | (corrupt) c p db where "ValidatePasteID i = None" "GetPaste (K e1) (srv_store srv) i = (Inr (c, p), db)"
      "out = Answered (WriteSimpleError ''Paste data corrupted'' 500) \<or>
       out = Answered (WriteSimpleError ''Invalid paste metadata'' 500)"
      "srv_store srv' = db"
  | (expired) c p db where "ValidatePasteID i = None" "GetPaste (K e1) (srv_store srv) i = (Inr (c, p), db)"
      "p_expires_at p < t" "out = Answered (WriteSimpleError ''Paste has expired'' 410)"
      "srv_store srv' = snd (DeletePaste (K e2) db i)"
  | (gone) c p db where "ValidatePasteID i = None" "GetPaste (K e1) (srv_store srv) i = (Inr (c, p), db)"
      "ValidateBase64 c ''stored ciphertext'' = None" "p_is_burned p" "\<not> p_burn_after_read p"
      "out = Answered (WriteSimpleError ''Paste has been burned'' 410)" "srv_store srv' = db"
  | (served) c p db where "ValidatePasteID i = None" "GetPaste (K e1) (srv_store srv) i = (Inr (c, p), db)"
      "ValidateBase64 c ''stored ciphertext'' = None" "paste_validate p = None" "t \<le> p_expires_at p"
      "p_is_burned p \<longrightarrow> p_burn_after_read p" "out = Answered (view_response c p)" "srv_store srv' = db"
  | (panicked) c p db where "ValidatePasteID i = None" "GetPaste (K e1) (srv_store srv) i = (Inr (c, p), db)"
      "QueueDeletion i (srv_queue (set_store db srv)) = None" "out = Panicked Map.empty" "srv_store srv' = db"
proof -
  note G = assms(1) [unfolded GetPasteAPI_def Let_def, folded i_def]
  obtain r db where g: "GetPaste (K e1) (srv_store srv) i = (r, db)" by fastforce
  consider (v) m where "ValidatePasteID i = Some m"
    | (l) x where "ValidatePasteID i = None" "r = Inl x"
    | (r) c p where "ValidatePasteID i = None" "r = Inr (c, p)"
    by (cases "ValidatePasteID i"; cases r) auto
  then show thesis
  proof cases
    case v then show ?thesis using G invalid by simp
  next
    case (l x)
    then show ?thesis using G g by (intro failed [of x db]) (auto simp del: ValidatePasteID_iff)
  next
    case (r c p)
    show ?thesis
    proof (cases "ValidateBase64 c ''stored ciphertext'' = None \<and> paste_validate p = None")
      case False
      then show ?thesis using G g r
        by (intro corrupt [of c p db]) (auto simp del: ValidatePasteID_iff split: if_splits)
    next
      case ok: True
      show ?thesis
      proof (cases "p_expires_at p < t")
        case True
        then show ?thesis using G g r ok
          by (intro expired [of c p db]) (auto simp del: ValidatePasteID_iff)
      next
        case live: False
        show ?thesis
        proof (cases "p_is_burned p \<and> \<not> p_burn_after_read p")
          case True
          then show ?thesis using G g r ok live
            by (intro gone [of c p db]) (auto simp del: ValidatePasteID_iff)
        next
          case False
          show ?thesis
          proof (cases "p_is_burned p \<and> QueueDeletion i (srv_queue (set_store db srv)) = None")
            case True
            with False show ?thesis using G g r ok live
              by (intro panicked [of c p db]) (auto simp del: ValidatePasteID_iff)
          next
            case queued: False
            show ?thesis
            proof (cases "p_is_burned p")
              case True
              then obtain a b where q: "QueueDeletion i (srv_queue (set_store db srv)) = Some (a, b)"
                using queued by auto
              have "q_store b = db" using QueueDeletion_store [OF q] by simp
              then show ?thesis using False True G g r ok live q
                by (intro served [of c p db]) (auto simp del: ValidatePasteID_iff)
            next
              case unburned: False
              then show ?thesis using G g r ok live
                by (intro served [of c p db]) (auto simp del: ValidatePasteID_iff)
            qed
          qed
        qed
      qed
    qed
  qed
qed

subsection \<open>Histories of requests\<close>

text \<open>Requests and the deletions the workers of the queue carry out in between. A read that panics
  has no response of its own.\<close>

datatype 'e srv_op =
    HCreate 'e "string option" string
  | HGet 'e 'e gotime string
  | HWorker 'e string

fun srv_step :: "('e \<Rightarrow> 'db backend) \<Rightarrow> 'e srv_op \<Rightarrow> 'db server \<Rightarrow> http_response option \<times> 'db server" where
  "srv_step K (HCreate e rnd b) srv = (case CreatePaste (K e) rnd b srv of (r, s) \<Rightarrow> (Some r, s))"
| "srv_step K (HGet e1 e2 t raw) srv =
     (case GetPasteAPI K e1 e2 t raw srv of
        (Panicked hs, s) \<Rightarrow> (None, s) | (Answered r, s) \<Rightarrow> (Some r, s))"
| "srv_step K (HWorker e i) srv = (None, set_store (snd (DeletePaste (K e) (srv_store srv) i)) srv)"

lemma srv_step_pair:
  "srv_step K (HCreate e rnd b) srv =
     (Some (fst (CreatePaste (K e) rnd b srv)), snd (CreatePaste (K e) rnd b srv))"
  by (simp split: prod.splits)

lemma store_run_Cons_snd:
  "snd (store_run K ((e, x) # xs) db) = snd (store_run K xs (snd (store_step (K e) x db)))"
  by (simp split: prod.splits)

lemma store_run_Nil_snd: "snd (store_run K [] db) = db"
  by simp

lemma store_step_delete: "snd (store_step k (OpDelete i) db) = snd (DeletePaste k db i)"
  by (simp split: prod.splits)

lemmas run_steps = store_run_Cons_snd store_run_Nil_snd store_step_pair store_step_delete

fun generates :: "string \<Rightarrow> 'e srv_op \<Rightarrow> bool" where
  "generates i (HCreate e rnd b) = (GenerateID rnd = Some i)"
| "generates i _ = False"

fun serves :: "string \<Rightarrow> 'e srv_op \<Rightarrow> http_response option \<Rightarrow> bool" where
  "serves i (HGet e1 e2 t raw) (Some r) = (SanitizeString raw = i \<and> http_status r = 200)"
| "serves i _ _ = False"

text \<open>How many reads of an identifier a history answers with its content.\<close>

fun times_served :: "('e \<Rightarrow> 'db backend) \<Rightarrow> string \<Rightarrow> 'e srv_op list \<Rightarrow> 'db server \<Rightarrow> nat" where
  "times_served K i [] srv = 0"
| "times_served K i (x # xs) srv =
     (case srv_step K x srv of
        (r, srv') \<Rightarrow> (if serves i x r then 1 else 0) + times_served K i xs srv')"

text \<open>A creation leaves the store alone or saves one paste under the generated identifier.\<close>

lemma CreatePaste_store:
  "srv_store (snd (CreatePaste k rnd b srv)) = srv_store srv \<or>
   (\<exists>i c n br pl. GenerateID rnd = Some i \<and>
      srv_store (snd (CreatePaste k rnd b srv)) = snd (SavePaste k (srv_store srv) i c n br pl))"
  by (auto simp: CreatePaste_def Let_def split: option.splits sum.splits prod.splits) (metis snd_conv)+

context paste_store
begin

text \<open>Each request performs at most two operations on the store, in this order.\<close>

lemma srv_step_ops:
  "\<exists>ops. srv_store (snd (srv_step K x srv)) = snd (store_run K ops (srv_store srv)) \<and>
     list_all (\<lambda>a. saves i (snd a) \<longrightarrow> generates i x) ops \<and>
     (serves i x (fst (srv_step K x srv)) \<longrightarrow>
        (\<exists>e. ops = [(e, OpGet i)] \<and> delivers i (OpGet i) (OutGet (fst (GetPaste (K e) (srv_store srv) i)))))"
proof (cases x)
  case (HCreate e rnd b)
  show ?thesis
    using CreatePaste_store [of "K e" rnd b srv]
  proof (elim disjE exE conjE)
    assume "srv_store (snd (CreatePaste (K e) rnd b srv)) = srv_store srv"
    then show ?thesis unfolding HCreate srv_step_pair
      by (intro exI [of _ "[]"]) simp
  next
    fix i' c n br pl
    assume "GenerateID rnd = Some i'"
      "srv_store (snd (CreatePaste (K e) rnd b srv)) = snd (SavePaste (K e) (srv_store srv) i' c n br pl)"
    then show ?thesis unfolding HCreate srv_step_pair
      by (intro exI [of _ "[(e, OpSave i' c n br pl)]"]) (simp add: run_steps del: store_run.simps store_step.simps)
  qed
next
  case (HWorker e j)
  then show ?thesis
    by (intro exI [of _ "[(e, OpDelete j)]"]) (simp add: run_steps del: store_run.simps store_step.simps)
next
  case (HGet e1 e2 t raw)
  let ?j = "SanitizeString raw"
  show ?thesis
  proof -
    obtain out s where g: "GetPasteAPI K e1 e2 t raw srv = (out, s)" by fastforce
    have step: "snd (srv_step K x srv) = s"
        "serves i x (fst (srv_step K x srv)) \<Longrightarrow> \<exists>r. out = Answered r \<and> ?j = i \<and> http_status r = 200"
      using HGet g by (cases out; simp)+
    show ?thesis
      using g
    proof (cases rule: GetPasteAPI_cases)
      case (invalid m)
      then show ?thesis using step(2) unfolding step(1) by (intro exI [of _ "[]"]) auto
    next
      case (failed y db)
      then show ?thesis using step(2) unfolding step(1)
        by (intro exI [of _ "[(e1, OpGet ?j)]"])
           (auto simp add: run_steps simp del: store_run.simps store_step.simps split: if_splits)
    next
      case (corrupt c p db)
      then show ?thesis using step(2) unfolding step(1)
        by (intro exI [of _ "[(e1, OpGet ?j)]"]) (auto simp add: run_steps simp del: store_run.simps store_step.simps)
    next
      case (expired c p db)
      then show ?thesis using step(2) unfolding step(1)
        by (intro exI [of _ "[(e1, OpGet ?j), (e2, OpDelete ?j)]"])
           (auto simp add: run_steps simp del: store_run.simps store_step.simps)
    next
      case (gone c p db)
      then show ?thesis using step(2) unfolding step(1)
        by (intro exI [of _ "[(e1, OpGet ?j)]"]) (auto simp add: run_steps simp del: store_run.simps store_step.simps)
    next
      case (served c p db)
      then have "c \<noteq> []" by (simp add: ValidateBase64_ok)
      with served show ?thesis using step(2) unfolding step(1)
        by (intro exI [of _ "[(e1, OpGet ?j)]"]) (auto simp add: run_steps simp del: store_run.simps store_step.simps)
    next
      case (panicked c p db)
      then show ?thesis using step(2) unfolding step(1)
        by (intro exI [of _ "[(e1, OpGet ?j)]"]) (auto simp add: run_steps simp del: store_run.simps store_step.simps)
    qed
  qed
qed

lemma run_pending:
  "inv db \<Longrightarrow> pending db i \<or> spent db i \<Longrightarrow> list_all (\<lambda>a. \<not> saves i (snd a)) xs \<Longrightarrow>
   pending (snd (store_run K xs db)) i \<or> spent (snd (store_run K xs db)) i"
proof (induction xs arbitrary: db)
  case (Cons a xs)
  obtain e x where a: "a = (e, x)" by fastforce
  define db1 where "db1 = snd (store_step (K e) x db)"
  have "inv db1" unfolding db1_def by (rule step_inv [OF Cons.prems(1)])
  moreover have "pending db1 i \<or> spent db1 i"
    using Cons.prems a pending_step [of db i x e] spent_step [of db i x e] by (auto simp: db1_def)
  ultimately have "pending (snd (store_run K xs db1)) i \<or> spent (snd (store_run K xs db1)) i"
    using Cons.prems(3) by (intro Cons.IH) simp_all
  then show ?case unfolding a store_run_Cons_snd db1_def .
qed simp

text \<open>Over HTTP too a burn-after-read paste is served at most once.\<close>

lemma served_once:
  "inv (srv_store srv) \<Longrightarrow> pending (srv_store srv) i \<or> spent (srv_store srv) i \<Longrightarrow>
   list_all (\<lambda>x. \<not> generates i x) xs \<Longrightarrow>
   times_served K i xs srv \<le> (if spent (srv_store srv) i then 0 else 1)"
proof (induction xs arbitrary: srv)
  case (Cons x xs)
  obtain r srv' where st: "srv_step K x srv = (r, srv')" by fastforce
  obtain ops where ops: "srv_store srv' = snd (store_run K ops (srv_store srv))"
    "list_all (\<lambda>a. saves i (snd a) \<longrightarrow> generates i x) ops"
    "serves i x r \<longrightarrow> (\<exists>e. ops = [(e, OpGet i)] \<and>
       delivers i (OpGet i) (OutGet (fst (GetPaste (K e) (srv_store srv) i))))"
    using srv_step_ops [of x srv i] st by auto
  have ns: "list_all (\<lambda>a. \<not> saves i (snd a)) ops"
    using ops(2) Cons.prems(3) by (auto simp: list_all_iff)
  have inv': "inv (srv_store srv')" using run_inv [OF Cons.prems(1)] ops(1) by simp
  have ps: "pending (srv_store srv') i \<or> spent (srv_store srv') i"
    using run_pending [OF Cons.prems(1,2) ns] ops(1) by simp
  have IH: "times_served K i xs srv' \<le> (if spent (srv_store srv') i then 0 else 1)"
    using Cons.prems(3) by (intro Cons.IH [OF inv' ps]) simp
  show ?case
  proof (cases "spent (srv_store srv) i")
    case True
    then have "spent (srv_store srv') i"
      using spent_run [OF Cons.prems(1) True ns] ops(1) by simp
    moreover have "\<not> serves i x r"
      using ops(3) spent_silent [OF Cons.prems(1) True, of "OpGet i"]
      by (auto simp: store_step_pair simp del: store_step.simps)
    ultimately show ?thesis using IH True st by simp
  next
    case False
    show ?thesis
    proof (cases "serves i x r")
      case True
      then obtain e where e: "ops = [(e, OpGet i)]"
        "delivers i (OpGet i) (OutGet (fst (GetPaste (K e) (srv_store srv) i)))"
        using ops(3) by blast
      have "spent (srv_store srv') i"
        using pending_delivers [OF Cons.prems(1), of i "OpGet i" e] Cons.prems(2) False ops(1) e
        by (simp add: run_steps del: store_run.simps store_step.simps)
      then show ?thesis using IH False st True by simp
    next
      case no: False
      then show ?thesis using IH False st by (simp split: if_splits)
    qed
  qed
qed simp

end

subsection \<open>A creation that succeeds\<close>

lemma CreatePaste_200:
  assumes "CreatePaste k random body srv = (resp, srv')" "http_status resp = 200"
  obtains r c plain i res where "decode_create_request body = Some r" "validateCreatePasteRequest r = []"
    "prepare_content r = Inr (c, plain)" "GenerateID random = Some i"
    "SavePaste k (srv_store srv) i c (free_tier_expiry (expiry_seconds r)) (burn_after_read r) plain
       = (Inr res, srv_store srv')"
    "resp = encoded_response no_store_headers
       (paste_response_json \<lparr>resp_id = p_id (sr_paste res), resp_expires_at = p_expires_at (sr_paste res)\<rparr>)"
proof -
  have err: "http_status e \<noteq> 200" if "prepare_content r = Inl e" for r e
    using that by (auto simp: prepare_content_def split: if_splits option.splits)
  have ve: "http_status (WriteValidationError es) \<noteq> 200" for es
    by (simp add: WriteValidationError_def json_response_def)
  show thesis
    using assms err ve that
    by (auto simp: CreatePaste_def Let_def split: option.splits if_splits sum.splits prod.splits)
qed

lemma CreatePaste_ok:
  assumes "decode_create_request body = Some r" "validateCreatePasteRequest r = []"
    "prepare_content r = Inr (c, plain)" "GenerateID random = Some i"
    "SavePaste k (srv_store srv) i c (free_tier_expiry (expiry_seconds r)) (burn_after_read r) plain = (Inr res, db)"
    "paste_validate (sr_paste res) = None"
  shows "CreatePaste k random body srv =
    (encoded_response no_store_headers
       (paste_response_json \<lparr>resp_id = p_id (sr_paste res), resp_expires_at = p_expires_at (sr_paste res)\<rparr>),
     set_store db (bump IncrementPasteCreated srv))"
  using assms by (simp add: CreatePaste_def)

text \<open>Content that was prepared for a valid request passes the check of the reader.\<close>

lemma plaintext_json_nonempty: "plaintext_json r \<noteq> []"
  by (simp add: plaintext_json_def json_marshal_def)


text \<open>The arguments that the handler ever passes to a backend.\<close>

definition save_args_ok :: "string \<Rightarrow> string \<Rightarrow> int \<Rightarrow> bool \<Rightarrow> bool" where
  "save_args_ok i c n plain \<longleftrightarrow> id_pattern i \<and> c \<noteq> [] \<and> 60 \<le> n \<and> n \<le> 604800 \<and>
     (case b64_decode StdEncoding c of None \<Rightarrow> False | Some d \<Rightarrow> plain \<or> length d \<le> 393216)"

lemma CreatePaste_args:
  assumes "validateCreatePasteRequest r = []" "prepare_content r = Inr (c, plain)" "length rnd = 32"
  shows "save_args_ok (b64_encode RawURLEncoding rnd) c (free_tier_expiry (expiry_seconds r)) plain"
proof -
  have n: "60 \<le> free_tier_expiry (expiry_seconds r) \<and> free_tier_expiry (expiry_seconds r) \<le> 604800"
    using assms(1)
    by (auto simp: validateCreatePasteRequest_def ValidateExpirySeconds_def free_tier_expiry_def limits split: if_splits)
  have d: "c \<noteq> [] \<and> (case b64_decode StdEncoding c of None \<Rightarrow> False | Some d \<Rightarrow> plain \<or> length d \<le> 393216)"
  proof (cases "ciphertext r = []")
    case True
    have rt: "b64_decode StdEncoding (b64_encode StdEncoding (plaintext_json r)) = Some (plaintext_json r)"
      by (rule b64_roundtrip) simp
    then have "b64_encode StdEncoding (plaintext_json r) \<noteq> []"
      using plaintext_json_nonempty [of r] by (auto simp: b64_decode_def)
    with rt True assms(2) show ?thesis by (auto simp: prepare_content_def split: if_splits)
  next
    case False
    then show ?thesis using assms(2)
      by (auto simp: prepare_content_def MaxCiphertextSizeEncrypted_def split: if_splits option.splits)
  qed
  show ?thesis using n d GenerateID_pattern [OF assms(3)] by (simp add: save_args_ok_def)
qed

lemma GetPasteAPI_served:
  assumes "id_pattern i" "GetPaste (K e1) (srv_store srv) i = (Inr (c, p), db)"
    and "ValidateBase64 c ''stored ciphertext'' = None" "paste_validate p = None" "t \<le> p_expires_at p"
    and "p_is_burned p \<longrightarrow> p_burn_after_read p" "dq_ok (srv_queue srv)"
  shows "\<exists>srv'. GetPasteAPI K e1 e2 t i srv = (Answered (view_response c p), srv')"
proof -
  have v: "ValidatePasteID i = None" using assms(1) by simp
  have "QueueDeletion i (srv_queue (set_store db srv)) \<noteq> None"
    using assms(7) by (auto simp: QueueDeletion_def chan_try_send_def dq_ok_def)
  then show ?thesis using v assms(2-6)
    by (auto simp: GetPasteAPI_def Let_def SanitizeString_id [OF assms(1)] simp del: ValidatePasteID_iff)
qed

text \<open>The request and the server the witnesses use.\<close>

definition sample_body :: string where
  "sample_body = ''{\"ciphertext\":\"QQ==\",\"expiry_seconds\":60,\"burn_after_read\":true}''"

definition sample_request :: create_paste_request where
  "sample_request = \<lparr>ciphertext = ''QQ=='', plaintext = [], metadata = None, expiry_seconds = 60,
     burn_after_read = True, turnstile_token = []\<rparr>"

definition sample_server :: "sqldb server" where
  "sample_server = \<lparr>srv_queue = NewDeletionQueue empty_db 1,
     srv_metrics = \<lparr>pastesCreated = 0, pastesViewed = 0, pastesBurned = 0\<rparr>\<rparr>"

definition sample_random :: string where "sample_random = replicate 32 (CHR ''x'')"

lemma sample_decode: "decode_create_request sample_body = Some sample_request"
  by code_simp

lemma sample_valid: "validateCreatePasteRequest sample_request = []"
  by code_simp

lemma sample_content: "prepare_content sample_request = Inr (''QQ=='', False)"
proof -
  have "b64_decode StdEncoding ''QQ=='' = Some ''A''" by code_simp
  then show ?thesis by (simp add: prepare_content_def sample_request_def limits)
qed

lemma sample_years: "year_of 0 = 1970" "year_of 60000000000 = 1970"
  by code_simp+

lemma empty_db_fresh [simp]: "pastes empty_db i = None"
  by (simp add: empty_db_def)

lemma sample_hashes: "sqlite_hashes (calm 0) empty_db ''QQ=='' False = Inr (sha256_hex ''QQ=='', [])"
  by (simp add: sqlite_hashes_def sqlite_isHashBanned_def has_ban_def empty_db_def)

lemma sample_times: "expiry_time 0 (free_tier_expiry 60) = 60000000000" "sqlite_time 0 = 0"
  "sqlite_time 60000000000 = 60000000000" "sqlite_time 5000000000 = 5000000000"
  by (simp_all add: free_tier_expiry_def limits expiry_time_small second_def sqlite_time_def truncate_to_def)

lemma sample_store [simp]: "srv_store sample_server = empty_db" "dq_ok (srv_queue sample_server)"
  by (simp_all add: sample_server_def srv_store_def dq_ok_new)

lemma sample_save:
  obtains res db' where "sqlite_SavePaste (calm 0) empty_db i ''QQ=='' 60 True False = (Inr res, db')"
  using sqlite_save_succeeds [OF db_ok_empty _ _ sample_hashes, of i 60 True] by auto

subsection \<open>Properties\<close>





lemma sample_created:
  "\<exists>resp srv'. CreatePaste (sqlite_backend (calm 0)) (Some sample_random) sample_body sample_server = (resp, srv') \<and>
     http_status resp = 200"
proof -
  let ?i = "b64_encode RawURLEncoding sample_random"
  have g: "GenerateID (Some sample_random) = Some ?i" by (simp add: GenerateID_def)
  obtain res db' where sv: "sqlite_SavePaste (calm 0) empty_db ?i ''QQ=='' 60 True False = (Inr res, db')"
    by (rule sample_save)
  have p: "sr_paste res = \<lparr>p_id = ?i, p_expires_at = 60000000000, p_burn_after_read = True,
      p_size_bytes = 4, p_created_at = 0, p_is_burned = False\<rparr>"
    using sv sample_times(1)
    by (auto simp: sqlite_SavePaste_def Let_def free_tier_expiry_def limits expiry_time_small second_def
        split: sum.splits prod.splits if_splits option.splits)
  have pv: "paste_validate (sr_paste res) = None"
    using GenerateID_pattern [of sample_random] sample_years by (simp add: p paste_validate_iff sample_random_def)
  have s: "SavePaste (sqlite_backend (calm 0)) (srv_store sample_server) ?i ''QQ==''
      (free_tier_expiry (expiry_seconds sample_request)) (burn_after_read sample_request) False = (Inr res, db')"
    using sv by (simp add: sample_request_def free_tier_expiry_def limits)
  show ?thesis using CreatePaste_ok [OF sample_decode sample_valid sample_content g s pv] by simp
qed

text \<open>Burn-after-read holds over HTTP. After \<^verbatim>\<open>CreatePaste\<close> has answered 200 for a burn-after-read
  request under a fresh identifier on SQLite, any later history of requests, reads and queue
  deletions by any number of clients that does not generate the identifier again answers at most one read of
  it with status 200.\<close>

theorem http_burn_once:
  assumes "db_ok (srv_store srv)" "CreatePaste (sqlite_backend e) random body srv = (resp, srv')"
    and "http_status resp = 200" "decode_create_request body = Some r" "burn_after_read r"
    and "GenerateID random = Some i" "pastes (srv_store srv) i = None" "list_all (\<lambda>x. \<not> generates i x) xs"
  shows "times_served sqlite_backend i xs srv' \<le> 1"
proof -
  obtain c n plain res where sv: "sqlite_SavePaste e (srv_store srv) i c n True plain = (Inr res, srv_store srv')"
    by (rule CreatePaste_200 [OF assms(2,3)]) (use assms(4-6) in auto)
  have ok: "db_ok (srv_store srv')" using assms(1) sv by (rule sqlite_SavePaste_inv)
  have "sql_pending (srv_store srv') i \<or> sql_spent (srv_store srv') i"
    using assms(1,7) sv by (rule sqlite_saved_pending)
  from sqlite.served_once [OF ok this assms(8)] show ?thesis by (simp split: if_splits)
qed

theorem http_burn_once_witness:
  "\<exists>resp srv'. CreatePaste (sqlite_backend (calm 0)) (Some sample_random) sample_body sample_server = (resp, srv') \<and>
     http_status resp = 200 \<and>
     times_served sqlite_backend (b64_encode RawURLEncoding sample_random)
       [HGet (calm 1) (calm 1) 1 (b64_encode RawURLEncoding sample_random),
        HGet (calm 2) (calm 2) 2 (b64_encode RawURLEncoding sample_random)] srv' \<le> 1"
proof -
  let ?i = "b64_encode RawURLEncoding sample_random"
  have g: "GenerateID (Some sample_random) = Some ?i" by (simp add: GenerateID_def)
  obtain resp srv' where c: "CreatePaste (sqlite_backend (calm 0)) (Some sample_random) sample_body sample_server
      = (resp, srv')" "http_status resp = 200"
    using sample_created by blast
  show ?thesis
    using c http_burn_once [OF _ c(1,2) sample_decode _ g, of "[HGet (calm 1) (calm 1) 1 ?i, HGet (calm 2) (calm 2) 2 ?i]"]
    by (simp add: db_ok_empty sample_request_def del: times_served.simps)
qed

text \<open>What a read that answers 200 has established. The identifier in the path is well formed after
  sanitizing, the backend returned content for it that is acceptable base64 with valid metadata, the
  paste had not expired on the server's clock, and the body is that content with that metadata.\<close>

theorem served_paste_checked:
  assumes "GetPasteAPI K e1 e2 t raw srv = (Answered resp, srv')" "http_status resp = 200"
  shows "id_pattern (SanitizeString raw) \<and>
    (\<exists>c p db. GetPaste (K e1) (srv_store srv) (SanitizeString raw) = (Inr (c, p), db) \<and>
       ValidateBase64 c ''stored ciphertext'' = None \<and> paste_validate p = None \<and> t \<le> p_expires_at p \<and>
       (p_is_burned p \<longrightarrow> p_burn_after_read p) \<and> resp = view_response c p \<and> srv_store srv' = db)"
  using assms(1)
  by (cases rule: GetPasteAPI_cases) (use assms(2) in \<open>auto split: if_splits\<close>)

theorem served_paste_checked_witness:
  "\<exists>K :: unit \<Rightarrow> unit backend. \<exists>srv resp srv'.
     GetPasteAPI K () () 0 (b64_encode RawURLEncoding sample_random) srv = (Answered resp, srv') \<and>
     http_status resp = 200 \<and> id_pattern (SanitizeString (b64_encode RawURLEncoding sample_random))"
proof -
  let ?i = "b64_encode RawURLEncoding sample_random"
  let ?p = "\<lparr>p_id = ?i, p_expires_at = 60000000000, p_burn_after_read = False, p_size_bytes = 4,
    p_created_at = 0, p_is_burned = False\<rparr>"
  let ?k = "\<lparr>SavePaste = (\<lambda>db i c n b p. (Inl ErrNotFound, db)), GetPaste = (\<lambda>db i. (Inr (''QQ=='', ?p), db)),
    MarkBurned = (\<lambda>db i. (Inr (), db)), DeletePaste = (\<lambda>db i. (Inr (), db)),
    BanContentHash = (\<lambda>db h r. (Inr (), db)), BanPlaintextHash = (\<lambda>db h r. (Inr (), db)),
    Ping = (\<lambda>db. Inr ()), Close = (\<lambda>db. Inr ())\<rparr> :: unit backend"
  let ?srv = "\<lparr>srv_queue = NewDeletionQueue () 1, srv_metrics = \<lparr>pastesCreated = 0, pastesViewed = 0, pastesBurned = 0\<rparr>\<rparr>"
  have i: "id_pattern ?i" by (rule GenerateID_pattern) (simp add: sample_random_def)
  have pv: "paste_validate ?p = None" using i sample_years by (simp add: paste_validate_iff)
  have v: "ValidateBase64 ''QQ=='' ''stored ciphertext'' = None" by code_simp
  obtain srv' where g: "GetPasteAPI (\<lambda>_. ?k) () () 0 ?i ?srv = (Answered (view_response ''QQ=='' ?p), srv')"
    using GetPasteAPI_served [OF i _ v pv, of "\<lambda>_. ?k" "()" ?srv "()" 0 "()"] by (auto simp: dq_ok_new)
  from served_paste_checked [OF this] g show ?thesis by (metis status_simps(2))
qed

text \<open>Limits hold at the storage interface. Whatever request body comes in, \<^verbatim>\<open>CreatePaste\<close> only ever
  calls \<^verbatim>\<open>SavePaste\<close> with a well-formed identifier, base64 content that decodes (to at most 384 KiB when it
  is encrypted) and an expiry between one minute and seven days: backends that agree on such calls
  cannot be told apart by the handler.\<close>

theorem create_saves_within_limits:
  assumes "length rnd = 32"
    and "\<And>db i c n b p. save_args_ok i c n p \<Longrightarrow> SavePaste k db i c n b p = SavePaste k' db i c n b p"
  shows "CreatePaste k (Some rnd) body srv = CreatePaste k' (Some rnd) body srv"
proof -
  have "SavePaste k db (b64_encode RawURLEncoding rnd) c (free_tier_expiry (expiry_seconds r)) b p =
      SavePaste k' db (b64_encode RawURLEncoding rnd) c (free_tier_expiry (expiry_seconds r)) b p"
    if "validateCreatePasteRequest r = []" "prepare_content r = Inr (c, p)" for db r c b p
    using assms(2) CreatePaste_args [OF that assms(1)] by blast
  then show ?thesis
    by (simp add: CreatePaste_def Let_def GenerateID_def split: option.splits sum.splits)
qed

theorem create_saves_within_limits_witness:
  "CreatePaste (sqlite_backend (calm 0)) (Some sample_random) sample_body sample_server =
   CreatePaste ((sqlite_backend (calm 0))
       \<lparr>SavePaste := \<lambda>db i c n b p. if n \<le> 604800 then sqlite_SavePaste (calm 0) db i c n b p else (Inl ErrNotFound, db)\<rparr>)
     (Some sample_random) sample_body sample_server"
  by (rule create_saves_within_limits) (simp_all add: sample_random_def save_args_ok_def)

text \<open>C18: A paste that has been burned answers 500. On SQLite, reading a burned paste, with no failure of
  the two statements involved, answers \<^verbatim>\<open>Paste data corrupted\<close> with status 500 and changes nothing: the base64
  check rejects the empty content before the branch for burned pastes, with its 410 answer, is reached.\<close>

theorem burned_read_answers_500:
  assumes "id_pattern i" "burned_pastes (srv_store srv) i \<noteq> None" "\<not> fails e QBegin" "\<not> fails e QIsBurned"
  shows "GetPasteAPI sqlite_backend e e2 t i srv = (Answered (WriteSimpleError ''Paste data corrupted'' 500), srv)"
proof -
  have v: "ValidatePasteID i = None" using assms(1) by simp
  have b: "ValidateBase64 [] f \<noteq> None" for f by (simp add: ValidateBase64_ok)
  have "sqlite_GetPaste e (srv_store srv) i = (Inr ([], burned_paste i), srv_store srv)"
    using assms(2-4) by (simp add: sqlite_GetPaste_def)
  then show ?thesis using v b
    by (simp add: GetPasteAPI_def Let_def SanitizeString_id [OF assms(1)] del: ValidatePasteID_iff)
qed

theorem burned_read_answers_500_witness:
  "GetPasteAPI sqlite_backend (calm 0) (calm 0) 0 (b64_encode RawURLEncoding sample_random)
     (set_store (empty_db\<lparr>burned_pastes := [b64_encode RawURLEncoding sample_random \<mapsto> 0]\<rparr>) sample_server) =
   (Answered (WriteSimpleError ''Paste data corrupted'' 500),
     set_store (empty_db\<lparr>burned_pastes := [b64_encode RawURLEncoding sample_random \<mapsto> 0]\<rparr>) sample_server)"
  by (rule burned_read_answers_500 [OF GenerateID_pattern]) (simp_all add: sample_random_def)

end
