(* ===== verification/ClientIp.thy ===== *)
theory ClientIp
  imports Utf8 Strconv "HOL-Library.Word" "HOL-Library.Code_Target_Nat"
begin

text \<open>
  \<^verbatim>\<open>src/utils/ip.go\<close> and \<^verbatim>\<open>src/config/trusted_proxies.go\<close>: which address a request is attributed to.
  An address is the list of its 16 bytes, as \<^verbatim>\<open>net.ParseIP\<close> returns it (IPv4 in the
  \<^verbatim>\<open>::ffff:0:0/96\<close> form). The first part models the functions of package \<^verbatim>\<open>net\<close> that the sources call.
\<close>

unbundle bit_operations_syntax

type_synonym ip = "nat list"

definition v4_prefix :: ip where "v4_prefix = replicate 10 0 @ [255, 255]"

subsection \<open>Parsing addresses\<close>

text \<open>One decimal field: no sign, no leading zero, at most 255.\<close>

definition v4_field :: "string \<Rightarrow> nat option" where
  "v4_field s =
     (if s \<noteq> [] \<and> list_all decimal_digit s \<and> (length s = 1 \<or> hd s \<noteq> CHR ''0'') \<and> decimal_value s 0 \<le> 255
      then Some (decimal_value s 0) else None)"

definition parse_v4 :: "string \<Rightarrow> nat list option" where
  "parse_v4 s =
     (case map v4_field (split_char (CHR ''.'') s) of
        [Some a, Some b, Some c, Some d] \<Rightarrow> Some [a, b, c, d]
      | _ \<Rightarrow> None)"

definition hex_group :: "string \<Rightarrow> string" where
  "hex_group s = takeWhile (\<lambda>c. hex_value c \<noteq> None) s"

fun hex_number :: "string \<Rightarrow> nat \<Rightarrow> nat" where
  "hex_number [] acc = acc"
| "hex_number (c # s) acc = hex_number s (16 * acc + (case hex_value c of None \<Rightarrow> 0 | Some d \<Rightarrow> d))"

text \<open>
  The loop of \<^verbatim>\<open>netip.parseIPv6\<close>: the fuel counts the 16-bit groups that still fit, \<open>acc\<close> holds the bytes
  read and \<open>ell\<close> the position of the ellipsis. It returns the text that is left.
\<close>

fun v6_groups :: "nat \<Rightarrow> string \<Rightarrow> nat list \<Rightarrow> nat option \<Rightarrow> (string \<times> nat list \<times> nat option) option" where
  "v6_groups 0 s acc ell = Some (s, acc, ell)"
| "v6_groups (Suc n) s acc ell =
     (let g = hex_group s; r = drop (length g) s; v = hex_number g 0 in
      if 4 < length g \<or> g = [] then None
      else if r \<noteq> [] \<and> hd r = CHR ''.'' then
        (if (ell = None \<and> length acc \<noteq> 12) \<or> 16 < length acc + 4 then None
         else (case parse_v4 s of None \<Rightarrow> None | Some q \<Rightarrow> Some ([], acc @ q, ell)))
      else
        (let acc1 = acc @ [v div 256, v mod 256] in
         case r of
           [] \<Rightarrow> Some ([], acc1, ell)
         | c # t \<Rightarrow>
             if c \<noteq> CHR '':'' \<or> t = [] then None
             else if hd t = CHR '':'' then
               (if ell \<noteq> None then None
                else if tl t = [] then Some ([], acc1, Some (length acc1))
                else v6_groups n (tl t) acc1 (Some (length acc1)))
             else v6_groups n t acc1 ell))"

definition parse_v6 :: "string \<Rightarrow> ip option" where
  "parse_v6 s =
     (if s = ''::'' then Some (replicate 16 0)
      else (case (if has_prefix s ''::'' then v6_groups 8 (drop 2 s) [] (Some 0) else v6_groups 8 s [] None) of
        None \<Rightarrow> None
      | Some (r, acc, ell) \<Rightarrow>
          if r \<noteq> [] then None
          else if length acc < 16 then
            (case ell of None \<Rightarrow> None
             | Some p \<Rightarrow> Some (take p acc @ replicate (16 - length acc) 0 @ drop p acc))
          else if ell \<noteq> None then None else Some acc))"

text \<open>The first dot, colon or percent sign decides the syntax; an address with a zone is refused. The
  flag tells an IPv4 text.\<close>

definition parse_addr :: "string \<Rightarrow> (bool \<times> ip) option" where
  "parse_addr s =
     (case dropWhile (\<lambda>c. c \<noteq> CHR ''.'' \<and> c \<noteq> CHR '':'' \<and> c \<noteq> CHR ''%'') s of
        [] \<Rightarrow> None
      | c # t \<Rightarrow>
          if c = CHR ''.'' then map_option (\<lambda>q. (True, v4_prefix @ q)) (parse_v4 s)
          else if c = CHR '':'' \<and> CHR ''%'' \<notin> set s then map_option (\<lambda>a. (False, a)) (parse_v6 s)
          else None)"

definition ParseIP :: "string \<Rightarrow> ip option" where
  "ParseIP s = map_option snd (parse_addr s)"

definition To4 :: "ip \<Rightarrow> ip option" where
  "To4 a = (if length a = 4 then Some a
            else if length a = 16 \<and> take 12 a = v4_prefix then Some (drop 12 a) else None)"

subsection \<open>Networks\<close>

record ipnet =
  net_ip :: ip
  net_mask :: "nat list"

text \<open>\<^verbatim>\<open>CIDRMask(ones, bits)\<close>, byte by byte.\<close>

definition mask_byte :: "nat \<Rightarrow> nat" where
  "mask_byte n = (if 8 \<le> n then 255 else 256 - 2 ^ (8 - n))"

definition cidr_mask :: "nat \<Rightarrow> nat \<Rightarrow> nat list" where
  "cidr_mask ones bytes = map (\<lambda>i. mask_byte (ones - 8 * i)) [0..<bytes]"

definition and_bytes :: "nat list \<Rightarrow> nat list \<Rightarrow> nat list" where
  "and_bytes xs ys = map2 (AND) xs ys"

definition dtoi :: "string \<Rightarrow> nat option" where
  "dtoi s =
     (let ds = takeWhile decimal_digit s
      in if ds = [] \<or> ds \<noteq> s \<or> 16777215 \<le> decimal_value ds 0 then None else Some (decimal_value ds 0))"

definition ParseCIDR :: "string \<Rightarrow> ipnet option" where
  "ParseCIDR s =
     (case split_n2 (CHR ''/'') s of
        [a, m] \<Rightarrow>
          (case (parse_addr a, dtoi m) of
             (Some (v4, addr), Some n) \<Rightarrow>
               if v4 then (if n \<le> 32 then
                   Some \<lparr>net_ip = and_bytes (drop 12 addr) (cidr_mask n 4), net_mask = cidr_mask n 4\<rparr> else None)
               else (if n \<le> 128 then
                   Some \<lparr>net_ip = and_bytes addr (cidr_mask n 16), net_mask = cidr_mask n 16\<rparr> else None)
           | _ \<Rightarrow> None)
      | _ \<Rightarrow> None)"

text \<open>\<^verbatim>\<open>IPNet.Contains\<close>; \<^verbatim>\<open>networkNumberAndMask\<close> brings both parts to the same length.\<close>

definition Contains :: "ipnet \<Rightarrow> ip \<Rightarrow> bool" where
  "Contains n a =
     (let nn = (case To4 (net_ip n) of Some q \<Rightarrow> q | None \<Rightarrow> net_ip n);
          m = (if length nn = 4 \<and> length (net_mask n) = 16 then drop 12 (net_mask n) else net_mask n);
          x = (case To4 a of Some q \<Rightarrow> q | None \<Rightarrow> a)
      in length nn \<in> {4, 16} \<and> length m = length nn \<and> length x = length nn \<and>
         and_bytes nn m = and_bytes x m)"

text \<open>\<^verbatim>\<open>net.SplitHostPort\<close>: the host part, or \<^const>\<open>None\<close> for its errors.\<close>

definition split_host_port :: "string \<Rightarrow> string option" where
  "split_host_port s =
     (if CHR '':'' \<notin> set s then None
      else (let port = rev (takeWhile (\<lambda>c. c \<noteq> CHR '':'') (rev s));
                i = length s - length port - 1
        in if hd s = CHR ''['' then
             (let e = length (takeWhile (\<lambda>c. c \<noteq> CHR '']'') s)
              in if e = length s \<or> e + 1 \<noteq> i then None
                 else if CHR ''['' \<in> set (drop 1 s) \<or> CHR '']'' \<in> set (drop (e + 1) s) then None
                 else Some (drop 1 (take e s)))
           else if CHR '':'' \<in> set (take i s) then None
           else if CHR ''['' \<in> set s \<or> CHR '']'' \<in> set s then None
           else Some (take i s)))"

subsection \<open>Trusted proxies\<close>

record proxy_config =
  px_enabled :: bool
  px_cidrs :: "ipnet list"
  px_headers :: "string list"

definition disabled_proxies :: proxy_config where
  "disabled_proxies = \<lparr>px_enabled = False, px_cidrs = [], px_headers = []\<rparr>"

text \<open>A panic of \<^verbatim>\<open>mustParseCIDR\<close> is \<^const>\<open>None\<close>.\<close>

definition mustParseCIDR :: "string \<Rightarrow> ipnet option" where
  "mustParseCIDR s = ParseCIDR s"

definition cloud_run_proxies :: "proxy_config option" where
  "cloud_run_proxies =
     (case (mustParseCIDR ''35.191.0.0/16'', mustParseCIDR ''130.211.0.0/22'') of
        (Some a, Some b) \<Rightarrow> Some \<lparr>px_enabled = True, px_cidrs = [a, b], px_headers = [''X-Forwarded-For'']\<rparr>
      | _ \<Rightarrow> None)"

definition network_of :: "string \<Rightarrow> ipnet option" where
  "network_of cidr =
     (case ParseCIDR cidr of
        Some n \<Rightarrow> Some n
      | None \<Rightarrow>
          (case ParseIP cidr of
             None \<Rightarrow> None
           | Some a \<Rightarrow>
               Some (if To4 a \<noteq> None then \<lparr>net_ip = a, net_mask = cidr_mask 32 4\<rparr>
                     else \<lparr>net_ip = a, net_mask = cidr_mask 128 16\<rparr>)))"

definition LoadTrustedProxyConfig :: "(string \<Rightarrow> string) \<Rightarrow> proxy_config option" where
  "LoadTrustedProxyConfig getenv =
     (if getenv ''K_SERVICE'' \<noteq> [] then cloud_run_proxies
      else if getenv ''TRUSTED_PROXIES_ENABLED'' \<noteq> ''true'' then Some disabled_proxies
      else if getenv ''TRUSTED_PROXIES'' = [] then Some disabled_proxies
      else Some \<lparr>px_enabled = True,
        px_cidrs = List.map_filter (\<lambda>c. network_of (trim_space c)) (split_char (CHR '','') (getenv ''TRUSTED_PROXIES'')),
        px_headers = (if getenv ''TRUSTED_HEADERS'' = [] then [''X-Forwarded-For'']
                      else map trim_space (split_char (CHR '','') (getenv ''TRUSTED_HEADERS'')))\<rparr>)"

definition IsTrustedProxy :: "proxy_config \<Rightarrow> string \<Rightarrow> bool" where
  "IsTrustedProxy c s =
     (if \<not> px_enabled c then False
      else (case ParseIP s of None \<Rightarrow> False | Some a \<Rightarrow> list_ex (\<lambda>n. Contains n a) (px_cidrs c)))"

subsection \<open>The client's address\<close>

text \<open>What the code reads of a request: the peer and \<^verbatim>\<open>Header.Get\<close>.\<close>

record http_peer =
  remote_addr :: string
  header_get :: "string \<Rightarrow> string"

definition parseIP :: "string \<Rightarrow> string" where
  "parseIP addr =
     (case split_host_port addr of
        Some host \<Rightarrow> host
      | None \<Rightarrow> if ParseIP addr \<noteq> None then addr else ''127.0.0.1'')"

definition header_ip :: "string \<Rightarrow> string \<Rightarrow> string option" where
  "header_ip header v =
     (let x = (if header = ''X-Forwarded-For'' then trim_space (hd (split_char (CHR '','') v))
               else trim_space v)
      in if v = [] then None else if ParseIP x \<noteq> None then Some x else None)"

fun first_header_ip :: "(string \<Rightarrow> string) \<Rightarrow> string list \<Rightarrow> string option" where
  "first_header_ip get [] = None"
| "first_header_ip get (h # hs) =
     (case header_ip h (get h) of Some x \<Rightarrow> Some x | None \<Rightarrow> first_header_ip get hs)"

definition GetClientIP :: "http_peer \<Rightarrow> proxy_config option \<Rightarrow> string" where
  "GetClientIP r config =
     (let remote = parseIP (remote_addr r) in
      case config of
        None \<Rightarrow> remote
      | Some c \<Rightarrow>
          if \<not> px_enabled c then remote
          else if \<not> IsTrustedProxy c remote then remote
          else (case first_header_ip (header_get r) (px_headers c) of Some x \<Rightarrow> x | None \<Rightarrow> remote))"

subsection \<open>Masks and prefixes\<close>

text \<open>An IPv4 address as a number.\<close>

fun v4_value :: "nat list \<Rightarrow> nat" where
  "v4_value [a, b, c, d] = ((a * 256 + b) * 256 + c) * 256 + d"
| "v4_value _ = 0"

definition v4_bytes :: "nat list \<Rightarrow> bool" where
  "v4_bytes q \<longleftrightarrow> length q = 4 \<and> list_all (\<lambda>b. b < 256) q"

lemma v4_bytesE:
  assumes "v4_bytes q"
  obtains a b c d where "q = [a, b, c, d]" "a < 256" "b < 256" "c < 256" "d < 256"
proof -
  obtain a b c d where "q = [a, b, c, d]"
    using assms unfolding v4_bytes_def by (auto simp: eval_nat_numeral length_Suc_conv)
  then show ?thesis
    using assms that by (simp add: v4_bytes_def)
qed

lemma mask_byte_bits:
  assumes "k \<le> 8"
  shows "mask_byte k = push_bit (8 - k) (mask k)"
proof (cases "k = 8")
  case True
  then show ?thesis by (simp add: mask_byte_def mask_eq_exp_minus_1)
next
  case False
  have "(2 :: nat) ^ k * 2 ^ (8 - k) = 256"
    using assms by (simp flip: power_add)
  then show ?thesis
    using assms False by (simp add: mask_byte_def push_bit_eq_mult mask_eq_exp_minus_1 diff_mult_distrib)
qed

lemma and_mask_byte:
  assumes "a < 256" and "k \<le> 8"
  shows "a AND mask_byte k = a div 2 ^ (8 - k) * 2 ^ (8 - k)"
proof -
  have split: "(2 :: nat) ^ k * 2 ^ (8 - k) = 256"
    using assms(2) by (simp flip: power_add)
  have "a AND push_bit (8 - k) (mask k) = push_bit (8 - k) (take_bit k (drop_bit (8 - k) a))"
    by (rule bit_eqI) (auto simp: bit_simps)
  moreover have "drop_bit (8 - k) a < 2 ^ k"
    using assms(1) split by (simp add: drop_bit_eq_div div_less_iff_less_mult)
  ultimately show ?thesis
    using assms(2) by (simp add: mask_byte_bits take_bit_nat_eq_self push_bit_eq_mult drop_bit_eq_div)
qed

text \<open>Two bytes agree under a mask when their leading bits do.\<close>

lemma masked_byte_eq_iff:
  "a < 256 \<Longrightarrow> b < 256 \<Longrightarrow> k \<le> 8 \<Longrightarrow>
     a AND mask_byte k = b AND mask_byte k \<longleftrightarrow> a div 2 ^ (8 - k) = b div 2 ^ (8 - k)"
  by (simp add: and_mask_byte)

lemma mask_byte_ge: "8 \<le> k \<Longrightarrow> mask_byte k = 255"
  by (simp add: mask_byte_def)

lemma masked_byte_eq:
  "a < 256 \<Longrightarrow> b < 256 \<Longrightarrow> a AND mask_byte k = b AND mask_byte k \<longleftrightarrow> a div 2 ^ (8 - k) = b div 2 ^ (8 - k)"
  using masked_byte_eq_iff [of a b k] masked_byte_eq_iff [of a b 8]
  by (cases "k \<le> 8") (simp_all add: mask_byte_ge)

text \<open>The prefix of a number whose last byte is \<open>l\<close>.\<close>

lemma byte_prefix_eq:
  assumes "l < 256" "l' < 256" and "k \<le> 8"
  shows "(h * 256 + l) div 2 ^ (8 - k) = (h' * 256 + l') div 2 ^ (8 - k) \<longleftrightarrow>
    h = h' \<and> l div 2 ^ (8 - k) = l' div (2 ^ (8 - k) :: nat)"
proof -
  define m :: nat where "m = 2 ^ (8 - k)"
  have p: "256 = 2 ^ k * m" and m: "0 < m"
    using assms(3) by (simp_all add: m_def flip: power_add)
  have small: "x div m < 2 ^ k" if "x < 256" for x
    using that m p by (simp add: div_less_iff_less_mult)
  have d: "(g * 256 + x) div m = g * 2 ^ k + x div m" for g x
    unfolding p using m by (simp flip: mult.assoc)
  have "x * 2 ^ k + y = x' * 2 ^ k + y' \<longleftrightarrow> x = x' \<and> y = y'" if "y < 2 ^ k" "y' < 2 ^ k"
    for x y x' y' :: nat
    using that by (metis add_diff_cancel_left' div_mult_self3 div_less add.right_neutral power_not_zero zero_neq_numeral)
  with small assms show ?thesis
    unfolding m_def [symmetric] d by blast
qed

lemma byte_prefix_skip: "l < 256 \<Longrightarrow> (h * 256 + l) div 2 ^ (8 + m) = h div (2 ^ m :: nat)"
  by (simp add: power_add div_mult2_eq)

text \<open>Masking the four bytes with an \<open>n\<close>-bit mask compares the first \<open>n\<close> bits of the address.\<close>

lemma masked_v4_eq:
  assumes "v4_bytes q" "v4_bytes x" "n \<le> 32"
  shows "and_bytes q (cidr_mask n 4) = and_bytes x (cidr_mask n 4) \<longleftrightarrow>
    v4_value q div 2 ^ (32 - n) = v4_value x div 2 ^ (32 - n)"
proof -
  obtain a b c d where q: "q = [a, b, c, d]" "a < 256" "b < 256" "c < 256" "d < 256"
    using assms(1) by (rule v4_bytesE)
  obtain a' b' c' d' where x: "x = [a', b', c', d']" "a' < 256" "b' < 256" "c' < 256" "d' < 256"
    using assms(2) by (rule v4_bytesE)
  have masked: "and_bytes q (cidr_mask n 4) = and_bytes x (cidr_mask n 4) \<longleftrightarrow>
     a div 2 ^ (8 - n) = a' div 2 ^ (8 - n) \<and> b div 2 ^ (8 - (n - 8)) = b' div 2 ^ (8 - (n - 8)) \<and>
     c div 2 ^ (8 - (n - 16)) = c' div 2 ^ (8 - (n - 16)) \<and> d div 2 ^ (8 - (n - 24)) = d' div 2 ^ (8 - (n - 24))"
    using q x by (simp add: and_bytes_def cidr_mask_def masked_byte_eq numeral_eq_Suc upt_rec del: upt_Suc)
  consider "n \<le> 8" | "8 < n" "n \<le> 16" | "16 < n" "n \<le> 24" | "24 < n"
    by linarith
  then show ?thesis
  proof cases
    case 1
    then have "32 - n = 8 + (8 + (8 + (8 - n)))" by simp
    with 1 show ?thesis
      unfolding masked by (simp only: q x v4_value.simps byte_prefix_skip) (use q x in simp)
  next
    case 2
    then have e: "32 - n = 8 + (8 + (8 - (n - 8)))" "n - 8 \<le> 8" by simp_all
    with 2 show ?thesis
      unfolding masked by (simp only: q x v4_value.simps byte_prefix_skip byte_prefix_eq) (use q x in simp)
  next
    case 3
    then have e: "32 - n = 8 + (8 - (n - 16))" "n - 16 \<le> 8" by simp_all
    have b: "a * 256 + b = a' * 256 + b' \<longleftrightarrow> a = a' \<and> b = b'"
      using byte_prefix_eq [of b b' 8 a a'] q x by simp
    from 3 e b show ?thesis
      unfolding masked by (simp only: q x v4_value.simps byte_prefix_skip byte_prefix_eq) (use q x in simp)
  next
    case 4
    then have e: "32 - n = 8 - (n - 24)" "n - 24 \<le> 8" using assms(3) by simp_all
    have b: "a * 256 + b = a' * 256 + b' \<longleftrightarrow> a = a' \<and> b = b'"
      using byte_prefix_eq [of b b' 8 a a'] q x by simp
    have c: "(a * 256 + b) * 256 + c = (a' * 256 + b') * 256 + c' \<longleftrightarrow> (a = a' \<and> b = b') \<and> c = c'"
      using byte_prefix_eq [of c c' 8 "a * 256 + b" "a' * 256 + b'"] q x b by simp
    from 4 e c show ?thesis
      unfolding masked by (simp only: q x v4_value.simps byte_prefix_skip byte_prefix_eq) (use q x in simp)
  qed
qed

subsection \<open>The text of an IPv4 address\<close>

definition v4_text :: "nat list \<Rightarrow> string" where
  "v4_text q = join_char (CHR ''.'') (map nat_digits q)"

lemma byte_text:
  assumes "n < 256"
  shows "list_all decimal_digit (nat_digits n)" "nat_digits n \<noteq> []"
    "v4_field (nat_digits n) = Some n" "dtoi (nat_digits n) = Some n"
proof -
  have "length (nat_digits 0) = 1" by (simp add: nat_digits.simps)
  then have "length (nat_digits n) = 1 \<or> hd (nat_digits n) \<noteq> CHR ''0''"
    using nat_digits_leading [of n] by (cases "n = 0") auto
  then show "v4_field (nat_digits n) = Some n"
    using assms by (simp add: v4_field_def nat_digits_nonempty nat_digits_digits decimal_value_digits)
  have "takeWhile decimal_digit (nat_digits n) = nat_digits n"
    using nat_digits_digits [of n] by (intro takeWhile_eq_all_conv [THEN iffD2]) (simp add: list_all_iff)
  then show "dtoi (nat_digits n) = Some n"
    using assms by (simp only: dtoi_def Let_def decimal_value_digits) (simp add: nat_digits_nonempty)
qed (simp_all add: nat_digits_nonempty nat_digits_digits)

lemma byte_text_no:
  assumes "n < 256" and "\<not> decimal_digit c"
  shows "c \<notin> set (nat_digits n)"
  using byte_text(1) [OF assms(1)] assms(2) by (auto simp: list_all_iff)

lemma not_digits [simp]:
  "\<not> decimal_digit (CHR ''.'')" "\<not> decimal_digit (CHR '':'')" "\<not> decimal_digit (CHR ''%'')"
  "\<not> decimal_digit (CHR ''/'')" "\<not> decimal_digit (CHR '','')"
  by (simp_all add: decimal_digit_def)

lemma v4_text_cases:
  assumes "v4_bytes q"
  obtains a b c d where "q = [a, b, c, d]" "a < 256" "b < 256" "c < 256" "d < 256"
    "v4_text q = nat_digits a @ CHR ''.'' # nat_digits b @ CHR ''.'' # nat_digits c @ CHR ''.'' # nat_digits d"
  using assms by (elim v4_bytesE) (simp add: v4_text_def)

lemma v4_text_chars:
  assumes "v4_bytes q" and "c \<in> set (v4_text q)"
  shows "decimal_digit c \<or> c = CHR ''.''"
  using assms(1) assms(2) by (elim v4_text_cases) (auto dest: byte_text_no)

lemma v4_text_solid: "v4_bytes q \<Longrightarrow> solid (v4_text q)"
  by (auto simp: solid_def list_all_iff space_byte_def decimal_digit_def dest!: v4_text_chars)

lemma parse_v4_text: "v4_bytes q \<Longrightarrow> parse_v4 (v4_text q) = Some q"
  by (elim v4_text_cases)
    (simp add: parse_v4_def split_char_append split_char_noocc byte_text_no byte_text(3))

lemma parse_addr_text:
  assumes "v4_bytes q"
  shows "parse_addr (v4_text q) = Some (True, v4_prefix @ q)"
proof -
  obtain a t where "a < 256" and t: "v4_text q = nat_digits a @ CHR ''.'' # t"
    using assms by (rule v4_text_cases)
  then have "dropWhile (\<lambda>c. c \<noteq> CHR ''.'' \<and> c \<noteq> CHR '':'' \<and> c \<noteq> CHR ''%'') (v4_text q) = CHR ''.'' # t"
    using byte_text(1) [of a] by (subst t, subst dropWhile_append2) (auto simp: list_all_iff)
  then show ?thesis
    using assms by (simp add: parse_addr_def parse_v4_text)
qed

lemma ParseIP_text [simp]: "v4_bytes q \<Longrightarrow> ParseIP (v4_text q) = Some (v4_prefix @ q)"
  by (simp add: ParseIP_def parse_addr_text)

lemma To4_prefix [simp]: "length q = 4 \<Longrightarrow> To4 (v4_prefix @ q) = Some q"
  by (simp add: To4_def v4_prefix_def)

lemma ParseCIDR_text:
  assumes "v4_bytes q" and "n \<le> 32"
  shows "ParseCIDR (v4_text q @ CHR ''/'' # nat_digits n) =
    Some \<lparr>net_ip = and_bytes q (cidr_mask n 4), net_mask = cidr_mask n 4\<rparr>"
proof -
  have "CHR ''/'' \<notin> set (v4_text q)"
    using v4_text_chars [OF assms(1)] by fastforce
  then show ?thesis
    using assms by (simp add: ParseCIDR_def split_n2_append parse_addr_text byte_text(4) v4_prefix_def)
qed

lemma ParseCIDR_bare: "v4_bytes q \<Longrightarrow> ParseCIDR (v4_text q) = None"
proof -
  assume q: "v4_bytes q"
  have "CHR ''/'' \<notin> set (v4_text q)"
    using v4_text_chars [OF q] by fastforce
  then show ?thesis
    by (simp add: ParseCIDR_def split_n2_noocc)
qed

lemma length_masks [simp]: "length (cidr_mask n b) = b" "length (and_bytes xs ys) = min (length xs) (length ys)"
  by (simp_all add: cidr_mask_def and_bytes_def)

lemma and_bytes_idem: "and_bytes (and_bytes xs m) m = and_bytes xs m"
  by (auto simp: and_bytes_def intro!: nth_equalityI)

lemma v4_bytes_length: "v4_bytes q \<Longrightarrow> length q = 4"
  by (simp add: v4_bytes_def)

text \<open>An IPv4 network contains the IPv4 addresses that share its prefix, and no IPv6 address.\<close>

lemma Contains_v4:
  assumes "v4_bytes q" "v4_bytes x" "n \<le> 32"
  shows "Contains \<lparr>net_ip = and_bytes q (cidr_mask n 4), net_mask = cidr_mask n 4\<rparr> (v4_prefix @ x) \<longleftrightarrow>
    v4_value q div 2 ^ (32 - n) = v4_value x div 2 ^ (32 - n)"
  using assms by (simp add: Contains_def To4_def v4_bytes_length and_bytes_idem masked_v4_eq v4_prefix_def)

lemma Contains_v4_only:
  assumes "Contains \<lparr>net_ip = nn, net_mask = m\<rparr> a" and "length nn = 4" and "length a = 16"
  shows "take 12 a = v4_prefix"
  using assms by (auto simp: Contains_def To4_def Let_def split: if_splits)

subsection \<open>Which proxies are trusted\<close>

lemma parse_addr_length: "parse_v4 s = Some q \<Longrightarrow> length q = 4"
  by (auto simp: parse_v4_def split: list.splits option.splits)

definition trusts :: "proxy_config option \<Rightarrow> string \<Rightarrow> bool" where
  "trusts config s = (case config of None \<Rightarrow> False | Some c \<Rightarrow> IsTrustedProxy c s)"

lemma parseIP_of_text: "v4_bytes q \<Longrightarrow> parseIP (v4_text q) = v4_text q"
proof -
  assume q: "v4_bytes q"
  have "CHR '':'' \<notin> set (v4_text q)"
    using v4_text_chars [OF q] by fastforce
  with q show ?thesis
    by (simp add: parseIP_def split_host_port_def)
qed

lemma header_ip_valid: "header_ip h v = Some x \<Longrightarrow> ParseIP x \<noteq> None"
  unfolding header_ip_def Let_def by (metis option.distinct(1) option.inject)

lemma first_header_ip_valid:
  "first_header_ip get hs = Some x \<Longrightarrow>
    ParseIP x \<noteq> None \<and> (\<exists>h \<in> set hs. header_ip h (get h) = Some x)"
  by (induction hs) (auto split: option.splits dest: header_ip_valid)

lemma GetClientIP_untrusted:
  "\<not> trusts config (parseIP (remote_addr r)) \<Longrightarrow> GetClientIP r config = parseIP (remote_addr r)"
  by (cases config) (simp_all add: GetClientIP_def trusts_def Let_def)

lemma GetClientIP_trusted:
  "IsTrustedProxy c (parseIP (remote_addr r)) \<Longrightarrow> GetClientIP r (Some c) =
     (case first_header_ip (header_get r) (px_headers c) of Some x \<Rightarrow> x | None \<Rightarrow> parseIP (remote_addr r))"
  by (simp add: GetClientIP_def IsTrustedProxy_def [of c "parseIP (remote_addr r)"] split: if_splits)

lemma GetClientIP_cases:
  assumes "GetClientIP r config \<noteq> parseIP (remote_addr r)"
  obtains c where "config = Some c" "IsTrustedProxy c (parseIP (remote_addr r))"
    "first_header_ip (header_get r) (px_headers c) = Some (GetClientIP r config)"
proof (cases config)
  case None
  with assms show ?thesis by (simp add: GetClientIP_def)
next
  case (Some c)
  with assms have t: "IsTrustedProxy c (parseIP (remote_addr r))"
    using GetClientIP_untrusted [of config r] by (auto simp: trusts_def)
  show ?thesis
    using assms that [OF Some t]
    by (cases "first_header_ip (header_get r) (px_headers c)") (simp_all add: Some GetClientIP_trusted [OF t])
qed

lemma IsTrustedProxy_iff:
  "IsTrustedProxy c s \<longleftrightarrow>
    px_enabled c \<and> (\<exists>a. ParseIP s = Some a \<and> (\<exists>net \<in> set (px_cidrs c). Contains net a))"
  by (cases "ParseIP s") (simp_all add: IsTrustedProxy_def list_ex_iff)

text \<open>C22: A request header can change the client address only when the peer itself is an address of a
  trusted network. Two requests from the same peer get the same address whatever their headers, unless
  forwarding is enabled and one of the configured networks contains the peer; and an address that
  differs from the peer's was read from one of the configured headers and is a valid IP address, so an
  attacker outside the proxies can neither choose the address nor inject arbitrary text.\<close>

theorem client_ip_not_spoofed:
  "(\<not> trusts config (parseIP (remote_addr r)) \<and> remote_addr r' = remote_addr r \<longrightarrow>
      GetClientIP r' config = parseIP (remote_addr r)) \<and>
   (GetClientIP r config \<noteq> parseIP (remote_addr r) \<longrightarrow>
      (\<exists>c net a. config = Some c \<and> px_enabled c \<and> net \<in> set (px_cidrs c) \<and>
         ParseIP (parseIP (remote_addr r)) = Some a \<and> Contains net a \<and>
         ParseIP (GetClientIP r config) \<noteq> None \<and>
         (\<exists>h \<in> set (px_headers c). header_ip h (header_get r h) = Some (GetClientIP r config))))"
proof (intro conjI impI)
  assume "\<not> trusts config (parseIP (remote_addr r)) \<and> remote_addr r' = remote_addr r"
  then show "GetClientIP r' config = parseIP (remote_addr r)"
    using GetClientIP_untrusted [of config r'] by simp
next
  assume "GetClientIP r config \<noteq> parseIP (remote_addr r)"
  then obtain c where "config = Some c" "IsTrustedProxy c (parseIP (remote_addr r))"
    "first_header_ip (header_get r) (px_headers c) = Some (GetClientIP r config)"
    by (rule GetClientIP_cases)
  then show "\<exists>c net a. config = Some c \<and> px_enabled c \<and> net \<in> set (px_cidrs c) \<and>
         ParseIP (parseIP (remote_addr r)) = Some a \<and> Contains net a \<and>
         ParseIP (GetClientIP r config) \<noteq> None \<and>
         (\<exists>h \<in> set (px_headers c). header_ip h (header_get r h) = Some (GetClientIP r config))"
    using first_header_ip_valid unfolding IsTrustedProxy_iff by blast
qed

definition lb_net :: "nat list \<Rightarrow> nat \<Rightarrow> ipnet" where
  "lb_net q n = \<lparr>net_ip = and_bytes q (cidr_mask n 4), net_mask = cidr_mask n 4\<rparr>"

lemma mustParseCIDR_load_balancer:
  "mustParseCIDR ''35.191.0.0/16'' = Some (lb_net [35, 191, 0, 0] 16)"
  "mustParseCIDR ''130.211.0.0/22'' = Some (lb_net [130, 211, 0, 0] 22)"
  by code_simp+

text \<open>Every parsed address has sixteen bytes.\<close>

definition ip_bytes :: "ip \<Rightarrow> bool" where
  "ip_bytes a \<longleftrightarrow> list_all (\<lambda>b. b < 256) a"

lemma ip_bytes_append [simp]: "ip_bytes (a @ b) \<longleftrightarrow> ip_bytes a \<and> ip_bytes b"
  by (simp add: ip_bytes_def)

lemma ip_bytes_zeros [simp]: "ip_bytes (replicate n 0)"
  by (simp add: ip_bytes_def list_all_iff)

lemma ip_bytes_prefix [simp]: "ip_bytes v4_prefix" "length v4_prefix = 12"
  by (simp_all add: ip_bytes_def v4_prefix_def list_all_iff)

lemma ip_bytes_parts: "ip_bytes a \<Longrightarrow> ip_bytes (take n a) \<and> ip_bytes (drop n a)"
  by (auto simp: ip_bytes_def list_all_iff dest: in_set_takeD in_set_dropD)

lemma v4_field_bound: "v4_field s = Some n \<Longrightarrow> n < 256"
  by (auto simp: v4_field_def split: if_splits)

lemma parse_v4_bytes: "parse_v4 s = Some q \<Longrightarrow> v4_bytes q"
  by (auto simp: parse_v4_def v4_bytes_def split: list.splits option.splits dest!: v4_field_bound)

lemma hex_value_less: "hex_value c = Some d \<Longrightarrow> d < 16"
  by (auto simp: hex_value_def Let_def split: if_splits)

lemma hex_number_bound: "hex_number s acc < (acc + 1) * 16 ^ length s"
proof (induction s arbitrary: acc)
  case (Cons c s)
  obtain d where d: "d < 16" "hex_number (c # s) acc = hex_number s (16 * acc + d)"
    using hex_value_less [of c] that [of 0] by (cases "hex_value c") auto
  have "hex_number s (16 * acc + d) < (16 * acc + d + 1) * 16 ^ length s"
    by (rule Cons)
  also have "\<dots> \<le> (16 * (acc + 1)) * 16 ^ length s"
    using d(1) by (intro mult_right_mono) auto
  also have "\<dots> = (acc + 1) * 16 ^ length (c # s)"
    by (simp add: algebra_simps)
  finally show ?case
    unfolding d(2) .
qed simp

lemma hex_number_group:
  assumes "length s \<le> 4"
  shows "hex_number s 0 div 256 < 256"
proof -
  have "hex_number s 0 < 16 ^ length s" using hex_number_bound [of s 0] by simp
  also have "(16 :: nat) ^ length s \<le> 16 ^ 4" using assms by (intro power_increasing) auto
  finally show ?thesis by (simp add: less_mult_imp_div_less)
qed

lemma v6_groups_bytes:
  "v6_groups n s acc ell = Some (r, acc', ell') \<Longrightarrow> ip_bytes acc \<Longrightarrow> length acc + 2 * n \<le> 16 \<Longrightarrow>
    ip_bytes acc' \<and> length acc' \<le> 16"
proof (induction n arbitrary: s acc ell)
  case (Suc n)
  define v where "v = hex_number (hex_group s) 0"
  have acc1: "ip_bytes (acc @ [v div 256, v mod 256])" "length (acc @ [v div 256, v mod 256]) + 2 * n \<le> 16"
    if "length (hex_group s) \<le> 4"
    using Suc.prems(2,3) hex_number_group [OF that] by (simp_all add: ip_bytes_def v_def)
  from Suc.prems(1) consider
      (quad) q where "parse_v4 s = Some q" "length acc + 4 \<le> 16" "acc' = acc @ q"
    | (last) "length (hex_group s) \<le> 4" "acc' = acc @ [v div 256, v mod 256]"
    | (more) t e where "length (hex_group s) \<le> 4"
        "v6_groups n t (acc @ [v div 256, v mod 256]) e = Some (r, acc', ell')"
    by (fastforce simp: Let_def not_less v_def [symmetric] split: if_splits option.splits list.splits)
  then show ?case
  proof cases
    case quad
    then show ?thesis
      using Suc.prems(2) parse_v4_bytes [of s q] by (simp add: v4_bytes_def ip_bytes_def)
  next
    case last
    then show ?thesis using acc1 by simp
  next
    case more
    then show ?thesis using acc1 Suc.IH by blast
  qed
qed simp

lemma parse_v6_bytes:
  assumes "parse_v6 s = Some a"
  shows "ip_bytes a \<and> length a = 16"
proof -
  have fill: "ip_bytes (take p b @ replicate (16 - length b) 0 @ drop p b) \<and>
      length (take p b @ replicate (16 - length b) 0 @ drop p b) = 16"
    if "ip_bytes b" "length b < 16" for b p
    using that ip_bytes_parts [of b p] by simp
  have start: "ip_bytes []" by (simp add: ip_bytes_def)
  show ?thesis
  proof (cases "s = ''::''")
    case True
    with assms show ?thesis by (auto simp: parse_v6_def)
  next
    case False
    define g where "g = (if has_prefix s ''::'' then v6_groups 8 (drop 2 s) [] (Some 0) else v6_groups 8 s [] None)"
    from assms False obtain r acc ell p where g: "g = Some (r, acc, ell)"
      and a: "if length acc < 16 then a = take p acc @ replicate (16 - length acc) 0 @ drop p acc else a = acc"
      unfolding parse_v6_def g_def [symmetric] by (auto split: option.splits if_splits)
    have "ip_bytes acc \<and> length acc \<le> 16"
      using g start unfolding g_def by (auto dest!: v6_groups_bytes split: if_splits)
    with a fill show ?thesis by (auto split: if_splits)
  qed
qed

lemma v4_bytes_ip: "v4_bytes q \<longleftrightarrow> ip_bytes q \<and> length q = 4"
  by (auto simp: v4_bytes_def ip_bytes_def)

lemma ParseIP_bytes:
  assumes "ParseIP s = Some a"
  shows "ip_bytes a \<and> length a = 16"
proof -
  consider (v4) q where "parse_v4 s = Some q" "a = v4_prefix @ q" | (v6) "parse_v6 s = Some a"
    using assms unfolding ParseIP_def parse_addr_def by (auto split: list.splits if_splits)
  then show ?thesis
    by cases (use parse_v4_bytes [of s] parse_v6_bytes [of s a] in \<open>auto simp: v4_bytes_ip\<close>)
qed

lemma Contains_load_balancer:
  assumes "v4_bytes q" "n \<le> 32" "ip_bytes a" "length a = 16"
  shows "Contains (lb_net q n) a \<longleftrightarrow>
    (\<exists>x. a = v4_prefix @ x \<and> v4_bytes x \<and> v4_value q div 2 ^ (32 - n) = v4_value x div 2 ^ (32 - n))"
proof
  assume c: "Contains (lb_net q n) a"
  then have "take 12 a = v4_prefix"
    using assms v4_bytes_length [of q] by (auto simp: lb_net_def intro!: Contains_v4_only)
  then have a: "a = v4_prefix @ drop 12 a"
    by (metis append_take_drop_id)
  moreover have x: "v4_bytes (drop 12 a)"
    using assms by (simp add: v4_bytes_ip ip_bytes_parts)
  moreover have "Contains (lb_net q n) (v4_prefix @ drop 12 a)"
    using c a by simp
  ultimately show "\<exists>x. a = v4_prefix @ x \<and> v4_bytes x \<and> v4_value q div 2 ^ (32 - n) = v4_value x div 2 ^ (32 - n)"
    using Contains_v4 [OF assms(1) x assms(2)] unfolding lb_net_def by blast
qed (use assms in \<open>auto simp: lb_net_def Contains_v4\<close>)

lemma v4_prefix_16:
  assumes "v4_bytes q" "v4_bytes x"
  shows "v4_value q div 2 ^ (32 - 16) = v4_value x div 2 ^ (32 - 16) \<longleftrightarrow> q ! 0 = x ! 0 \<and> q ! 1 = x ! 1"
proof -
  have e: "32 - 16 = (8 + (8 + (8 - 8)) :: nat)" "(8 :: nat) \<le> 8" by simp_all
  from assms show ?thesis
    by (elim v4_bytesE) (simp only: v4_value.simps e byte_prefix_skip byte_prefix_eq, simp)
qed

lemma v4_prefix_22:
  assumes "v4_bytes q" "v4_bytes x"
  shows "v4_value q div 2 ^ (32 - 22) = v4_value x div 2 ^ (32 - 22) \<longleftrightarrow>
    q ! 0 = x ! 0 \<and> q ! 1 = x ! 1 \<and> q ! 2 div 4 = x ! 2 div 4"
proof -
  have e: "32 - 22 = (8 + (8 - 6) :: nat)" "(6 :: nat) \<le> 8" by simp_all
  have two: "a * 256 + b = a' * 256 + b' \<longleftrightarrow> a = a' \<and> b = b'" if "b < 256" "b' < 256" for a b a' b' :: nat
    using byte_prefix_eq [OF that, of 8 a a'] by simp
  from assms show ?thesis
    by (elim v4_bytesE) (simp only: v4_value.simps e byte_prefix_skip byte_prefix_eq two, simp)
qed

lemma lb_range_1:
  assumes "ip_bytes a" "length a = 16"
  shows "Contains (lb_net [35, 191, 0, 0] 16) a \<longleftrightarrow> (\<exists>x y. a = v4_prefix @ [35, 191, x, y])"
proof -
  have n: "v4_bytes [35, 191, 0, 0]" "(16 :: nat) \<le> 32" by (simp_all add: v4_bytes_def)
  have "v4_value [35, 191, 0, 0] div 2 ^ (32 - 16) = v4_value z div 2 ^ (32 - 16) \<longleftrightarrow> (\<exists>x y. z = [35, 191, x, y])"
    if "v4_bytes z" for z
    unfolding v4_prefix_16 [OF n(1) that] using that by (elim v4_bytesE) auto
  moreover have "a = v4_prefix @ z \<Longrightarrow> v4_bytes z" for z
    using assms by (simp add: v4_bytes_ip)
  ultimately show ?thesis
    using Contains_load_balancer [OF n assms] by metis
qed

lemma lb_range_2:
  assumes "ip_bytes a" "length a = 16"
  shows "Contains (lb_net [130, 211, 0, 0] 22) a \<longleftrightarrow> (\<exists>x y. x < 4 \<and> a = v4_prefix @ [130, 211, x, y])"
proof -
  have n: "v4_bytes [130, 211, 0, 0]" "(22 :: nat) \<le> 32" by (simp_all add: v4_bytes_def)
  have "v4_value [130, 211, 0, 0] div 2 ^ (32 - 22) = v4_value z div 2 ^ (32 - 22) \<longleftrightarrow>
      (\<exists>x y. x < 4 \<and> z = [130, 211, x, y])"
    if "v4_bytes z" for z
    unfolding v4_prefix_22 [OF n(1) that] using that by (elim v4_bytesE) auto
  moreover have "a = v4_prefix @ z \<Longrightarrow> v4_bytes z" for z
    using assms by (simp add: v4_bytes_ip)
  ultimately show ?thesis
    using Contains_load_balancer [OF n assms] by metis
qed

text \<open>On Cloud Run (the environment sets \<^verbatim>\<open>K_SERVICE\<close>) the configuration loads without a panic of
  \<^verbatim>\<open>mustParseCIDR\<close>, and it trusts exactly the peers that are IPv4 addresses 35.191.x.y or
  130.211.x.y with x below 4, in dotted form or as an IPv4-mapped IPv6 address.\<close>

theorem cloud_run_trusts:
  assumes "getenv ''K_SERVICE'' \<noteq> []"
  shows "\<exists>c. LoadTrustedProxyConfig getenv = Some c \<and> px_headers c = [''X-Forwarded-For''] \<and>
    (\<forall>s. IsTrustedProxy c s \<longleftrightarrow>
       (\<exists>x y. ParseIP s = Some (v4_prefix @ [35, 191, x, y])) \<or>
       (\<exists>x y. x < 4 \<and> ParseIP s = Some (v4_prefix @ [130, 211, x, y])))"
proof -
  define c where "c = \<lparr>px_enabled = True, px_cidrs = [lb_net [35, 191, 0, 0] 16, lb_net [130, 211, 0, 0] 22],
    px_headers = [''X-Forwarded-For'']\<rparr>"
  have "LoadTrustedProxyConfig getenv = Some c"
    using assms by (simp add: LoadTrustedProxyConfig_def cloud_run_proxies_def mustParseCIDR_load_balancer c_def)
  moreover have "IsTrustedProxy c s \<longleftrightarrow>
       (\<exists>x y. ParseIP s = Some (v4_prefix @ [35, 191, x, y])) \<or>
       (\<exists>x y. x < 4 \<and> ParseIP s = Some (v4_prefix @ [130, 211, x, y]))" for s
  proof (cases "ParseIP s")
    case (Some ip)
    then show ?thesis
      using ParseIP_bytes [OF Some] by (simp add: IsTrustedProxy_iff c_def lb_range_1 lb_range_2)
  qed (simp add: IsTrustedProxy_iff)
  ultimately show ?thesis by (auto simp: c_def)
qed

theorem cloud_run_trusts_witness:
  "\<exists>c. LoadTrustedProxyConfig (\<lambda>_. ''bincrypt'') = Some c \<and>
    IsTrustedProxy c (v4_text [35, 191, 7, 9]) \<and> \<not> IsTrustedProxy c (v4_text [35, 192, 7, 9])"
proof -
  have "v4_bytes [35, 191, 7, 9]" "v4_bytes [35, 192, 7, 9]" by (simp_all add: v4_bytes_def)
  with cloud_run_trusts [of "\<lambda>_. ''bincrypt''"] show ?thesis by auto
qed

subsection \<open>A configured list of networks\<close>

text \<open>An entry of \<^verbatim>\<open>TRUSTED_PROXIES\<close>: a network in CIDR form, or a bare address.\<close>

datatype proxy_entry = Net "nat list" nat | Host "nat list"

fun entry_text :: "proxy_entry \<Rightarrow> string" where
  "entry_text (Net q n) = v4_text q @ CHR ''/'' # nat_digits n"
| "entry_text (Host q) = v4_text q"

fun entry_ok :: "proxy_entry \<Rightarrow> bool" where
  "entry_ok (Net q n) \<longleftrightarrow> v4_bytes q \<and> n \<le> 32"
| "entry_ok (Host q) \<longleftrightarrow> v4_bytes q"

fun entry_covers :: "proxy_entry \<Rightarrow> nat list \<Rightarrow> bool" where
  "entry_covers (Net q n) x \<longleftrightarrow> v4_value q div 2 ^ (32 - n) = v4_value x div 2 ^ (32 - n)"
| "entry_covers (Host q) x \<longleftrightarrow> x = q"

fun entry_net :: "proxy_entry \<Rightarrow> ipnet" where
  "entry_net (Net q n) = lb_net q n"
| "entry_net (Host q) = \<lparr>net_ip = v4_prefix @ q, net_mask = cidr_mask 32 4\<rparr>"

lemma entry_text_chars: "entry_ok e \<Longrightarrow> c \<in> set (entry_text e) \<Longrightarrow> decimal_digit c \<or> c = CHR ''.'' \<or> c = CHR ''/''"
  using nat_digits_digits by (cases e) (auto simp: list_all_iff dest: v4_text_chars)

lemma entry_text_nonempty: "entry_ok e \<Longrightarrow> entry_text e \<noteq> []"
  by (cases e) (auto elim!: v4_text_cases simp: nat_digits_nonempty)

lemma entry_text_solid: "entry_ok e \<Longrightarrow> solid (entry_text e)"
  by (auto simp: solid_def list_all_iff space_byte_def decimal_digit_def dest!: entry_text_chars)

lemma network_of_entry: "entry_ok e \<Longrightarrow> network_of (trim_space (entry_text e)) = Some (entry_net e)"
  by (cases e) (simp_all add: trim_space_solid entry_text_solid [of "Net q n" for q n, simplified]
      v4_text_solid network_of_def ParseCIDR_text ParseCIDR_bare v4_bytes_length lb_net_def)

lemma and_full_mask: "v4_bytes q \<Longrightarrow> and_bytes q (cidr_mask 32 4) = q"
  using and_mask_byte [of _ 8] by (elim v4_bytesE)
    (simp add: and_bytes_def cidr_mask_def mask_byte_ge eval_nat_numeral upt_rec del: upt_Suc)

lemma Contains_entry:
  assumes "entry_ok e" "v4_bytes x"
  shows "Contains (entry_net e) (v4_prefix @ x) \<longleftrightarrow> entry_covers e x"
proof (cases e)
  case (Net q n)
  with assms show ?thesis by (simp add: lb_net_def Contains_v4)
next
  case (Host q)
  with assms show ?thesis
    by (auto simp: Contains_def v4_bytes_length and_full_mask)
qed

lemma split_entries:
  "es \<noteq> [] \<Longrightarrow> list_all entry_ok es \<Longrightarrow>
    split_char (CHR '','') (join_char (CHR '','') (map entry_text es)) = map entry_text es"
proof (induction es rule: induct_list012)
  case (2 e)
  have "CHR '','' \<notin> set (entry_text e)"
    using 2 entry_text_chars [of e] by fastforce
  then show ?case by (simp add: split_char_noocc)
next
  case (3 e f es)
  have "CHR '','' \<notin> set (entry_text e)"
    using 3 entry_text_chars [of e] by fastforce
  with 3 show ?case by (simp add: split_char_append)
qed simp

text \<open>With forwarding enabled by hand, a comma-separated list of IPv4 networks and addresses in
  \<^verbatim>\<open>TRUSTED_PROXIES\<close> trusts an IPv4 peer exactly when some entry covers it: the leading \<open>n\<close> bits agree
  for an entry \<open>q/n\<close>, and the whole address for a bare entry.\<close>

theorem listed_proxies_trusted:
  assumes "es \<noteq> []" and "list_all entry_ok es" and "v4_bytes x"
    and "getenv ''K_SERVICE'' = []" and "getenv ''TRUSTED_PROXIES_ENABLED'' = ''true''"
    and "getenv ''TRUSTED_PROXIES'' = join_char (CHR '','') (map entry_text es)"
  shows "trusts (LoadTrustedProxyConfig getenv) (v4_text x) \<longleftrightarrow> list_ex (\<lambda>e. entry_covers e x) es"
proof -
  have nonempty: "join_char (CHR '','') (map entry_text es) \<noteq> []"
    using split_entries [OF assms(1,2)] assms(1,2)
    by (cases es) (auto dest!: entry_text_nonempty)
  have "List.map_filter (\<lambda>c. network_of (trim_space c)) (map entry_text es) = map entry_net es"
    using assms(2) by (induction es) (simp_all add: List.map_filter_simps network_of_entry)
  then show ?thesis
    using assms nonempty
    by (auto simp: trusts_def LoadTrustedProxyConfig_def split_entries IsTrustedProxy_iff
        list_ex_iff list_all_iff Contains_entry)
qed

theorem listed_proxies_trusted_witness:
  "trusts (LoadTrustedProxyConfig (\<lambda>k. if k = ''TRUSTED_PROXIES_ENABLED'' then ''true''
       else if k = ''TRUSTED_PROXIES'' then ''10.0.0.0/8,192.168.1.7'' else []))
     (v4_text [10, 20, 30, 40])"
proof -
  define es where "es = [Net [10, 0, 0, 0] 8, Host [192, 168, 1, 7]]"
  have "list_all entry_ok es" "v4_bytes [10, 20, 30, 40]" by (simp_all add: es_def v4_bytes_def)
  moreover have "join_char (CHR '','') (map entry_text es) = ''10.0.0.0/8,192.168.1.7''"
    unfolding es_def by code_simp
  moreover have "list_ex (\<lambda>e. entry_covers e [10, 20, 30, 40]) es" by (simp add: es_def)
  ultimately show ?thesis
    by (subst listed_proxies_trusted [of es]) (auto simp: es_def)
qed

text \<open>A forwarded header from an untrusted peer is ignored, one from the load balancer is used.\<close>

theorem client_ip_not_spoofed_witness:
  "GetClientIP \<lparr>remote_addr = ''203.0.113.9:4711'', header_get = (\<lambda>_. ''198.51.100.1'')\<rparr> cloud_run_proxies = ''203.0.113.9''"
proof -
  define r where "r h = \<lparr>remote_addr = ''203.0.113.9:4711'', header_get = h\<rparr>" for h
  have "\<not> trusts cloud_run_proxies (parseIP (remote_addr (r (\<lambda>_. []))))"
    unfolding r_def by code_simp
  moreover have "parseIP (remote_addr (r (\<lambda>_. []))) = ''203.0.113.9''"
    unfolding r_def by code_simp
  ultimately show ?thesis
    using client_ip_not_spoofed [of cloud_run_proxies "r (\<lambda>_. [])" "r (\<lambda>_. ''198.51.100.1'')"]
    by (simp add: r_def)
qed

end
