(* ===== verification/Middleware.thy ===== *)
theory Middleware
  imports Handlers RateLimit ClientIp
begin

text \<open>
  \<^verbatim>\<open>src/middleware.go\<close>: the middleware every request passes, each as a function from the next handler
  to a handler. The state of the site holds the rate limiter (any implementation of the interface of
  \<^verbatim>\<open>src/services/ratelimit.go\<close>), the request counters of \<^verbatim>\<open>src/logger/monitor.go\<close> and the state of the
  application behind the middleware. Log lines are output only and left out.
\<close>

record ('rl, 'w) site =
  site_limiter :: 'rl
  site_requests :: "string \<rightharpoonup> int"
  site_errors :: "string \<rightharpoonup> int"
  site_app :: 'w

type_synonym ('rl, 'w) handler = "http_request \<Rightarrow> ('rl, 'w) site \<Rightarrow> outcome \<times> ('rl, 'w) site"

definition before :: "(string \<rightharpoonup> string) \<Rightarrow> outcome \<times> 's \<Rightarrow> outcome \<times> 's" where
  "before hs r = (set_before hs (fst r), snd r)"

subsection \<open>What the logs may show\<close>

definition sensitive_words :: "string list" where
  "sensitive_words = [''token'', ''key'', ''secret'', ''password'', ''auth'']"

definition sensitive_key :: "string \<Rightarrow> bool" where
  "sensitive_key k = list_ex (contains_sub (to_lower k)) sensitive_words"

definition redact_part :: "string \<Rightarrow> string" where
  "redact_part part =
     (case split_n2 (CHR ''='') part of
        [k, v] \<Rightarrow> k @ CHR ''='' # (if sensitive_key k then ''<redacted>'' else v)
      | _ \<Rightarrow> part)"

definition sanitizeQuery :: "string \<Rightarrow> string" where
  "sanitizeQuery q = (if q = [] then [] else join_char (CHR ''&'') (map redact_part (split_char (CHR ''&'') q)))"

definition sanitizePathForLogs :: "string \<Rightarrow> string" where
  "sanitizePathForLogs path =
     (let parts = split_char (CHR ''/'') path in
      if has_prefix path ''/p/'' \<and> length parts = 3 \<and> ValidatePasteID (parts ! 2) = None
      then ''/p/{paste_id}''
      else if has_prefix path ''/api/paste/'' \<and> length parts = 4 \<and> ValidatePasteID (parts ! 3) = None
      then ''/api/paste/{paste_id}''
      else path)"

definition isSensitivePath :: "string \<Rightarrow> bool" where
  "isSensitivePath path \<longleftrightarrow> path = ''/api/health''"

subsection \<open>Logging\<close>

text \<open>The context values that the handlers' log lines read.\<close>

record log_context =
  lc_request_id :: string
  lc_client_ip :: string
  lc_user_agent :: string
  lc_trace_id :: string
  lc_span_id :: string

definition trace_ids :: "string \<Rightarrow> string \<times> string" where
  "trace_ids h =
     (if h = [] then ([], [])
      else (let parts = split_char (CHR ''/'') h
            in (hd parts, if length parts > 1 then hd (split_char (CHR '';'') (parts ! 1)) else [])))"

definition request_id :: "string option \<Rightarrow> http_request \<Rightarrow> string" where
  "request_id random rq =
     (if header_value rq ''X-Request-ID'' \<noteq> [] then header_value rq ''X-Request-ID''
      else (case GenerateID random of None \<Rightarrow> [] | Some i \<Rightarrow> i))"

definition peer_of :: "http_request \<Rightarrow> http_peer" where
  "peer_of rq = \<lparr>remote_addr = rq_remote rq, header_get = header_value rq\<rparr>"

definition log_context_of :: "string option \<Rightarrow> http_request \<Rightarrow> log_context" where
  "log_context_of random rq =
     \<lparr>lc_request_id = request_id random rq, lc_client_ip = GetClientIP (peer_of rq) None,
      lc_user_agent = header_value rq ''User-Agent'',
      lc_trace_id = fst (trace_ids (header_value rq ''X-Cloud-Trace-Context'')),
      lc_span_id = snd (trace_ids (header_value rq ''X-Cloud-Trace-Context''))\<rparr>"

definition endpoint_of :: "http_request \<Rightarrow> string" where
  "endpoint_of rq = rq_method rq @ '' '' @ sanitizePathForLogs (rq_path rq)"

text \<open>\<^verbatim>\<open>m[key]++\<close> on a map to 64-bit integers, where an absent key counts as zero.\<close>

definition count_up :: "string \<Rightarrow> (string \<rightharpoonup> int) \<Rightarrow> (string \<rightharpoonup> int)" where
  "count_up k m = m(k \<mapsto> int64_of ((case m k of None \<Rightarrow> 0 | Some n \<Rightarrow> n) + 1))"

definition Logging :: "string option \<Rightarrow> ('rl, 'w) handler \<Rightarrow> ('rl, 'w) handler" where
  "Logging random next rq s =
     (let s1 = s\<lparr>site_requests := count_up (endpoint_of rq) (site_requests s)\<rparr>;
          hs = [''X-Request-Id'' \<mapsto> lc_request_id (log_context_of random rq)]
      in case next rq s1 of
           (Panicked h, s2) \<Rightarrow> before hs (Panicked h, s2)
         | (Answered r, s2) \<Rightarrow> before hs (Answered r,
             if 400 \<le> http_status r then s2\<lparr>site_errors := count_up (endpoint_of rq) (site_errors s2)\<rparr> else s2))"

subsection \<open>Limits on requests\<close>

definition RequestSizeLimit :: "nat \<Rightarrow> ('rl, 'w) handler \<Rightarrow> ('rl, 'w) handler" where
  "RequestSizeLimit maxBytes next rq s = next (parse_form (max_bytes_reader maxBytes rq)) s"

fun first_error :: "('a \<Rightarrow> 'e option) \<Rightarrow> 'a list \<Rightarrow> 'e option" where
  "first_error f [] = None"
| "first_error f (x # xs) = (case f x of Some e \<Rightarrow> Some e | None \<Rightarrow> first_error f xs)"

definition header_value_error :: "string \<Rightarrow> string \<Rightarrow> http_response option" where
  "header_value_error name value =
     (if 8192 < length value then Some (http_error ''Header value too long'' 400)
      else if has_prefix (to_lower name) ''x-forwarded-'' \<and> CHR 10 \<in> set value
      then Some (http_error ''Invalid header value'' 400) else None)"

definition header_error :: "string \<times> string list \<Rightarrow> http_response option" where
  "header_error h =
     (if 128 < length (fst h) then Some (http_error ''Invalid header name'' 400)
      else first_error (header_value_error (fst h)) (snd h))"

definition var_error :: "string \<times> string \<Rightarrow> http_response option" where
  "var_error kv =
     (if fst kv = ''id'' then
        (if 100 < length (snd kv) \<or> length (snd kv) < 1 then Some (http_error ''Invalid paste ID'' 400)
         else if \<not> list_all id_char (snd kv) then Some (http_error ''Invalid paste ID format'' 400)
         else None)
      else None)"

definition query_error :: "string \<times> string \<Rightarrow> http_response option" where
  "query_error kv =
     (if 128 < length (fst kv) then Some (http_error ''Invalid query parameter'' 400)
      else if 1024 < length (snd kv) then Some (http_error ''Query parameter too long'' 400) else None)"

definition media_type :: "string \<Rightarrow> string" where
  "media_type ct =
     (let t = (if ct = [] then ''application/octet-stream'' else ct)
      in if CHR '';'' \<in> set t then trim_space (takeWhile (\<lambda>c. c \<noteq> CHR '';'') t) else t)"

definition allowed_types :: "string list" where
  "allowed_types = [''application/json'', ''application/x-www-form-urlencoded'', ''multipart/form-data'', ''text/plain'']"

text \<open>The checks in the order of the code; \<^const>\<open>None\<close> lets the request through.\<close>

definition input_error :: "http_request \<Rightarrow> http_response option" where
  "input_error rq =
     (if rq_method rq \<notin> {''GET'', ''POST'', ''OPTIONS'', ''HEAD''} then Some (http_error ''Method not allowed'' 405)
      else case first_error header_error (rq_headers rq) of Some e \<Rightarrow> Some e | None \<Rightarrow>
      (case first_error var_error (rq_vars rq) of Some e \<Rightarrow> Some e | None \<Rightarrow>
      (case first_error query_error (parse_query (rq_query rq)) of Some e \<Rightarrow> Some e | None \<Rightarrow>
         if rq_method rq = ''POST'' \<and> media_type (header_value rq ''Content-Type'') \<notin> set allowed_types
         then Some (http_error ''Unsupported content type'' 415)
         else if 2048 < length (rq_path rq) then Some (http_error ''URL path too long'' 400)
         else if contains_sub (rq_path rq) ''..'' \<or> contains_sub (rq_path rq) ''./''
         then Some (http_error ''Invalid path'' 400)
         else None)))"

definition InputValidation :: "('rl, 'w) handler \<Rightarrow> ('rl, 'w) handler" where
  "InputValidation next rq s = (case input_error rq of Some e \<Rightarrow> (Answered e, s) | None \<Rightarrow> next rq s)"

subsection \<open>Rate limiting\<close>

text \<open>\<^verbatim>\<open>CheckRateLimit\<close> of the interface: an error, or the answer.\<close>

type_synonym 'rl limit_check = "gotime \<Rightarrow> string \<Rightarrow> int \<Rightarrow> duration \<Rightarrow> 'rl \<Rightarrow> (string + limit_result) \<times> 'rl"

definition whole_seconds :: "duration \<Rightarrow> int" where
  "whole_seconds d = trunc_int (seconds64 d)"

definition unix_seconds :: "gotime \<Rightarrow> int" where
  "unix_seconds t = t div second"

definition retry_header :: "limit_result \<Rightarrow> string \<rightharpoonup> string" where
  "retry_header r = (if 0 < lr_retry_after r then [''Retry-After'' \<mapsto> itoa (whole_seconds (lr_retry_after r))] else Map.empty)"

definition limit_headers :: "int \<Rightarrow> int \<Rightarrow> gotime \<Rightarrow> string \<rightharpoonup> string" where
  "limit_headers limit remaining reset =
     [''X-Ratelimit-Limit'' \<mapsto> itoa limit, ''X-Ratelimit-Remaining'' \<mapsto> itoa remaining,
      ''X-Ratelimit-Reset'' \<mapsto> itoa (unix_seconds reset)]"

definition limit_key :: "string \<Rightarrow> string \<Rightarrow> string" where
  "limit_key action ip = action @ CHR '':'' # ip"

text \<open>\<open>t\<close> is the clock of the check, \<open>t'\<close> the one read when the check fails.\<close>

definition RateLimiter ::
  "'rl limit_check \<Rightarrow> proxy_config \<Rightarrow> gotime \<Rightarrow> gotime \<Rightarrow> string \<Rightarrow> int \<Rightarrow> duration \<Rightarrow>
     ('rl, 'w) handler \<Rightarrow> ('rl, 'w) handler" where
  "RateLimiter check proxy t t' action limit window next rq s =
     (case check t (limit_key action (GetClientIP (peer_of rq) (Some proxy))) limit window (site_limiter s) of
        (Inl err, rl) \<Rightarrow>
          before (limit_headers limit 0 (t' + window) ++ [''Retry-After'' \<mapsto> itoa (whole_seconds window)])
            (Answered (http_error ''Service temporarily unavailable'' 503), s\<lparr>site_limiter := rl\<rparr>)
      | (Inr r, rl) \<Rightarrow>
          before (limit_headers limit (lr_remaining r) (lr_reset_at r))
            (if \<not> lr_allowed r
             then before (retry_header r)
               (Answered (http_error ''Rate limit exceeded. Please try again later.'' 429), s\<lparr>site_limiter := rl\<rparr>)
             else next rq (s\<lparr>site_limiter := rl\<rparr>)))"

definition GlobalRateLimit ::
  "'rl limit_check \<Rightarrow> proxy_config \<Rightarrow> gotime \<Rightarrow> int \<Rightarrow> ('rl, 'w) handler \<Rightarrow> ('rl, 'w) handler" where
  "GlobalRateLimit check proxy t requestsPerMinute next rq s =
     (case check t (limit_key ''global'' (GetClientIP (peer_of rq) (Some proxy))) requestsPerMinute minute
             (site_limiter s) of
        (Inl err, rl) \<Rightarrow> next rq (s\<lparr>site_limiter := rl\<rparr>)
      | (Inr r, rl) \<Rightarrow>
          (if \<not> lr_allowed r
           then before (retry_header r) (Answered (http_error ''Too many requests'' 429), s\<lparr>site_limiter := rl\<rparr>)
           else next rq (s\<lparr>site_limiter := rl\<rparr>)))"

subsection \<open>Panics, headers and nonces\<close>

definition Recovery :: "('rl, 'w) handler \<Rightarrow> ('rl, 'w) handler" where
  "Recovery next rq s =
     (case next rq s of
        (Panicked hs, s1) \<Rightarrow> before hs (Answered (http_error ''Internal server error'' 500), s1)
      | r \<Rightarrow> r)"

text \<open>\<^verbatim>\<open>rand.Read\<close> fills 16 bytes or fails.\<close>

definition generateCSPNonce :: "string option \<Rightarrow> string option" where
  "generateCSPNonce random = map_option (b64_encode StdEncoding) random"

definition quoted :: "string \<Rightarrow> string" where "quoted s = CHR 39 # s @ [CHR 39]"

definition connect_sources :: "string \<Rightarrow> string" where
  "connect_sources firebase =
     quoted ''self'' @ (if firebase \<noteq> [] then '' https://'' else '' '') @ firebase @
     '' https://firebasestorage.googleapis.com https://challenges.cloudflare.com''"

definition csp_value :: "string \<Rightarrow> string \<Rightarrow> string" where
  "csp_value nonce firebase =
     ''default-src '' @ quoted ''self'' @ ''; script-src '' @ quoted ''self'' @ '' '' @ quoted (''nonce-'' @ nonce) @
     '' https://challenges.cloudflare.com; style-src '' @ quoted ''self'' @ '' '' @ quoted (''nonce-'' @ nonce) @
     ''; font-src '' @ quoted ''self'' @ ''; img-src '' @ quoted ''self'' @ '' data:; connect-src '' @
     connect_sources firebase @ ''; frame-src https://challenges.cloudflare.com; object-src '' @ quoted ''none'' @
     ''; base-uri '' @ quoted ''self'' @ ''; form-action '' @ quoted ''self'' @ ''; frame-ancestors '' @ quoted ''none'' @
     ''; block-all-mixed-content; upgrade-insecure-requests''"

definition security_headers :: "string \<Rightarrow> string \<Rightarrow> string \<rightharpoonup> string" where
  "security_headers nonce firebase =
     [''Content-Security-Policy'' \<mapsto> csp_value nonce firebase,
      ''X-Content-Type-Options'' \<mapsto> ''nosniff'',
      ''X-Frame-Options'' \<mapsto> ''DENY'',
      ''X-Xss-Protection'' \<mapsto> ''1; mode=block'',
      ''Referrer-Policy'' \<mapsto> ''strict-origin-when-cross-origin'',
      ''Permissions-Policy'' \<mapsto> ''accelerometer=(), camera=(), geolocation=(), gyroscope=(), magnetometer=(), microphone=(), payment=(), usb=()'',
      ''Strict-Transport-Security'' \<mapsto> ''max-age=31536000; includeSubDomains; preload'']"

definition CSP :: "(string \<Rightarrow> string) \<Rightarrow> string option \<Rightarrow> ('rl, 'w) handler \<Rightarrow> ('rl, 'w) handler" where
  "CSP secret random next rq s =
     (case generateCSPNonce random of
        None \<Rightarrow> (Answered (http_error ''Internal Server Error'' 500), s)
      | Some nonce \<Rightarrow>
          before (security_headers nonce (secret ''FIREBASE_AUTH_DOMAIN'')) (next (rq\<lparr>rq_nonce := nonce\<rparr>) s))"

definition injectNonce :: "string \<Rightarrow> string \<Rightarrow> string" where
  "injectNonce html nonce = replace_all ''{{CSP_NONCE}}'' nonce html"

definition html_response :: "http_response \<Rightarrow> bool" where
  "html_response r \<longleftrightarrow> http_headers r ''Content-Type'' \<in> {Some ''text/html; charset=utf-8'', Some ''text/html''}"

text \<open>The writer works on each \<^verbatim>\<open>Write\<close>; the handlers of the program write a page in one call.\<close>

definition InjectNonceMiddleware :: "('rl, 'w) handler \<Rightarrow> ('rl, 'w) handler" where
  "InjectNonceMiddleware next rq s =
     (if rq_nonce rq = [] then next rq s
      else (case next rq s of
        (Answered r, s1) \<Rightarrow>
          (Answered (if html_response r then r\<lparr>http_body := injectNonce (http_body r) (rq_nonce rq)\<rparr> else r), s1)
      | (Panicked hs, s1) \<Rightarrow> (Panicked hs, s1)))"

definition origin_allowed :: "string \<Rightarrow> string \<Rightarrow> bool" where
  "origin_allowed origins origin =
     list_ex (\<lambda>a. origin = trim_space a \<or> trim_space a = ''*'') (split_char (CHR '','') origins)"

definition cors_headers :: "string \<Rightarrow> string \<Rightarrow> string \<rightharpoonup> string" where
  "cors_headers origins origin =
     (if origin_allowed origins origin then [''Access-Control-Allow-Origin'' \<mapsto> origin] else Map.empty) ++
     [''Access-Control-Allow-Headers'' \<mapsto> ''Content-Type'', ''Access-Control-Allow-Methods'' \<mapsto> ''GET, POST, OPTIONS'']"

definition CORS :: "(string \<Rightarrow> string) \<Rightarrow> ('rl, 'w) handler \<Rightarrow> ('rl, 'w) handler" where
  "CORS secret next rq s =
     (let origins = secret ''CORS_ALLOWED_ORIGINS'' in
      if origins = [] then next rq s
      else before (cors_headers origins (header_value rq ''Origin''))
        (if rq_method rq = ''OPTIONS''
         then (Answered \<lparr>http_status = 200, http_headers = Map.empty, http_body = []\<rparr>, s)
         else next rq s))"

subsection \<open>What the sanitizers keep and hide\<close>

text \<open>The key of a query parameter, and its value when it has one.\<close>

definition part_key :: "string \<Rightarrow> string" where
  "part_key p = hd (split_n2 (CHR ''='') p)"
definition part_value :: "string \<Rightarrow> string option" where
  "part_value p = (case split_n2 (CHR ''='') p of [k, v] \<Rightarrow> Some v | _ \<Rightarrow> None)"

lemma split_n2_cases:
  obtains "c \<notin> set s" "split_n2 c s = [s]" | k v where "s = k @ c # v" "c \<notin> set k" "split_n2 c s = [k, v]"
proof (cases "c \<in> set s")
  case True
  then obtain k v where "s = k @ c # v" "c \<notin> set k" by (metis split_list_first)
  then show ?thesis using that(2) split_n2_append by metis
qed (use that(1) split_n2_noocc in metis)

lemma redact_part_spec:
  "part_key (redact_part p) = part_key p \<and>
   part_value (redact_part p) =
     (if sensitive_key (part_key p) then map_option (\<lambda>_. ''<redacted>'') (part_value p) else part_value p)"
proof (cases rule: split_n2_cases [of "CHR ''=''" p])
  case (2 k v)
  then show ?thesis by (simp add: redact_part_def part_key_def part_value_def split_n2_append)
qed (simp add: redact_part_def part_key_def part_value_def)

lemma redact_part_chars: "set (redact_part p) \<subseteq> set p \<union> set ''=<redacted>''"
  by (cases rule: split_n2_cases [of "CHR ''=''" p]) (auto simp: redact_part_def)

lemma sanitizeQuery_parts:
  assumes "q \<noteq> []"
  shows "split_char (CHR ''&'') (sanitizeQuery q) = map redact_part (split_char (CHR ''&'') q)"
proof -
  have "CHR ''&'' \<notin> set (redact_part p)" if "p \<in> set (split_char (CHR ''&'') q)" for p
    using split_char_parts [OF that] redact_part_chars [of p] by auto
  then show ?thesis
    using assms by (auto simp: sanitizeQuery_def intro!: split_join_char)
qed

text \<open>The query written to the logs keeps every parameter's name and position and every value of a
  harmless parameter, and replaces the value of each parameter whose name contains token, key, secret,
  password or auth in any mix of cases.\<close>

theorem sanitizeQuery_redacts:
  "list_all2 (\<lambda>p p'. part_key p' = part_key p \<and>
      part_value p' = (if sensitive_key (part_key p) then map_option (\<lambda>_. ''<redacted>'') (part_value p)
                       else part_value p))
     (split_char (CHR ''&'') q) (split_char (CHR ''&'') (sanitizeQuery q))"
proof (cases "q = []")
  case True
  then show ?thesis by (simp add: sanitizeQuery_def part_value_def)
next
  case False
  then show ?thesis by (simp add: sanitizeQuery_parts list_all2_conv_all_nth redact_part_spec)
qed

lemma split_char_one: "length (split_char c s) = 1 \<Longrightarrow> split_char c s = [s]"
  by (metis One_nat_def join_char.simps(2) join_split_char length_0_conv length_Suc_conv)

lemma path_with_id:
  assumes "\<And>s. split_char (CHR ''/'') (pre @ s) = ps @ split_char (CHR ''/'') s" "n = length ps" "m = length ps + 1"
  shows "has_prefix path pre \<and> length (split_char (CHR ''/'') path) = m \<and>
      ValidatePasteID (split_char (CHR ''/'') path ! n) = None \<longleftrightarrow> (\<exists>i. id_pattern i \<and> path = pre @ i)"
    (is "?l \<longleftrightarrow> ?r")
proof
  assume l: ?l
  then obtain i where i: "path = pre @ i" by (auto simp: has_prefix_iff)
  with l have "split_char (CHR ''/'') i = [i]" by (intro split_char_one) (simp add: assms)
  with l show ?r by (auto simp: i assms nth_append)
next
  assume ?r
  then obtain i where "id_pattern i" "path = pre @ i" by blast
  then show ?l by (simp add: assms split_char_noocc id_pattern_no_slash nth_append)
qed

text \<open>Paste identifiers do not reach the logs or the per-endpoint counters. A path that names a paste,
  on the viewer route or the API route, is logged with a placeholder, whatever the identifier; every
  other path is logged as it is.\<close>

theorem sanitizePathForLogs_hides:
  "sanitizePathForLogs path =
     (if \<exists>i. id_pattern i \<and> path = ''/p/'' @ i then ''/p/{paste_id}''
      else if \<exists>i. id_pattern i \<and> path = ''/api/paste/'' @ i then ''/api/paste/{paste_id}''
      else path)"
proof -
  have "split_char (CHR ''/'') (''/p/'' @ s) = [[], ''p''] @ split_char (CHR ''/'') s" for s
    using split_char_append [of "CHR ''/''" "''p''" s] by simp
  note p = path_with_id [OF this, of 2 3 path]
  have "split_char (CHR ''/'') (''/api/paste/'' @ s) = [[], ''api'', ''paste''] @ split_char (CHR ''/'') s" for s
    using split_char_append [of "CHR ''/''" "''paste''" s] split_char_append [of "CHR ''/''" "''api''" "''paste/'' @ s"] by simp
  note a = path_with_id [OF this, of 3 4 path]
  show ?thesis unfolding sanitizePathForLogs_def Let_def by (simp only: p a list.size)
qed

lemma first_error_None: "first_error f xs = None \<longleftrightarrow> (\<forall>x \<in> set xs. f x = None)"
  by (induction xs) (auto split: option.splits)

lemma first_error_Some: "first_error f xs = Some e \<Longrightarrow> \<exists>x \<in> set xs. f x = Some e"
  by (induction xs) (auto split: option.splits)

lemma http_error_status [simp]: "http_status (http_error m st) = st"
  by (simp add: http_error_def)

text \<open>What a request must look like to get past the checks.\<close>

definition header_within_limits :: "string \<times> string list \<Rightarrow> bool" where
  "header_within_limits h \<longleftrightarrow> length (fst h) \<le> 128 \<and>
     (\<forall>v \<in> set (snd h). length v \<le> 8192 \<and> (has_prefix (to_lower (fst h)) ''x-forwarded-'' \<longrightarrow> CHR 10 \<notin> set v))"

lemma header_error_None: "header_error h = None \<longleftrightarrow> header_within_limits h"
  by (auto simp: header_error_def header_within_limits_def first_error_None header_value_error_def)

lemma input_error_status: "input_error rq = Some e \<Longrightarrow> http_status e \<in> {400, 405, 415}"
proof -
  assume e: "input_error rq = Some e"
  have "http_status r = 400" if "first_error header_error hs = Some r" for hs r
    using first_error_Some [OF that]
    by (auto simp: header_error_def header_value_error_def split: if_splits dest!: first_error_Some)
  moreover have "http_status r = 400" if "first_error var_error vs = Some r" for vs r
    using first_error_Some [OF that] by (auto simp: var_error_def split: if_splits)
  moreover have "http_status r = 400" if "first_error query_error qs = Some r" for qs r
    using first_error_Some [OF that] by (auto simp: query_error_def split: if_splits)
  ultimately show ?thesis
    using e by (auto simp: input_error_def split: if_splits option.splits)
qed

definition var_within_limits :: "string \<times> string \<Rightarrow> bool" where
  "var_within_limits v \<longleftrightarrow> fst v \<noteq> ''id'' \<or> 1 \<le> length (snd v) \<and> length (snd v) \<le> 100 \<and> list_all id_char (snd v)"

definition param_within_limits :: "string \<times> string \<Rightarrow> bool" where
  "param_within_limits p \<longleftrightarrow> length (fst p) \<le> 128 \<and> length (snd p) \<le> 1024"

definition media_type_declared :: "http_request \<Rightarrow> bool" where
  "media_type_declared rq \<longleftrightarrow> rq_method rq \<noteq> ''POST'' \<or> media_type (header_value rq ''Content-Type'') \<in>
     {''application/json'', ''application/x-www-form-urlencoded'', ''multipart/form-data'', ''text/plain''}"

lemma first_errors_None:
  "first_error header_error hs = None \<longleftrightarrow> list_all header_within_limits hs"
  "first_error var_error vs = None \<longleftrightarrow> list_all var_within_limits vs"
  "first_error query_error qs = None \<longleftrightarrow> list_all param_within_limits qs"
proof -
  have "var_error v = None \<longleftrightarrow> var_within_limits v" for v
    by (auto simp: var_error_def var_within_limits_def not_less Suc_le_eq)
  moreover have "query_error q = None \<longleftrightarrow> param_within_limits q" for q
    by (auto simp: query_error_def param_within_limits_def not_less)
  ultimately show "first_error header_error hs = None \<longleftrightarrow> list_all header_within_limits hs"
    "first_error var_error vs = None \<longleftrightarrow> list_all var_within_limits vs"
    "first_error query_error qs = None \<longleftrightarrow> list_all param_within_limits qs"
    by (simp_all add: first_error_None header_error_None list_all_iff)
qed

lemma first_error_status:
  assumes "\<And>x e. f x = Some e \<Longrightarrow> http_status e = st"
  shows "first_error f xs = Some e \<Longrightarrow> http_status e = st"
  using assms by (auto dest: first_error_Some)

lemma field_error_status:
  "first_error header_error hs = Some e \<Longrightarrow> http_status e = 400"
  "first_error var_error vs = Some e \<Longrightarrow> http_status e = 400"
  "first_error query_error qs = Some e \<Longrightarrow> http_status e = 400"
proof -
  have "http_status x = 400" if "header_error h = Some x" for h x
    using that by (auto simp: header_error_def header_value_error_def split: if_splits dest!: first_error_Some)
  moreover have "http_status x = 400" if "var_error v = Some x" for v x
    using that by (auto simp: var_error_def split: if_splits)
  moreover have "http_status x = 400" if "query_error q = Some x" for q x
    using that by (auto simp: query_error_def split: if_splits)
  ultimately show "first_error header_error hs = Some e \<Longrightarrow> http_status e = 400"
    "first_error var_error vs = Some e \<Longrightarrow> http_status e = 400"
    "first_error query_error qs = Some e \<Longrightarrow> http_status e = 400"
    by (blast dest: first_error_Some)+
qed

lemma media_type_declared_iff:
  "media_type_declared rq \<longleftrightarrow> \<not> (rq_method rq = ''POST'' \<and> media_type (header_value rq ''Content-Type'') \<notin> set allowed_types)"
  by (auto simp: media_type_declared_def allowed_types_def)

lemma input_error_result:
  "case input_error rq of
     None \<Rightarrow> rq_method rq \<in> {''GET'', ''POST'', ''OPTIONS'', ''HEAD''} \<and> list_all header_within_limits (rq_headers rq) \<and>
       list_all var_within_limits (rq_vars rq) \<and> list_all param_within_limits (parse_query (rq_query rq)) \<and>
       media_type_declared rq \<and> length (rq_path rq) \<le> 2048 \<and>
       \<not> contains_sub (rq_path rq) ''..'' \<and> \<not> contains_sub (rq_path rq) ''./''
   | Some e \<Rightarrow>
       if rq_method rq \<notin> {''GET'', ''POST'', ''OPTIONS'', ''HEAD''} then http_status e = 405
       else if list_all header_within_limits (rq_headers rq) \<and> list_all var_within_limits (rq_vars rq) \<and>
         list_all param_within_limits (parse_query (rq_query rq)) \<and> \<not> media_type_declared rq then http_status e = 415
       else http_status e = 400 \<and> \<not> (list_all header_within_limits (rq_headers rq) \<and> list_all var_within_limits (rq_vars rq) \<and>
         list_all param_within_limits (parse_query (rq_query rq)) \<and> length (rq_path rq) \<le> 2048 \<and>
         \<not> contains_sub (rq_path rq) ''..'' \<and> \<not> contains_sub (rq_path rq) ''./'')"
  unfolding input_error_def first_errors_None [symmetric] media_type_declared_iff
  by (auto simp: not_le split: option.split dest: field_error_status)

text \<open>C25: The input checks. A request reaches the handlers, unchanged, exactly when its method is one of four, its
  headers and query parameters keep within their length limits and no forwarding header holds a line feed, an
  identifier in its path has 1 to 100 characters of the URL alphabet, a POST declares one of four media
  types, and its path has at most 2048 bytes and neither ".." nor "./". Any other request is answered by
  the middleware and changes nothing: with 405 for its method, with 415 when everything before the media type is
  in order, and with 400 for everything else.\<close>

theorem InputValidation_spec:
  "if rq_method rq \<in> {''GET'', ''POST'', ''OPTIONS'', ''HEAD''} \<and> list_all header_within_limits (rq_headers rq) \<and>
      list_all var_within_limits (rq_vars rq) \<and> list_all param_within_limits (parse_query (rq_query rq)) \<and>
      media_type_declared rq \<and> length (rq_path rq) \<le> 2048 \<and>
      \<not> contains_sub (rq_path rq) ''..'' \<and> \<not> contains_sub (rq_path rq) ''./''
   then InputValidation next rq s = next rq s
   else \<exists>e. InputValidation next rq s = (Answered e, s) \<and>
     http_status e =
       (if rq_method rq \<notin> {''GET'', ''POST'', ''OPTIONS'', ''HEAD''} then 405
        else if list_all header_within_limits (rq_headers rq) \<and> list_all var_within_limits (rq_vars rq) \<and>
          list_all param_within_limits (parse_query (rq_query rq)) \<and> \<not> media_type_declared rq then 415
        else 400)"
proof (cases "input_error rq")
  case None
  then show ?thesis using input_error_result [of rq] by (simp add: InputValidation_def)
next
  case (Some e)
  then show ?thesis using input_error_result [of rq] by (auto simp: InputValidation_def split: if_splits)
qed

text \<open>A POST of JSON passes, the same request as XML does not.\<close>

definition sample_post :: "string \<Rightarrow> http_request" where
  "sample_post ct = \<lparr>rq_method = ''POST'', rq_path = ''/api/paste'', rq_query = ''a=1&b=%41'',
     rq_headers = [(''Content-Type'', [ct]), (''X-Forwarded-For'', [''198.51.100.1''])],
     rq_remote = ''203.0.113.9:4711'', rq_vars = [], rq_body = [], rq_too_large = False, rq_nonce = []\<rparr>"

theorem InputValidation_spec_witness:
  "\<forall>(h :: (unit, unit) handler) s.
     InputValidation h (sample_post ''application/json; charset=utf-8'') s =
       h (sample_post ''application/json; charset=utf-8'') s \<and>
     (\<exists>e. InputValidation h (sample_post ''text/xml'') s = (Answered e, s) \<and> http_status e = 415)"
proof (intro allI)
  fix h :: "(unit, unit) handler" and s
  have json: "list_all header_within_limits (rq_headers (sample_post ''application/json; charset=utf-8''))"
    "media_type_declared (sample_post ''application/json; charset=utf-8'')" by code_simp+
  have xml: "list_all header_within_limits (rq_headers (sample_post ''text/xml''))" "\<not> media_type_declared (sample_post ''text/xml'')"
    by code_simp+
  have rest: "rq_method (sample_post ct) = ''POST''" "rq_vars (sample_post ct) = []" "rq_path (sample_post ct) = ''/api/paste''"
    "rq_query (sample_post ct) = ''a=1&b=%41''" for ct
    by (simp_all add: sample_post_def)
  have parts: "list_all param_within_limits (parse_query ''a=1&b=%41'')" "length ''/api/paste'' \<le> 2048"
    "\<not> contains_sub ''/api/paste'' ''..''" "\<not> contains_sub ''/api/paste'' ''./''" by code_simp+
  show "InputValidation h (sample_post ''application/json; charset=utf-8'') s =
       h (sample_post ''application/json; charset=utf-8'') s \<and>
     (\<exists>e. InputValidation h (sample_post ''text/xml'') s = (Answered e, s) \<and> http_status e = 415)"
    using InputValidation_spec [of "sample_post ''application/json; charset=utf-8''" h s]
      InputValidation_spec [of "sample_post ''text/xml''" h s] json xml parts by (simp add: rest)
qed

subsection \<open>Cross-origin requests\<close>

text \<open>Which origins another site's script may read answers from. With the allow-list of the
  configuration non-empty, an answer of the next handler that does not set the header itself carries
  \<^verbatim>\<open>Access-Control-Allow-Origin\<close> exactly when the request's origin is on the list or the list has a
  star, and then the value is that origin; a preflight request never reaches the next handler.\<close>

theorem CORS_origin:
  assumes "secret ''CORS_ALLOWED_ORIGINS'' \<noteq> []"
    and "\<And>rq s r s'. next rq s = (Answered r, s') \<Longrightarrow> http_headers r ''Access-Control-Allow-Origin'' = None"
    and "CORS secret next rq s = (Answered r, s')"
  shows "http_headers r ''Access-Control-Allow-Origin'' =
      (if \<exists>a \<in> set (split_char (CHR '','') (secret ''CORS_ALLOWED_ORIGINS'')).
            trim_space a \<in> {header_value rq ''Origin'', ''*''}
       then Some (header_value rq ''Origin'') else None) \<and>
    (rq_method rq = ''OPTIONS'' \<longrightarrow> s' = s \<and> http_status r = 200)"
proof -
  have origin: "origin_allowed origins origin \<longleftrightarrow>
      (\<exists>a \<in> set (split_char (CHR '','') origins). trim_space a \<in> {origin, ''*''})" for origins origin
    by (auto simp: origin_allowed_def list_ex_iff)
  show ?thesis
  proof (cases "rq_method rq = ''OPTIONS''")
    case True
    then show ?thesis using assms(1,3) unfolding origin [symmetric]
      by (auto simp: CORS_def before_def cors_headers_def)
  next
    case False
    obtain out s1 where n: "next rq s = (out, s1)" by fastforce
    show ?thesis
    proof (cases out)
      case (Answered r1)
      then show ?thesis using assms(1,3) False n assms(2) [of rq s r1 s1] unfolding origin [symmetric]
        by (auto simp: CORS_def before_def cors_headers_def map_add_def)
    next
      case (Panicked hs)
      then show ?thesis using assms(1,3) False n by (simp add: CORS_def before_def)
    qed
  qed
qed

definition sample_site :: "(unit, unit) site" where
  "sample_site = \<lparr>site_limiter = (), site_requests = Map.empty, site_errors = Map.empty, site_app = ()\<rparr>"

theorem CORS_origin_witness:
  "\<exists>r. CORS (\<lambda>_. ''https://a.example, https://b.example'')
      (\<lambda>rq s. (Answered (http_error ''x'' 404), s)) ((sample_post ''text/plain'')
        \<lparr>rq_headers := [(''Origin'', [''https://b.example''])]\<rparr>)
      sample_site = (Answered r, sample_site) \<and>
    http_headers r ''Access-Control-Allow-Origin'' = Some ''https://b.example''"
proof -
  let ?rq = "(sample_post ''text/plain'')\<lparr>rq_headers := [(''Origin'', [''https://b.example''])]\<rparr>"
  let ?secret = "\<lambda>_ :: string. ''https://a.example, https://b.example''"
  let ?next = "\<lambda>(rq :: http_request) (s :: (unit, unit) site). (Answered (http_error ''x'' 404), s)"
  define r where "r = (http_error ''x'' 404)\<lparr>http_headers :=
    cors_headers ''https://a.example, https://b.example'' (header_value ?rq ''Origin'') ++ http_headers (http_error ''x'' 404)\<rparr>"
  have c: "CORS ?secret ?next ?rq sample_site = (Answered r, sample_site)"
    by (simp add: CORS_def before_def r_def sample_post_def)
  have "\<exists>a \<in> set (split_char (CHR '','') ''https://a.example, https://b.example'').
      trim_space a \<in> {header_value ?rq ''Origin'', ''*''}" "header_value ?rq ''Origin'' = ''https://b.example''"
    by code_simp+
  then have "http_headers r ''Access-Control-Allow-Origin'' = Some ''https://b.example''"
    using CORS_origin [of ?secret ?next, OF _ _ c] by (simp add: http_error_def)
  with c show ?thesis by blast
qed

end
