(* ===== verification/Site.thy ===== *)
theory Site
  imports Middleware
begin

text \<open>
  \<^verbatim>\<open>src/server.go\<close>: the routes of \<^verbatim>\<open>Start\<close> with their limits, and the middleware around them in the
  order of the calls to \<^verbatim>\<open>r.Use\<close>. Matching a request to its route is the router's
  (\<^verbatim>\<open>gorilla/mux\<close>, not part of the repository): a request comes with its route. Each middleware sees
  its own clock and random bytes, collected in \<open>serve_env\<close>.
\<close>

record serve_env =
  se_id_random :: "string option"
  se_nonce_random :: "string option"
  se_global_clock :: gotime
  se_route_clock :: gotime
  se_fail_clock :: gotime

datatype route =
    CreatePasteRoute | GetPasteRoute | HealthRoute | MetricsRoute | ConfigRoute | InvoiceRoute
  | WebhookRoute | ViewRoute | StaticRoute | PageRoute string

text \<open>The action and the requests per minute of the routes with a limiter of their own.\<close>

fun route_limit :: "route \<Rightarrow> (string \<times> int) option" where
  "route_limit CreatePasteRoute = Some (''create_paste'', 10)"
| "route_limit GetPasteRoute = Some (''get_paste'', 100)"
| "route_limit ConfigRoute = Some (''api_config'', 60)"
| "route_limit InvoiceRoute = Some (''create_invoice'', 10)"
| "route_limit ViewRoute = Some (''view_paste'', 100)"
| "route_limit _ = None"

text \<open>A handler of the application works on its own part of the state.\<close>

type_synonym 'w app_handler = "http_request \<Rightarrow> 'w \<Rightarrow> outcome \<times> 'w"

definition app :: "'w app_handler \<Rightarrow> ('rl, 'w) handler" where
  "app h rq s = (case h rq (site_app s) of (r, w) \<Rightarrow> (r, s\<lparr>site_app := w\<rparr>))"

definition route_handler ::
  "'rl limit_check \<Rightarrow> proxy_config \<Rightarrow> serve_env \<Rightarrow> route \<Rightarrow> 'w app_handler \<Rightarrow> ('rl, 'w) handler" where
  "route_handler check proxy env route h =
     (case route_limit route of
        None \<Rightarrow> app h
      | Some (action, n) \<Rightarrow> RateLimiter check proxy (se_route_clock env) (se_fail_clock env) action n minute (app h))"

definition serve ::
  "'rl limit_check \<Rightarrow> proxy_config \<Rightarrow> (string \<Rightarrow> string) \<Rightarrow> serve_env \<Rightarrow> route \<Rightarrow> 'w app_handler \<Rightarrow> ('rl, 'w) handler" where
  "serve check proxy secret env route h =
     Recovery (Logging (se_id_random env) (GlobalRateLimit check proxy (se_global_clock env) 300
       (RequestSizeLimit (5 * 2 ^ 20) (InputValidation (CORS secret (CSP secret (se_nonce_random env)
         (InjectNonceMiddleware (route_handler check proxy env route h))))))))"

definition servePage :: "string option \<Rightarrow> http_response" where
  "servePage page =
     (case page of
        None \<Rightarrow> http_error ''Page not found'' 404
      | Some content \<Rightarrow> \<lparr>http_status = 200,
          http_headers = [''Content-Type'' \<mapsto> ''text/html; charset=utf-8''], http_body = content\<rparr>)"

text \<open>\<^verbatim>\<open>New\<close> reads the number of deletion workers with \<^verbatim>\<open>strconv.Atoi\<close>.\<close>

definition deletion_workers :: "string \<Rightarrow> int" where
  "deletion_workers s = (case atoi s of Some w \<Rightarrow> if 0 < w then w else 10 | None \<Rightarrow> 10)"

subsection \<open>The rate limiter as an interface\<close>

text \<open>Histories of checks and clean-ups of any limiter, with the limits the site uses for a key.\<close>

fun lim_step :: "'rl limit_check \<Rightarrow> (gotime \<Rightarrow> 'rl \<Rightarrow> 'rl) \<Rightarrow> (string \<Rightarrow> int \<times> duration) \<Rightarrow> rl_op \<Rightarrow> 'rl \<Rightarrow>
    (string + limit_result) option \<times> 'rl" where
  "lim_step check tidy lims (RCheck t k) rl =
     (case check t k (fst (lims k)) (snd (lims k)) rl of (r, rl') \<Rightarrow> (Some r, rl'))"
| "lim_step check tidy lims (RCleanup t) rl = (None, tidy t rl)"

fun lim_run :: "'rl limit_check \<Rightarrow> (gotime \<Rightarrow> 'rl \<Rightarrow> 'rl) \<Rightarrow> (string \<Rightarrow> int \<times> duration) \<Rightarrow> rl_op list \<Rightarrow> 'rl \<Rightarrow> 'rl" where
  "lim_run check tidy lims [] rl = rl"
| "lim_run check tidy lims (x # xs) rl = lim_run check tidy lims xs (snd (lim_step check tidy lims x rl))"

definition is_admitted :: "string + limit_result \<Rightarrow> bool" where
  "is_admitted r = (case r of Inl e \<Rightarrow> False | Inr a \<Rightarrow> lr_allowed a)"

fun lim_admits :: "string \<Rightarrow> rl_op \<Rightarrow> (string + limit_result) option \<Rightarrow> bool" where
  "lim_admits k (RCheck t k') (Some r) = (k = k' \<and> is_admitted r)"
| "lim_admits k _ _ = False"

fun lim_admitted :: "'rl limit_check \<Rightarrow> (gotime \<Rightarrow> 'rl \<Rightarrow> 'rl) \<Rightarrow> (string \<Rightarrow> int \<times> duration) \<Rightarrow> string \<Rightarrow> rl_op list \<Rightarrow> 'rl \<Rightarrow> nat" where
  "lim_admitted check tidy lims k [] rl = 0"
| "lim_admitted check tidy lims k (x # xs) rl =
     (if lim_admits k x (fst (lim_step check tidy lims x rl)) then 1 else 0) +
     lim_admitted check tidy lims k xs (snd (lim_step check tidy lims x rl))"

text \<open>The limits of the keys that the site forms: the part before the first colon is the action.\<close>

definition action_limits :: "(string \<times> int) list" where
  "action_limits = [(''global'', 300), (''create_paste'', 10), (''get_paste'', 100), (''api_config'', 60),
     (''create_invoice'', 10), (''view_paste'', 100)]"

definition site_limits :: "string \<Rightarrow> int \<times> duration" where
  "site_limits key =
     (case map_of action_limits (takeWhile (\<lambda>c. c \<noteq> CHR '':'') key) of Some n \<Rightarrow> (n, minute) | None \<Rightarrow> (1, minute))"

lemma site_limits_global: "site_limits (limit_key ''global'' ip) = (300, minute)"
  by (simp add: site_limits_def limit_key_def action_limits_def)

lemma site_limits_route: "route_limit route = Some (a, n) \<Longrightarrow> site_limits (limit_key a ip) = (n, minute)"
  by (cases route) (auto simp: site_limits_def limit_key_def action_limits_def)

lemma limit_key_inject: "CHR '':'' \<notin> set a \<Longrightarrow> CHR '':'' \<notin> set b \<Longrightarrow> limit_key a ip = limit_key b ip' \<longleftrightarrow> a = b \<and> ip = ip'"
proof
  assume ab: "CHR '':'' \<notin> set a" "CHR '':'' \<notin> set b" and "limit_key a ip = limit_key b ip'"
  then have "split_n2 (CHR '':'') (a @ CHR '':'' # ip) = split_n2 (CHR '':'') (b @ CHR '':'' # ip')"
    by (simp add: limit_key_def)
  then show "a = b \<and> ip = ip'" using ab by (simp add: split_n2_append)
qed simp

lemma route_action: "route_limit route = Some (a, n) \<Longrightarrow> CHR '':'' \<notin> set a \<and> a \<noteq> ''global'' \<and> 0 < n \<and> n \<le> 100"
  by (cases route) auto

lemma route_action_inject:
  "route_limit r1 = Some (a, n) \<Longrightarrow> route_limit r2 = Some (a, m) \<Longrightarrow> r1 = r2"
  by (cases r1; cases r2) auto

subsection \<open>One request\<close>

lemma peer_of_form [simp]:
  "peer_of (parse_form (max_bytes_reader n rq)) = peer_of rq" "peer_of (rq\<lparr>rq_nonce := x\<rparr>) = peer_of rq"
  by (auto simp: peer_of_def parse_form_def max_bytes_reader_def header_value_def fun_eq_iff)

lemma snd_before [simp]: "snd (before hs r) = snd r"
  by (simp add: before_def)

text \<open>The effect of a handler on the state, seen through a middleware: nothing, or what the next one does
  on a request from the same peer.\<close>

definition forwards :: "(('rl, 'w) handler \<Rightarrow> ('rl, 'w) handler) \<Rightarrow> bool" where
  "forwards m \<longleftrightarrow> (\<forall>next rq s. snd (m next rq s) = s \<or>
     (\<exists>rq'. peer_of rq' = peer_of rq \<and> snd (m next rq s) = snd (next rq' s)))"

lemma forwardsI:
  "(\<And>next rq s. snd (m next rq s) = s \<or> snd (m next rq s) = snd (next (f rq) s)) \<Longrightarrow>
   (\<And>rq. peer_of (f rq) = peer_of rq) \<Longrightarrow> forwards m"
  unfolding forwards_def by metis

lemma forwards_size: "forwards (RequestSizeLimit n)"
  by (rule forwardsI [where f = "\<lambda>rq. parse_form (max_bytes_reader n rq)"]) (simp_all add: RequestSizeLimit_def)

lemma forwards_input: "forwards InputValidation"
  by (rule forwardsI [where f = id]) (simp_all add: InputValidation_def split: option.split)

lemma forwards_cors: "forwards (CORS secret)"
  by (rule forwardsI [where f = id]) (simp_all add: CORS_def Let_def)

lemma forwards_csp: "forwards (CSP secret rnd)"
  by (rule forwardsI [where f = "\<lambda>rq. rq\<lparr>rq_nonce := the (generateCSPNonce rnd)\<rparr>"])
    (simp_all add: CSP_def split: option.split)

lemma forwards_nonce: "forwards InjectNonceMiddleware"
  by (rule forwardsI [where f = id]) (simp_all add: InjectNonceMiddleware_def split: prod.split outcome.split)

lemma forwards_comp: "forwards m \<Longrightarrow> forwards m' \<Longrightarrow> forwards (\<lambda>next. m (m' next))"
  unfolding forwards_def by metis

lemma forwardsE:
  assumes "forwards m"
  obtains "snd (m next rq s) = s" | rq' where "peer_of rq' = peer_of rq" "snd (m next rq s) = snd (next rq' s)"
  using assms unfolding forwards_def by metis

lemma forwards_chain:
  "forwards (\<lambda>next. RequestSizeLimit n (InputValidation (CORS secret (CSP secret rnd (InjectNonceMiddleware next)))))"
  by (rule forwards_comp [OF forwards_size forwards_comp [OF forwards_input forwards_comp [OF forwards_cors
        forwards_comp [OF forwards_csp forwards_nonce]]]])

lemma snd_Recovery [simp]: "snd (Recovery next rq s) = snd (next rq s)"
  by (cases "next rq s") (simp add: Recovery_def split: outcome.split)

lemma Logging_state:
  fixes s :: "('rl, 'w) site" and rq :: http_request
  defines "s1 \<equiv> s\<lparr>site_requests := count_up (endpoint_of rq) (site_requests s)\<rparr>"
  shows "site_limiter (snd (Logging rnd next rq s)) = site_limiter (snd (next rq s1))"
    and "site_app (snd (Logging rnd next rq s)) = site_app (snd (next rq s1))"
proof -
  obtain out s2 where n: "next rq s1 = (out, s2)" by fastforce
  have "site_limiter (snd (Logging rnd next rq s)) = site_limiter s2 \<and>
      site_app (snd (Logging rnd next rq s)) = site_app s2"
    unfolding Logging_def Let_def s1_def [symmetric] n by (cases out) simp_all
  then show "site_limiter (snd (Logging rnd next rq s)) = site_limiter (snd (next rq s1))"
    "site_app (snd (Logging rnd next rq s)) = site_app (snd (next rq s1))"
    by (simp_all add: n)
qed

text \<open>What one request does to the limiter and to the application.\<close>

lemma serve_effect:
  fixes check :: "'rl limit_check" and s :: "('rl, 'w) site" and env :: serve_env and ip :: string
    and proxy :: proxy_config and secret :: "string \<Rightarrow> string" and route :: route and h :: "'w app_handler"
    and rq :: http_request
  assumes "GetClientIP (peer_of rq) (Some proxy) = ip"
  defines "g \<equiv> check (se_global_clock env) (limit_key ''global'' ip) 300 minute (site_limiter s)"
  defines "s' \<equiv> snd (serve check proxy secret env route h rq s)"
  obtains (stopped) "site_limiter s' = snd g" "site_app s' = site_app s"
  | (free) rq' where "route_limit route = None" "peer_of rq' = peer_of rq" "site_limiter s' = snd g"
      "site_app s' = snd (h rq' (site_app s))"
  | (limited) a n rq' where "route_limit route = Some (a, n)" "peer_of rq' = peer_of rq"
      "site_limiter s' = snd (check (se_route_clock env) (limit_key a ip) n minute (snd g))"
      "site_app s' = (if is_admitted (fst (check (se_route_clock env) (limit_key a ip) n minute (snd g)))
         then snd (h rq' (site_app s)) else site_app s)"
proof -
  define inner where "inner = (\<lambda>next :: ('rl, 'w) handler. RequestSizeLimit (5 * 2 ^ 20) (InputValidation (CORS secret
    (CSP secret (se_nonce_random env) (InjectNonceMiddleware next)))))"
  define rh where "rh = route_handler check proxy env route h"
  define s1 where "s1 = s\<lparr>site_requests := count_up (endpoint_of rq) (site_requests s)\<rparr>"
  have s1: "site_limiter s1 = site_limiter s" "site_app s1 = site_app s" by (simp_all add: s1_def)
  have eff: "site_limiter s' = site_limiter (snd (GlobalRateLimit check proxy (se_global_clock env) 300 (inner rh) rq s1))"
      "site_app s' = site_app (snd (GlobalRateLimit check proxy (se_global_clock env) 300 (inner rh) rq s1))"
    unfolding s'_def serve_def snd_Recovery Logging_state inner_def rh_def s1_def by (rule refl)+
  define s2 where "s2 = s1\<lparr>site_limiter := snd g\<rparr>"
  have s2: "site_limiter s2 = snd g" "site_app s2 = site_app s" by (simp_all add: s2_def s1)
  have "snd (GlobalRateLimit check proxy (se_global_clock env) 300 (inner rh) rq s1) \<in> {s2, snd (inner rh rq s2)}"
    unfolding GlobalRateLimit_def assms(1) s1(1) g_def [symmetric] s2_def
    by (cases g) (auto split: sum.split)
  moreover have "snd (inner rh rq s2) = s2 \<or>
      (\<exists>rq'. peer_of rq' = peer_of rq \<and> snd (inner rh rq s2) = snd (rh rq' s2))"
    using forwards_chain unfolding inner_def forwards_def by blast
  ultimately consider (no) "site_limiter s' = snd g" "site_app s' = site_app s"
    | (yes) rq' where "peer_of rq' = peer_of rq" "site_limiter s' = site_limiter (snd (rh rq' s2))"
        "site_app s' = site_app (snd (rh rq' s2))"
    using eff s2 by (elim insertE emptyE disjE exE conjE) simp_all
  then show thesis
  proof cases
    case no
    then show ?thesis by (rule stopped)
  next
    case (yes rq')
    show ?thesis
    proof (cases "route_limit route")
      case None
      with yes s2 show ?thesis
        by (intro free [of rq']) (simp_all add: rh_def route_handler_def app_def split: prod.split)
    next
      case (Some an)
      obtain a n where an: "an = (a, n)" by fastforce
      have "GetClientIP (peer_of rq') (Some proxy) = ip" using yes assms(1) by simp
      with yes s2 Some an show ?thesis
        by (intro limited [of a n rq'])
          (simp_all add: rh_def route_handler_def RateLimiter_def app_def is_admitted_def split: prod.split sum.split)
    qed
  qed
qed

subsection \<open>Histories of requests\<close>

text \<open>The handlers' calls are recorded with the address the site attributes them to.\<close>

definition counted :: "route \<Rightarrow> proxy_config \<Rightarrow> 'w app_handler \<Rightarrow> ((route \<times> string) list \<times> 'w) app_handler" where
  "counted route proxy h rq w =
     (case h rq (snd w) of (r, v) \<Rightarrow> (r, (route, GetClientIP (peer_of rq) (Some proxy)) # fst w, v))"

datatype site_event = Hit serve_env route http_request | Tidy gotime

fun site_step ::
  "'rl limit_check \<Rightarrow> (gotime \<Rightarrow> 'rl \<Rightarrow> 'rl) \<Rightarrow> proxy_config \<Rightarrow> (string \<Rightarrow> string) \<Rightarrow> (route \<Rightarrow> 'w app_handler) \<Rightarrow>
     site_event \<Rightarrow> ('rl, (route \<times> string) list \<times> 'w) site \<Rightarrow> ('rl, (route \<times> string) list \<times> 'w) site" where
  "site_step check tidy proxy secret h (Hit env route rq) s =
     snd (serve check proxy secret env route (counted route proxy (h route)) rq s)"
| "site_step check tidy proxy secret h (Tidy t) s = s\<lparr>site_limiter := tidy t (site_limiter s)\<rparr>"

fun site_run ::
  "'rl limit_check \<Rightarrow> (gotime \<Rightarrow> 'rl \<Rightarrow> 'rl) \<Rightarrow> proxy_config \<Rightarrow> (string \<Rightarrow> string) \<Rightarrow> (route \<Rightarrow> 'w app_handler) \<Rightarrow>
     site_event list \<Rightarrow> ('rl, (route \<times> string) list \<times> 'w) site \<Rightarrow> ('rl, (route \<times> string) list \<times> 'w) site" where
  "site_run check tidy proxy secret h [] s = s"
| "site_run check tidy proxy secret h (x # xs) s =
     site_run check tidy proxy secret h xs (site_step check tidy proxy secret h x s)"

text \<open>The clock never runs backwards from one check to the next.\<close>

fun event_end :: "site_event \<Rightarrow> gotime" where
  "event_end (Hit env route rq) = se_route_clock env"
| "event_end (Tidy t) = t"

fun events_from :: "gotime \<Rightarrow> site_event list \<Rightarrow> bool" where
  "events_from t [] = True"
| "events_from t (Hit env route rq # xs) =
     (t \<le> se_global_clock env \<and> se_global_clock env \<le> se_route_clock env \<and> events_from (se_route_clock env) xs)"
| "events_from t (Tidy u # xs) = (t \<le> u \<and> events_from u xs)"

fun events_end :: "gotime \<Rightarrow> site_event list \<Rightarrow> gotime" where
  "events_end t [] = t"
| "events_end t (x # xs) = events_end (event_end x) xs"

text \<open>The checks that one event makes of the limiter, and the calls it adds.\<close>

lemma site_step_ops:
  assumes "route_limit r = Some (a, n)"
  obtains ops where
    "site_limiter (site_step check tidy proxy secret h x s) = lim_run check tidy site_limits ops (site_limiter s)"
    "count_list (fst (site_app (site_step check tidy proxy secret h x s))) (r, ip) =
       count_list (fst (site_app s)) (r, ip) + lim_admitted check tidy site_limits (limit_key a ip) ops (site_limiter s)"
    "events_from t [x] \<Longrightarrow> clock_from t ops \<and> last_time t ops \<le> event_end x"
proof (cases x)
  case (Tidy u)
  then show ?thesis by (intro that [of "[RCleanup u]"]) auto
next
  case (Hit env route rq)
  define c where "c = GetClientIP (peer_of rq) (Some proxy)"
  have a: "a \<noteq> ''global''" "CHR '':'' \<notin> set a" using route_action [OF assms] by auto
  have global: "limit_key a ip \<noteq> limit_key ''global'' c"
    using a limit_key_inject [of a "''global''" ip c] by simp
  note lims = site_limits_global site_limits_route
  note ip = c_def [symmetric]
  show ?thesis
  proof (cases rule: serve_effect [where check = check and env = env and s = s and secret = secret and route = route
      and h = "counted route proxy (h route)", OF ip])
    case 1
    with Hit global show ?thesis
      by (intro that [of "[RCheck (se_global_clock env) (limit_key ''global'' c)]"])
        (auto simp: lims split: prod.split)
  next
    case (2 rq')
    have "route \<noteq> r" using 2(1) assms by auto
    with 2 Hit global show ?thesis
      by (intro that [of "[RCheck (se_global_clock env) (limit_key ''global'' c)]"])
        (auto simp: lims counted_def split: prod.split)
  next
    case (3 b m rq')
    have b: "CHR '':'' \<notin> set b" using route_action [OF 3(1)] by simp
    have key: "limit_key a ip = limit_key b c \<longleftrightarrow> r = route \<and> ip = c"
      using limit_key_inject [OF a(2) b] route_action_inject [OF assms, of route] assms 3(1)
      by (metis option.inject prod.inject)
    have calls: "fst (snd (counted route proxy (h route) rq' w)) = (route, c) # fst w" for w
      using 3(2) c_def by (simp add: counted_def split: prod.split)
    have "route = r \<longrightarrow> b = a" using 3(1) assms by auto
    with 3(3,4) Hit global show ?thesis
      by (intro that [of "[RCheck (se_global_clock env) (limit_key ''global'' c), RCheck (se_route_clock env) (limit_key b c)]"])
        (auto simp: lims site_limits_route [OF 3(1)] calls key split: prod.split)
  qed
qed

text \<open>
  The contract the site relies on: over any history of checks and clean-ups from a fresh limiter on a
  clock that does not run backwards, the requests admitted under a key number at most a bound that
  grows with the elapsed time. What follows holds for every limiter with this contract.
\<close>

locale rate_limiter =
  fixes check :: "'rl limit_check"
    and tidy :: "gotime \<Rightarrow> 'rl \<Rightarrow> 'rl"
    and fresh :: 'rl
    and bound :: "int \<Rightarrow> duration \<Rightarrow> duration \<Rightarrow> rat"
  assumes admitted_bound:
      "0 < n \<Longrightarrow> n \<le> 10 ^ 8 \<Longrightarrow> second \<le> w \<Longrightarrow> w \<le> hour \<Longrightarrow> lims k = (n, w) \<Longrightarrow> clock_from t ops \<Longrightarrow>
       of_nat (lim_admitted check tidy lims k ops fresh) \<le> bound n w (last_time t ops - t)"
    and bound_mono: "0 < n \<Longrightarrow> second \<le> w \<Longrightarrow> 0 \<le> d \<Longrightarrow> d \<le> d' \<Longrightarrow> bound n w d \<le> bound n w d'"
begin

lemma lim_run_append: "lim_run check tidy lims (xs @ ys) rl = lim_run check tidy lims ys (lim_run check tidy lims xs rl)"
  by (induction xs arbitrary: rl) simp_all

lemma lim_admitted_append:
  "lim_admitted check tidy lims k (xs @ ys) rl =
     lim_admitted check tidy lims k xs rl + lim_admitted check tidy lims k ys (lim_run check tidy lims xs rl)"
  by (induction xs arbitrary: rl) simp_all

lemma clock_from_append: "clock_from t (xs @ ys) \<longleftrightarrow> clock_from t xs \<and> clock_from (last_time t xs) ys"
  by (induction xs arbitrary: t) auto

lemma last_time_append: "last_time t (xs @ ys) = last_time (last_time t xs) ys"
  by (induction xs arbitrary: t) simp_all

lemma clock_from_later: "clock_from t xs \<Longrightarrow> u \<le> t \<Longrightarrow> clock_from u xs"
  by (cases xs) auto

lemma last_time_later: "last_time u xs \<le> max u (last_time t xs)"
  by (cases xs) auto

lemma events_from_Cons: "events_from t (x # xs) \<longleftrightarrow> events_from t [x] \<and> events_from (event_end x) xs"
  by (cases x) auto

lemma events_end_mono: "events_from t xs \<Longrightarrow> t \<le> events_end t xs"
proof (induction xs arbitrary: t)
  case (Cons x xs)
  then have "event_end x \<le> events_end (event_end x) xs" "t \<le> event_end x"
    using events_from_Cons [of t x xs] by (cases x; auto)+
  then show ?case by simp
qed simp

lemma site_run_ops:
  assumes "route_limit r = Some (a, n)"
  shows "events_from t xs \<Longrightarrow>
    \<exists>ops. count_list (fst (site_app (site_run check tidy proxy secret h xs s))) (r, ip) =
        count_list (fst (site_app s)) (r, ip) + lim_admitted check tidy site_limits (limit_key a ip) ops (site_limiter s) \<and>
      clock_from t ops \<and> last_time t ops \<le> events_end t xs"
proof (induction xs arbitrary: s t)
  case Nil
  then show ?case by (intro exI [of _ "[]"]) simp
next
  case (Cons x xs)
  define s1 where "s1 = site_step check tidy proxy secret h x s"
  have ev: "events_from t [x]" "events_from (event_end x) xs" using Cons.prems events_from_Cons [of t x xs] by blast+
  obtain ops where ops: "site_limiter s1 = lim_run check tidy site_limits ops (site_limiter s)"
    "count_list (fst (site_app s1)) (r, ip) =
       count_list (fst (site_app s)) (r, ip) + lim_admitted check tidy site_limits (limit_key a ip) ops (site_limiter s)"
    "clock_from t ops" "last_time t ops \<le> event_end x"
    unfolding s1_def by (rule site_step_ops [OF assms]) (use ev(1) in blast)
  obtain ops' where ops': "count_list (fst (site_app (site_run check tidy proxy secret h xs s1))) (r, ip) =
        count_list (fst (site_app s1)) (r, ip) + lim_admitted check tidy site_limits (limit_key a ip) ops' (site_limiter s1)"
      "clock_from (event_end x) ops'" "last_time (event_end x) ops' \<le> events_end (event_end x) xs"
    using Cons.IH [OF ev(2)] by blast
  have "clock_from t (ops @ ops')" "last_time t (ops @ ops') \<le> events_end t (x # xs)"
    using ops(3,4) ops'(2,3) clock_from_later [OF ops'(2) ops(4)] last_time_later [of "last_time t ops" ops' "event_end x"]
      events_end_mono [OF ev(2)]
    by (auto simp: clock_from_append last_time_append)
  then show ?case
    using ops(1,2) ops'(1) by (intro exI [of _ "ops @ ops'"]) (simp add: s1_def lim_admitted_append)
qed

text \<open>No client gets more calls out of a limited route than the limiter's bound.\<close>

lemma route_calls_bound:
  assumes "route_limit r = Some (a, n)" "events_from t xs" "site_limiter s = fresh" "fst (site_app s) = []"
  shows "of_nat (count_list (fst (site_app (site_run check tidy proxy secret h xs s))) (r, ip)) \<le>
    bound n minute (events_end t xs - t)"
proof -
  obtain ops where ops: "count_list (fst (site_app (site_run check tidy proxy secret h xs s))) (r, ip) =
      lim_admitted check tidy site_limits (limit_key a ip) ops fresh"
    "clock_from t ops" "last_time t ops \<le> events_end t xs"
    using site_run_ops [OF assms(1,2), of proxy secret h s ip] assms(3,4) by auto
  have n: "0 < n" "n \<le> 10 ^ 8" using route_action [OF assms(1)] by auto
  have "of_nat (lim_admitted check tidy site_limits (limit_key a ip) ops fresh) \<le> bound n minute (last_time t ops - t)"
    by (rule admitted_bound [where lims = site_limits and k = "limit_key a ip"])
       (use n ops(2) in \<open>simp_all add: time_units site_limits_route [OF assms(1)]\<close>)
  also have "\<dots> \<le> bound n minute (events_end t xs - t)"
    by (rule bound_mono [OF n(1)]) (use ops(3) last_time_mono [OF ops(2)] in \<open>simp_all add: time_units\<close>)
  finally show ?thesis unfolding ops(1) .
qed

end

subsection \<open>The in-memory limiter keeps the contract\<close>

text \<open>\<^const>\<open>CheckRateLimit\<close> has no error of its own; where Go leaves its arithmetic undefined the model
  has no answer, which counts as an error here and does not occur for the site's limits.\<close>

definition memory_check :: "buckets limit_check" where
  "memory_check t k n w bs =
     (case CheckRateLimit t k n w bs of None \<Rightarrow> (Inl ''no result'', bs) | Some (r, bs') \<Rightarrow> (Inr r, bs'))"

definition token_bound :: "int \<Rightarrow> duration \<Rightarrow> duration \<Rightarrow> rat" where
  "token_bound n w d = of_int n + of_int d * (of_int n / of_int w) * (1 + 1 / 2 ^ 50)"

lemma memory_admitted: "lim_admitted memory_check cleanup lims k ops bs = rl_admitted lims k ops bs"
proof (induction ops arbitrary: bs)
  case (Cons x ops)
  show ?case
  proof (cases x)
    case (RCheck t k')
    then show ?thesis
      using Cons by (cases "CheckRateLimit t k' (fst (lims k')) (snd (lims k')) bs")
        (auto simp: memory_check_def is_admitted_def)
  qed (use Cons in simp)
qed simp

interpretation memory: rate_limiter memory_check cleanup Map.empty token_bound
proof unfold_locales
  fix n :: int and w :: duration and lims :: "string \<Rightarrow> int \<times> duration" and k t ops
  assume "0 < n" "n \<le> 10 ^ 8" "second \<le> w" "w \<le> hour" "lims k = (n, w)" "clock_from t ops"
  then show "of_nat (lim_admitted memory_check cleanup lims k ops Map.empty) \<le> token_bound n w (last_time t ops - t)"
    using rate_limit_bound_lemma [of lims k t ops]
    by (simp add: memory_admitted token_bound_def limits_ok_def time_units)
next
  fix n :: int and w d d' :: duration
  assume a: "0 < n" "second \<le> w" "0 \<le> d" "d \<le> d'"
  have "0 \<le> (of_int n / of_int w :: rat)" using a(1,2) by (simp add: time_units)
  then have "(of_int d :: rat) * (of_int n / of_int w) \<le> of_int d' * (of_int n / of_int w)"
    using a(4) by (intro mult_right_mono) (simp only: of_int_le_iff)
  then have "of_int d * (of_int n / of_int w) * (1 + 1 / 2 ^ 50) \<le> of_int d' * (of_int n / of_int w) * (1 + 1 / 2 ^ 50 :: rat)"
    by (rule mult_right_mono) simp
  then show "token_bound n w d \<le> token_bound n w d'"
    unfolding token_bound_def by (rule add_left_mono)
qed

text \<open>C23: The limits of the routes hold end to end. With the in-memory limiter, over any history of requests to
  any routes by any clients, with any handlers behind the middleware and clean-ups in between, the
  handler of a limited route is called on behalf of one client address at most as often as the
  route's limit per minute allows for the elapsed time: \<open>n\<close> calls at once and \<open>n\<close> per minute after
  that. The address is the one \<^verbatim>\<open>GetClientIP\<close> derives, so no header of an untrusted peer gets around it.\<close>

theorem route_calls_limited:
  assumes "route_limit r = Some (a, n)" "events_from t xs"
    and "site_limiter s = Map.empty" "fst (site_app s) = []"
  shows "of_nat (count_list (fst (site_app (site_run memory_check cleanup proxy secret h xs s))) (r, ip)) \<le>
    (of_int n + of_int (events_end t xs - t) * (of_int n / of_int minute) * (1 + 1 / 2 ^ 50) :: rat)"
  using memory.route_calls_bound [OF assms] by (simp only: token_bound_def)

definition sample_env :: "gotime \<Rightarrow> serve_env" where
  "sample_env t = \<lparr>se_id_random = None, se_nonce_random = Some (replicate 16 CHR 7), se_global_clock = t,
     se_route_clock = t, se_fail_clock = t\<rparr>"

theorem route_calls_limited_witness:
  "of_nat (count_list (fst (site_app (site_run memory_check cleanup disabled_proxies (\<lambda>_. [])
       (\<lambda>_ rq w. (Answered (http_error ''x'' 404), w))
       [Hit (sample_env 5) CreatePasteRoute (sample_post ''text/plain''), Tidy 7,
        Hit (sample_env 1000000005) CreatePasteRoute (sample_post ''text/plain'')]
       \<lparr>site_limiter = Map.empty, site_requests = Map.empty, site_errors = Map.empty, site_app = ([], ())\<rparr>)))
     (CreatePasteRoute, ''203.0.113.9''))
   \<le> (10 + 1000000000 * (10 / 60000000000) * (1 + 1 / 2 ^ 50) :: rat)"
  using route_calls_limited [of CreatePasteRoute "''create_paste''" 10 5
      "[Hit (sample_env 5) CreatePasteRoute (sample_post ''text/plain''), Tidy 7,
        Hit (sample_env 1000000005) CreatePasteRoute (sample_post ''text/plain'')]"
      "\<lparr>site_limiter = Map.empty, site_requests = Map.empty, site_errors = Map.empty, site_app = ([], ())\<rparr>"
      disabled_proxies "\<lambda>_. []" "\<lambda>_ rq w. (Answered (http_error ''x'' 404), w)" "''203.0.113.9''"]
  by (simp add: sample_env_def time_units del: site_run.simps)

subsection \<open>Request identifiers\<close>

text \<open>The headers of an answer, or those a handler had set when it panicked.\<close>

fun outcome_headers :: "outcome \<Rightarrow> string \<rightharpoonup> string" where
  "outcome_headers (Answered r) = http_headers r"
| "outcome_headers (Panicked hs) = hs"

lemma headers_before [simp]: "outcome_headers (fst (before hs x)) = hs ++ outcome_headers (fst x)"
  by (cases "fst x") (simp_all add: before_def)

text \<open>A handler that leaves the request identifier to the middleware.\<close>

definition leaves_id :: "('rl, 'w) handler \<Rightarrow> bool" where
  "leaves_id next \<longleftrightarrow> (\<forall>rq s. outcome_headers (fst (next rq s)) ''X-Request-Id'' = None)"

lemma leaves_idD: "leaves_id next \<Longrightarrow> outcome_headers (fst (next rq s)) ''X-Request-Id'' = None"
  by (simp add: leaves_id_def)

lemma input_error_text: "input_error rq = Some r \<Longrightarrow> r \<in> range (case_prod http_error)"
proof -
  assume e: "input_error rq = Some r"
  have err: "http_error m st \<in> range (case_prod http_error)" for m st by (metis case_prod_conv rangeI)
  have "x \<in> range (case_prod http_error)" if "first_error header_error hs = Some x" for hs x
    using first_error_Some [OF that]
    by (auto simp: header_error_def header_value_error_def err split: if_splits dest!: first_error_Some)
  moreover have "x \<in> range (case_prod http_error)" if "first_error var_error vs = Some x" for vs x
    using first_error_Some [OF that] by (auto simp: var_error_def err split: if_splits)
  moreover have "x \<in> range (case_prod http_error)" if "first_error query_error qs = Some x" for qs x
    using first_error_Some [OF that] by (auto simp: query_error_def err split: if_splits)
  ultimately show ?thesis
    using e err unfolding input_error_def by (auto split: if_splits option.splits)
qed

lemma leaves_id_layers:
  assumes "leaves_id next"
  shows "leaves_id (RateLimiter check proxy t t' action limit window next)"
    and "leaves_id (GlobalRateLimit check proxy t n next)"
    and "leaves_id (RequestSizeLimit m next)"
    and "leaves_id (InputValidation next)"
    and "leaves_id (CORS secret next)"
    and "leaves_id (CSP secret random next)"
    and "leaves_id (InjectNonceMiddleware next)"
proof -
  note d = leaves_idD [OF assms]
  have e: "http_headers (http_error m st) ''X-Request-Id'' = None" for m st by (simp add: http_error_def)
  have l: "limit_headers n r u ''X-Request-Id'' = None" "retry_header x ''X-Request-Id'' = None" for n r u x
    by (simp_all add: limit_headers_def retry_header_def)
  show "leaves_id (RateLimiter check proxy t t' action limit window next)"
    unfolding leaves_id_def by (auto simp: RateLimiter_def map_add_def d e l split: prod.split sum.split)
  show "leaves_id (GlobalRateLimit check proxy t n next)"
    unfolding leaves_id_def by (auto simp: GlobalRateLimit_def map_add_def d e l split: prod.split sum.split)
  show "leaves_id (RequestSizeLimit m next)"
    unfolding leaves_id_def by (simp add: RequestSizeLimit_def d)
  have "http_headers r ''X-Request-Id'' = None" if "input_error rq = Some r" for rq r
    using input_error_text [OF that] e by auto
  then show "leaves_id (InputValidation next)"
    unfolding leaves_id_def by (auto simp: InputValidation_def d split: option.split)
  show "leaves_id (CORS secret next)"
    unfolding leaves_id_def by (auto simp: CORS_def cors_headers_def map_add_def Let_def d)
  show "leaves_id (CSP secret random next)"
    unfolding leaves_id_def by (auto simp: CSP_def security_headers_def map_add_def d e split: option.split)
  have "outcome_headers (fst (InjectNonceMiddleware next rq s)) = outcome_headers (fst (next rq s))" for rq s
    by (simp add: InjectNonceMiddleware_def split: prod.split outcome.split)
  then show "leaves_id (InjectNonceMiddleware next)" unfolding leaves_id_def by (simp add: d)
qed

lemma request_id_fresh:
  assumes "\<forall>rnd. random = Some rnd \<longrightarrow> length rnd = 32"
  shows "if header_value rq ''X-Request-ID'' \<noteq> [] then request_id random rq = header_value rq ''X-Request-ID''
    else case random of None \<Rightarrow> request_id random rq = []
      | Some rnd \<Rightarrow> length (request_id random rq) = 43 \<and> id_pattern (request_id random rq) \<and>
          b64_decode RawURLEncoding (request_id random rq) = Some rnd"
  using assms GenerateID_pattern by (auto simp: request_id_def GenerateID_def id_pattern_def b64_roundtrip split: option.split)

lemma leaves_id_route:
  "\<forall>rq w. outcome_headers (fst (h rq w)) ''X-Request-Id'' = None \<Longrightarrow> leaves_id (route_handler check proxy env route h)"
proof -
  assume "\<forall>rq w. outcome_headers (fst (h rq w)) ''X-Request-Id'' = None"
  then have "leaves_id (app h)" unfolding leaves_id_def by (simp add: app_def split: prod.split) (metis fst_conv)
  then show ?thesis
    unfolding route_handler_def by (cases "route_limit route") (auto intro: leaves_id_layers)
qed

lemma Logging_headers:
  "\<exists>s'. outcome_headers (fst (Logging rnd next rq s)) =
     [''X-Request-Id'' \<mapsto> request_id rnd rq] ++ outcome_headers (fst (next rq s'))"
proof -
  let ?s = "s\<lparr>site_requests := count_up (endpoint_of rq) (site_requests s)\<rparr>"
  have "outcome_headers (fst (Logging rnd next rq s)) =
      [''X-Request-Id'' \<mapsto> request_id rnd rq] ++ outcome_headers (fst (next rq ?s))"
    by (simp add: Logging_def Let_def log_context_of_def split: prod.split outcome.split)
  then show ?thesis by blast
qed

lemma Recovery_answers: "\<exists>r s'. Recovery next rq s = (Answered r, s') \<and>
    (\<forall>i. outcome_headers (fst (next rq s)) ''X-Request-Id'' = Some i \<longrightarrow> http_headers r ''X-Request-Id'' = Some i)"
proof -
  obtain out s' where o: "next rq s = (out, s')" by fastforce
  show ?thesis
    by (cases out) (simp_all add: Recovery_def o before_def http_error_def map_add_def)
qed

text \<open>C24: Every request is answered and can be told from others. Whatever the handlers and the limiter do, a panic of
  a handler included, the server answers and the response carries a request identifier. When the handler of the
  route leaves that header alone, it is the one the client sent, or else a fresh one: an identifier of the 43
  characters of the URL alphabet that encodes all 32 random bytes. It is empty only when the client sent none
  and there were no random bytes to be had.\<close>

theorem serve_answers:
  assumes "\<forall>rnd. se_id_random env = Some rnd \<longrightarrow> length rnd = 32"
  shows "\<exists>r s' i. serve check proxy secret env route h rq s = (Answered r, s') \<and> http_headers r ''X-Request-Id'' = Some i \<and>
    ((\<forall>rq w. outcome_headers (fst (h rq w)) ''X-Request-Id'' = None) \<longrightarrow>
      (if header_value rq ''X-Request-ID'' \<noteq> [] then i = header_value rq ''X-Request-ID''
       else case se_id_random env of None \<Rightarrow> i = []
         | Some rnd \<Rightarrow> length i = 43 \<and> id_pattern i \<and> b64_decode RawURLEncoding i = Some rnd))"
proof -
  define nx where "nx = GlobalRateLimit check proxy (se_global_clock env) 300
       (RequestSizeLimit (5 * 2 ^ 20) (InputValidation (CORS secret (CSP secret (se_nonce_random env)
         (InjectNonceMiddleware (route_handler check proxy env route h))))))"
  have serve: "serve check proxy secret env route h = Recovery (Logging (se_id_random env) nx)"
    by (simp add: serve_def nx_def)
  obtain s1 where l: "outcome_headers (fst (Logging (se_id_random env) nx rq s)) =
      [''X-Request-Id'' \<mapsto> request_id (se_id_random env) rq] ++ outcome_headers (fst (nx rq s1))"
    using Logging_headers by blast
  then obtain i where i: "outcome_headers (fst (Logging (se_id_random env) nx rq s)) ''X-Request-Id'' = Some i"
    "leaves_id nx \<longrightarrow> i = request_id (se_id_random env) rq"
    using leaves_idD [of nx rq s1]
    by (cases "outcome_headers (fst (nx rq s1)) ''X-Request-Id''") (auto simp: map_add_def)
  obtain r s' where r: "Recovery (Logging (se_id_random env) nx) rq s = (Answered r, s')"
    "http_headers r ''X-Request-Id'' = Some i"
    using Recovery_answers i(1) by blast
  have "leaves_id nx" if "\<forall>rq w. outcome_headers (fst (h rq w)) ''X-Request-Id'' = None"
    unfolding nx_def using that by (intro leaves_id_layers leaves_id_route)
  then show ?thesis
    using r serve i(2) request_id_fresh [OF assms, of rq] by metis
qed

theorem serve_answers_witness:
  "\<exists>r s' i. serve memory_check disabled_proxies (\<lambda>_. []) \<lparr>se_id_random = Some (replicate 32 CHR 7),
       se_nonce_random = Some (replicate 16 CHR 7), se_global_clock = 5, se_route_clock = 5, se_fail_clock = 5\<rparr> HealthRoute
       (\<lambda>_ w. (Panicked Map.empty, w)) (sample_post ''text/plain'')
       \<lparr>site_limiter = Map.empty, site_requests = Map.empty, site_errors = Map.empty, site_app = ()\<rparr> = (Answered r, s') \<and>
     http_headers r ''X-Request-Id'' = Some i \<and> b64_decode RawURLEncoding i = Some (replicate 32 CHR 7)"
proof -
  let ?env = "\<lparr>se_id_random = Some (replicate 32 CHR 7), se_nonce_random = Some (replicate 16 CHR 7),
    se_global_clock = 5, se_route_clock = 5, se_fail_clock = 5\<rparr>"
  have "header_value (sample_post ''text/plain'') ''X-Request-ID'' = []" by code_simp
  then show ?thesis
    using serve_answers [of ?env memory_check disabled_proxies "\<lambda>_. []" HealthRoute "\<lambda>_ w. (Panicked Map.empty, w)"
        "sample_post ''text/plain''"
        "\<lparr>site_limiter = Map.empty, site_requests = Map.empty, site_errors = Map.empty, site_app = ()\<rparr>"]
    by auto
qed

end
