(* ===== verification/Timeparse.thy ===== *)
theory Timeparse
  imports Gotime "HOL-Library.Monad_Syntax"
begin

text \<open>
  \<^verbatim>\<open>time.Parse(time.RFC3339, s)\<close>, and the JSON form of a time with its offset from UTC in seconds. The hour
  may have one digit, a fraction of the second may follow a period or a comma, and offsets up to
  24:60 are accepted, as in package \<^verbatim>\<open>time\<close>.
\<close>

definition leap_year :: "int \<Rightarrow> bool" where
  "leap_year y \<longleftrightarrow> y mod 4 = 0 \<and> (y mod 100 \<noteq> 0 \<or> y mod 400 = 0)"

definition days_in :: "int \<Rightarrow> int \<Rightarrow> int" where
  "days_in m y = (if m = 2 then (if leap_year y then 29 else 28) else if m \<in> {4, 6, 9, 11} then 30 else 31)"

definition day_of_civil :: "int \<Rightarrow> int \<Rightarrow> int \<Rightarrow> int" where
  "day_of_civil y m d =
     (let y1 = (if m \<le> 2 then y - 1 else y); era = y1 div 400; yoe = y1 mod 400;
          doy = (153 * (if m > 2 then m - 3 else m + 9) + 2) div 5 + d - 1;
          doe = yoe * 365 + yoe div 4 - yoe div 100 + doy
      in era * 146097 + doe - 719468)"

text \<open>\<^verbatim>\<open>getnum\<close>: two digits, or one when the field is not fixed.\<close>

fun getnum :: "bool \<Rightarrow> string \<Rightarrow> (int \<times> string) option" where
  "getnum fixed (a # b # s) =
     (if \<not> is_digit a then None
      else if \<not> is_digit b then (if fixed then None else Some (int (byte a - 48), b # s))
      else Some (int (10 * (byte a - 48) + (byte b - 48)), s))"
| "getnum fixed [a] = (if is_digit a \<and> \<not> fixed then Some (int (byte a - 48), []) else None)"
| "getnum fixed [] = None"

definition ranged :: "int \<Rightarrow> int \<Rightarrow> (int \<times> string) option \<Rightarrow> (int \<times> string) option" where
  "ranged lo hi r = (case r of Some (n, s) \<Rightarrow> if lo \<le> n \<and> n \<le> hi then Some (n, s) else None | None \<Rightarrow> None)"

fun expect :: "char \<Rightarrow> string \<Rightarrow> string option" where
  "expect c (x # s) = (if x = c then Some s else None)"
| "expect c [] = None"

definition parse_year :: "string \<Rightarrow> (int \<times> string) option" where
  "parse_year s =
     (if 4 \<le> length s \<and> list_all is_digit (take 4 s) then Some (int (digits_value (take 4 s) 0), drop 4 s) else None)"

text \<open>At most nine digits of a fraction count.\<close>

definition parse_fraction :: "string \<Rightarrow> int \<times> string" where
  "parse_fraction s =
     (case s of
        p # q # t \<Rightarrow>
          if (p = CHR ''.'' \<or> p = CHR '','') \<and> is_digit q
          then (let ds = takeWhile is_digit (q # t); k = take 9 ds
                in (int (digits_value k 0) * 10 ^ (9 - length k), dropWhile is_digit (q # t)))
          else (0, s)
      | _ \<Rightarrow> (0, s))"

definition parse_offset :: "string \<Rightarrow> (int \<times> string) option" where
  "parse_offset s =
     (if has_prefix s ''Z'' then Some (0, tl s)
      else case s of
        sign # h1 # h2 # c # m1 # m2 # t \<Rightarrow>
          if c \<noteq> CHR '':'' then None
          else do {
            (h, x) \<leftarrow> ranged 0 24 (getnum True [h1, h2]);
            (m, y) \<leftarrow> ranged 0 60 (getnum True [m1, m2]);
            (if sign = CHR ''+'' then Some ((h * 60 + m) * 60, t)
             else if sign = CHR ''-'' then Some (- ((h * 60 + m) * 60), t) else None)
          }
      | _ \<Rightarrow> None)"

definition parse_rfc3339 :: "string \<Rightarrow> (gotime \<times> int) option" where
  "parse_rfc3339 s0 = do {
     (y, s1) \<leftarrow> parse_year s0;
     s2 \<leftarrow> expect (CHR ''-'') s1;
     (mo, s3) \<leftarrow> ranged 1 12 (getnum True s2);
     s4 \<leftarrow> expect (CHR ''-'') s3;
     (d, s5) \<leftarrow> getnum True s4;
     s6 \<leftarrow> expect (CHR ''T'') s5;
     (h, s7) \<leftarrow> ranged 0 23 (getnum False s6);
     s8 \<leftarrow> expect (CHR '':'') s7;
     (mi, s9) \<leftarrow> ranged 0 59 (getnum True s8);
     s10 \<leftarrow> expect (CHR '':'') s9;
     (se, s11) \<leftarrow> ranged 0 59 (getnum True s10);
     let (ns, s12) = parse_fraction s11;
     (off, s13) \<leftarrow> parse_offset s12;
     (if s13 \<noteq> [] \<or> d < 1 \<or> d > days_in mo y then None
      else Some ((day_of_civil y mo d * 86400 + h * 3600 + mi * 60 + se - off) * second + ns, off))
   }"

text \<open>\<^verbatim>\<open>MarshalJSON\<close> of a time in a zone: the local date, and the offset in minutes, \<^verbatim>\<open>Z\<close> for none.\<close>

definition offset_text :: "int \<Rightarrow> string" where
  "offset_text off =
     (if off = 0 then ''Z''
      else (let m = \<bar>off\<bar> div 60 in
            (if off < 0 \<and> m \<noteq> 0 then ''-'' else ''+'') @ pad_digits 2 (m div 60) @ '':'' @ pad_digits 2 (m mod 60)))"

definition zoned_marshal_json :: "gotime \<times> int \<Rightarrow> string option" where
  "zoned_marshal_json z =
     (let t = fst z + snd z * second in
      if 0 \<le> year_of t \<and> year_of t \<le> 9999 \<and> \<bar>snd z\<bar> div 3600 < 24
      then Some (CHR 34 # date_clock t @ (if nanos t = 0 then [] else CHR ''.'' # trim_zeros (pad_digits 9 (nanos t)))
        @ offset_text (snd z) @ [CHR 34])
      else None)"

lemma zoned_marshal_utc: "zoned_marshal_json (t, 0) = time_marshal_json t"
  by (simp add: zoned_marshal_json_def time_marshal_json_def format_rfc3339_nano_def offset_text_def Let_def)

end
