(* ===== verification/Invoice.thy ===== *)
theory Invoice
  imports Handlers Timeparse
begin

text \<open>
  Payments: \<^verbatim>\<open>src/handlers_invoice.go\<close>, the client of the payment server in \<^verbatim>\<open>src/services/btcpay.go\<close> and the
  messages of \<^verbatim>\<open>src/models/invoice.go\<close>. The payment server itself is an argument: what it answers to a
  request. A handler takes the invoice service as the functions of its interface.
\<close>

subsection \<open>Messages\<close>

record create_invoice_response =
  ci_invoice_id :: string
  ci_checkout_url :: string
  ci_status :: string
  ci_expires_at :: "gotime \<times> int" \<comment> \<open>with the offset of its zone\<close>
  ci_amount :: "bool \<times> rat" \<comment> \<open>sign and magnitude of a \<^verbatim>\<open>float64\<close>\<close>
  ci_currency :: string

record webhook_event =
  we_type :: string
  we_delivery_id :: string
  we_webhook_id :: string
  we_is_redelivery :: bool
  we_invoice_id :: string
  we_store_id :: string
  we_timestamp :: int
  we_metadata :: "(string \<times> json) list option"

subsection \<open>Decoding\<close>

text \<open>A \<^verbatim>\<open>float64\<close> field, and a map, which is extended when it is there already.\<close>

definition float_field :: "json \<Rightarrow> bool \<times> rat \<Rightarrow> (bool \<times> rat) option" where
  "float_field v old =
     (case v of
        JNum s \<Rightarrow> if number_in_range s then Some (has_prefix s ''-'', round64 (literal_magnitude s)) else None
      | JNull \<Rightarrow> Some old
      | _ \<Rightarrow> None)"

definition signed :: "bool \<times> rat \<Rightarrow> rat" where
  "signed f = (if fst f then - snd f else snd f)"

definition map_put :: "string \<Rightarrow> json \<Rightarrow> (string \<times> json) list \<Rightarrow> (string \<times> json) list" where
  "map_put k v m = filter (\<lambda>p. fst p \<noteq> k) m @ [(k, v)]"

definition map_field ::
  "json \<Rightarrow> (string \<times> json) list option \<Rightarrow> (string \<times> json) list option option" where
  "map_field v old =
     (case v of
        JNull \<Rightarrow> Some None
      | JObj m \<Rightarrow>
          if numbers_in_range v
          then Some (Some (fold (\<lambda>(k, x). map_put k (json_numbers (json_go x))) m
                 (case old of None \<Rightarrow> [] | Some prev \<Rightarrow> prev)))
          else None
      | _ \<Rightarrow> None)"

definition empty_invoice_request :: create_invoice_request where
  "empty_invoice_request = \<lparr>inv_amount = 0, inv_currency = [], inv_order_id = [], inv_buyer_email = [],
     inv_metadata = None, inv_expiration_minutes = 0\<rparr>"

definition set_invoice_field :: "string \<times> json \<Rightarrow> create_invoice_request \<Rightarrow> create_invoice_request option" where
  "set_invoice_field kv r =
     (let k = fst kv; v = snd kv in
      if names_field k ''amount''
      then map_option (\<lambda>f. r\<lparr>inv_amount := signed f\<rparr>) (float_field v (False, inv_amount r))
      else if names_field k ''currency'' then map_option (\<lambda>s. r\<lparr>inv_currency := s\<rparr>) (string_field v (inv_currency r))
      else if names_field k ''order_id'' then map_option (\<lambda>s. r\<lparr>inv_order_id := s\<rparr>) (string_field v (inv_order_id r))
      else if names_field k ''buyer_email''
      then map_option (\<lambda>s. r\<lparr>inv_buyer_email := s\<rparr>) (string_field v (inv_buyer_email r))
      else if names_field k ''metadata'' then map_option (\<lambda>m. r\<lparr>inv_metadata := m\<rparr>) (map_field v (inv_metadata r))
      else if names_field k ''expiration_minutes''
      then map_option (\<lambda>n. r\<lparr>inv_expiration_minutes := n\<rparr>) (int_field v (inv_expiration_minutes r))
      else None)"

fun set_fields :: "(string \<times> json \<Rightarrow> 'r \<Rightarrow> 'r option) \<Rightarrow> (string \<times> json) list \<Rightarrow> 'r \<Rightarrow> 'r option" where
  "set_fields f [] r = Some r"
| "set_fields f (kv # m) r = (case f kv r of None \<Rightarrow> None | Some r' \<Rightarrow> set_fields f m r')"

definition decode_invoice_request :: "string \<Rightarrow> create_invoice_request option" where
  "decode_invoice_request s =
     (case body_members s of None \<Rightarrow> None | Some m \<Rightarrow> set_fields set_invoice_field m empty_invoice_request)"

text \<open>\<^verbatim>\<open>json.Unmarshal\<close> into a struct: the whole text is one value, and unknown members are ignored.\<close>

definition unmarshal_struct :: "(string \<times> json \<Rightarrow> 'r \<Rightarrow> 'r option) \<Rightarrow> 'r \<Rightarrow> string \<Rightarrow> 'r option" where
  "unmarshal_struct f zero s =
     (case json_parse s of
        Some (JObj m) \<Rightarrow> set_fields f m zero
      | Some JNull \<Rightarrow> Some zero
      | _ \<Rightarrow> None)"

definition set_event_field :: "string \<times> json \<Rightarrow> webhook_event \<Rightarrow> webhook_event option" where
  "set_event_field kv r =
     (let k = fst kv; v = snd kv in
      if names_field k ''type'' then map_option (\<lambda>s. r\<lparr>we_type := s\<rparr>) (string_field v (we_type r))
      else if names_field k ''deliveryId'' then map_option (\<lambda>s. r\<lparr>we_delivery_id := s\<rparr>) (string_field v (we_delivery_id r))
      else if names_field k ''webhookId'' then map_option (\<lambda>s. r\<lparr>we_webhook_id := s\<rparr>) (string_field v (we_webhook_id r))
      else if names_field k ''isRedelivery''
      then map_option (\<lambda>b. r\<lparr>we_is_redelivery := b\<rparr>) (bool_field v (we_is_redelivery r))
      else if names_field k ''invoiceId'' then map_option (\<lambda>s. r\<lparr>we_invoice_id := s\<rparr>) (string_field v (we_invoice_id r))
      else if names_field k ''storeId'' then map_option (\<lambda>s. r\<lparr>we_store_id := s\<rparr>) (string_field v (we_store_id r))
      else if names_field k ''timestamp'' then map_option (\<lambda>n. r\<lparr>we_timestamp := n\<rparr>) (int_field v (we_timestamp r))
      else if names_field k ''metadata'' then map_option (\<lambda>m. r\<lparr>we_metadata := m\<rparr>) (map_field v (we_metadata r))
      else Some r)"

definition empty_event :: webhook_event where
  "empty_event = \<lparr>we_type = [], we_delivery_id = [], we_webhook_id = [], we_is_redelivery = False,
     we_invoice_id = [], we_store_id = [], we_timestamp = 0, we_metadata = None\<rparr>"

definition decode_event :: "string \<Rightarrow> webhook_event option" where
  "decode_event = unmarshal_struct set_event_field empty_event"

subsection \<open>The client of the payment server\<close>

record btcpay_client =
  bc_endpoint :: string
  bc_store_id :: string
  bc_api_key :: string
  bc_webhook_secret :: string

definition trim_slashes :: "string \<Rightarrow> string" where
  "trim_slashes s = rev (dropWhile (\<lambda>c. c = CHR ''/'') (rev s))"

definition NewBTCPayClient :: "string \<Rightarrow> string \<Rightarrow> string \<Rightarrow> string \<Rightarrow> string + btcpay_client" where
  "NewBTCPayClient endpoint apiKey storeID webhookSecret =
     (if endpoint = [] \<or> apiKey = [] \<or> storeID = [] then Inl ''btcpay configuration incomplete''
      else if webhookSecret = [] then Inl ''btcpay webhook secret is required''
      else Inr \<lparr>bc_endpoint = trim_slashes endpoint, bc_store_id = storeID, bc_api_key = apiKey,
                bc_webhook_secret = webhookSecret\<rparr>)"

text \<open>\<^verbatim>\<open>strings.ToUpper\<close>; \<open>up\<close> stands for the case tables of package \<^verbatim>\<open>unicode\<close> outside ASCII.\<close>

definition upper_rune :: "(nat \<Rightarrow> nat) \<Rightarrow> nat \<Rightarrow> nat" where
  "upper_rune up r = (if r < 128 then (if 97 \<le> r \<and> r \<le> 122 then r - 32 else r) else up r)"

definition to_upper :: "(nat \<Rightarrow> nat) \<Rightarrow> string \<Rightarrow> string" where
  "to_upper up s =
     (if ascii s then map upper_char s else strings_map (\<lambda>r. Some (upper_rune up r)) s)"

definition invoice_payload :: "(nat \<Rightarrow> nat) \<Rightarrow> create_invoice_request \<Rightarrow> string" where
  "invoice_payload up r =
     (let m0 = (case inv_metadata r of None \<Rightarrow> [] | Some m \<Rightarrow> m);
          m1 = (if inv_order_id r \<noteq> [] then map_put ''orderId'' (JStr (inv_order_id r)) m0 else m0);
          m2 = (if inv_buyer_email r \<noteq> [] then map_put ''buyerEmail'' (JStr (inv_buyer_email r)) m1 else m1);
          checkout = (if inv_expiration_minutes r > 0
             then [(''expirationMinutes'', JNum (itoa (inv_expiration_minutes r)))] else [])
      in json_marshal (JObj
           ([(''amount'', JNum (float_text (inv_amount r < 0) \<bar>inv_amount r\<bar>)),
             (''currency'', JStr (to_upper up (inv_currency r)))] @
            (if m2 \<noteq> [] then [(''metadata'', JObj m2)] else []) @
            (if checkout \<noteq> [] then [(''checkout'', JObj checkout)] else []))))"

record payment_request =
  pr_url :: string
  pr_headers :: "(string \<times> string) list"
  pr_body :: string

datatype payment_reply =
    CannotBuild \<comment> \<open>the request cannot be built from this URL\<close>
  | NoReply
  | ReplyCut \<comment> \<open>the body of the reply cannot be read\<close>
  | Reply int string

definition truncate_text :: "string \<Rightarrow> nat \<Rightarrow> string" where
  "truncate_text s n = (if length s \<le> n then s else take n s @ ''...'')"

text \<open>The reply of the payment server.\<close>

record invoice_reply =
  ir_id :: string
  ir_checkout_link :: string
  ir_amount :: "bool \<times> rat"
  ir_currency :: string
  ir_status :: string
  ir_additional_status :: string
  ir_expires_at :: string

definition set_reply_field :: "string \<times> json \<Rightarrow> invoice_reply \<Rightarrow> invoice_reply option" where
  "set_reply_field kv r =
     (let k = fst kv; v = snd kv in
      if names_field k ''id'' then map_option (\<lambda>s. r\<lparr>ir_id := s\<rparr>) (string_field v (ir_id r))
      else if names_field k ''checkoutLink'' then map_option (\<lambda>s. r\<lparr>ir_checkout_link := s\<rparr>) (string_field v (ir_checkout_link r))
      else if names_field k ''amount'' then map_option (\<lambda>f. r\<lparr>ir_amount := f\<rparr>) (float_field v (ir_amount r))
      else if names_field k ''currency'' then map_option (\<lambda>s. r\<lparr>ir_currency := s\<rparr>) (string_field v (ir_currency r))
      else if names_field k ''status'' then map_option (\<lambda>s. r\<lparr>ir_status := s\<rparr>) (string_field v (ir_status r))
      else if names_field k ''additionalStatuses''
      then map_option (\<lambda>s. r\<lparr>ir_additional_status := s\<rparr>) (string_field v (ir_additional_status r))
      else if names_field k ''expiresAt'' then map_option (\<lambda>s. r\<lparr>ir_expires_at := s\<rparr>) (string_field v (ir_expires_at r))
      else Some r)"

definition empty_reply :: invoice_reply where
  "empty_reply = \<lparr>ir_id = [], ir_checkout_link = [], ir_amount = (False, 0), ir_currency = [], ir_status = [],
     ir_additional_status = [], ir_expires_at = []\<rparr>"

text \<open>\<open>clock\<close> is the time with the offset of the local zone.\<close>

definition btcpay_CreateInvoice ::
  "(nat \<Rightarrow> nat) \<Rightarrow> (payment_request \<Rightarrow> payment_reply) \<Rightarrow> gotime \<times> int \<Rightarrow> btcpay_client \<Rightarrow>
   create_invoice_request \<Rightarrow> string + create_invoice_response" where
  "btcpay_CreateInvoice up call clock c r =
     (case call \<lparr>pr_url = bc_endpoint c @ ''/api/v1/stores/'' @ bc_store_id c @ ''/invoices'',
                pr_headers = [(''Content-Type'', ''application/json''), (''Authorization'', ''token '' @ bc_api_key c)],
                pr_body = invoice_payload up r\<rparr> of
        CannotBuild \<Rightarrow> Inl ''failed to build btcpay request''
      | NoReply \<Rightarrow> Inl ''btcpay request failed''
      | ReplyCut \<Rightarrow> Inl ''failed to read btcpay response''
      | Reply st body \<Rightarrow>
          if st \<ge> 300 then Inl (''btcpay returned '' @ itoa st @ '': '' @ truncate_text body 512)
          else (case unmarshal_struct set_reply_field empty_reply body of
             None \<Rightarrow> Inl ''failed to decode btcpay invoice response''
           | Some i \<Rightarrow> Inr \<lparr>ci_invoice_id = ir_id i, ci_checkout_url = ir_checkout_link i, ci_status = ir_status i,
               ci_expires_at = (case parse_rfc3339 (ir_expires_at i) of
                   None \<Rightarrow> (fst clock + 15 * 60 * second, snd clock) | Some z \<Rightarrow> z),
               ci_amount = ir_amount i, ci_currency = ir_currency i\<rparr>))"

text \<open>A constant-time comparison is a comparison.\<close>

definition btcpay_VerifyWebhook :: "btcpay_client \<Rightarrow> string \<Rightarrow> string \<Rightarrow> string + webhook_event" where
  "btcpay_VerifyWebhook c body sig =
     (if sig = [] then Inl ''missing btcpay signature header''
      else if \<not> has_prefix sig ''sha256='' then Inl ''unexpected btcpay signature format''
      else (case hex_decode (drop 7 sig) of
         None \<Rightarrow> Inl ''invalid btcpay signature encoding''
       | Some d \<Rightarrow>
           if hmac_sha256 (bc_webhook_secret c) body \<noteq> d then Inl ''btcpay signature mismatch''
           else (case decode_event body of
              None \<Rightarrow> Inl ''failed to decode webhook payload''
            | Some ev \<Rightarrow> Inr ev)))"

subsection \<open>The handlers\<close>

record invoice_service =
  svc_create_invoice :: "create_invoice_request \<Rightarrow> string + create_invoice_response"
  svc_verify_webhook :: "string \<Rightarrow> string \<Rightarrow> string + webhook_event"

definition btcpay_service ::
  "(nat \<Rightarrow> nat) \<Rightarrow> (payment_request \<Rightarrow> payment_reply) \<Rightarrow> gotime \<times> int \<Rightarrow> btcpay_client \<Rightarrow> invoice_service" where
  "btcpay_service up call clock c =
     \<lparr>svc_create_invoice = btcpay_CreateInvoice up call clock c, svc_verify_webhook = btcpay_VerifyWebhook c\<rparr>"

text \<open>The part of \<^verbatim>\<open>CreateInvoice\<close> before the call of the service.\<close>

definition invoice_request_of :: "(nat \<Rightarrow> nat) \<Rightarrow> string \<Rightarrow> http_response + create_invoice_request" where
  "invoice_request_of up body =
     (case decode_invoice_request body of
        None \<Rightarrow> Inl (WriteSimpleError ''Invalid JSON request'' 400)
      | Some r0 \<Rightarrow>
          (let r = r0\<lparr>inv_expiration_minutes := (if inv_expiration_minutes r0 = 0 then defaultInvoiceExpirationMinutes
                        else inv_expiration_minutes r0),
                      inv_currency := to_upper up (trim_space (inv_currency r0))\<rparr>;
               errs = validateCreateInvoiceRequest r
           in if errs \<noteq> [] then Inl (WriteValidationError errs) else Inr r))"

definition invoice_json :: "create_invoice_response \<Rightarrow> string option" where
  "invoice_json i = map_option
     (\<lambda>x. ''{\"invoice_id\":'' @ json_quote (ci_invoice_id i) @ '',\"checkout_url\":'' @ json_quote (ci_checkout_url i) @
          '',\"status\":'' @ json_quote (ci_status i) @ '',\"expires_at\":'' @ x @
          '',\"amount\":'' @ float_text (fst (ci_amount i)) (snd (ci_amount i)) @
          '',\"currency\":'' @ json_quote (ci_currency i) @ ''}'')
     (zoned_marshal_json (ci_expires_at i))"

text \<open>The response, and the request that the service was asked to bill, if it was.\<close>

definition CreateInvoice ::
  "(nat \<Rightarrow> nat) \<Rightarrow> invoice_service option \<Rightarrow> string \<Rightarrow> http_response \<times> create_invoice_request option" where
  "CreateInvoice up service body =
     (case service of
        None \<Rightarrow> (WriteSimpleError ''Payments unavailable'' 503, None)
      | Some s \<Rightarrow>
          (case invoice_request_of up body of
             Inl err \<Rightarrow> (err, None)
           | Inr r \<Rightarrow>
               (case svc_create_invoice s r of
                  Inl x \<Rightarrow> WriteSimpleError ''Failed to create invoice'' 502
                | Inr i \<Rightarrow> encoded_response no_store_headers (invoice_json i), Some r)))"

definition maxWebhookBodyBytes :: nat where "maxWebhookBodyBytes = 2 ^ 20"

text \<open>The body read up to the limit, unless reading fails; and the event that was accepted.\<close>

definition PaymentWebhook ::
  "invoice_service option \<Rightarrow> bool \<Rightarrow> http_request \<Rightarrow> http_response \<times> webhook_event option" where
  "PaymentWebhook service read_fails rq =
     (case service of
        None \<Rightarrow> (WriteSimpleError ''Payments unavailable'' 503, None)
      | Some s \<Rightarrow>
          (let sig0 = header_value rq ''BTCPay-Sig'';
               sig = (if sig0 = [] then header_value rq ''BTCPAY-SIG'' else sig0)
           in if read_fails then (WriteSimpleError ''Failed to read webhook'' 500, None)
              else (case svc_verify_webhook s (take maxWebhookBodyBytes (rq_body rq)) sig of
                 Inl x \<Rightarrow> (WriteSimpleError ''Invalid webhook'' 400, None)
               | Inr ev \<Rightarrow> (json_response 200 Map.empty (JObj [(''status'', JStr ''ok'')]), Some ev))))"

subsection \<open>What is billed\<close>

lemma invoice_request_of_valid:
  "invoice_request_of up body = Inr r \<Longrightarrow> validateCreateInvoiceRequest r = []"
  by (auto simp: invoice_request_of_def Let_def split: option.splits if_splits)

lemma invoice_request_of_error:
  "invoice_request_of up body = Inl err \<Longrightarrow> http_status err = 400"
  by (auto simp: invoice_request_of_def Let_def WriteSimpleError_def WriteValidationError_def json_response_def
      split: option.splits if_splits)

text \<open>C27: What the payment service is asked to bill. Whatever body comes in, the service is called at
  most with a positive amount of at most a million, a currency of three bytes, an expiration between
  five minutes and a day and metadata of at most 2048 bytes; a request that is not of this form is answered
  400 (503 without a payment service), a failing service is answered 502, and 200 means that the service
  has created the invoice.\<close>

theorem invoice_billing:
  fixes up service body
  defines "call \<equiv> snd (CreateInvoice up service body)" and "answer \<equiv> http_status (fst (CreateInvoice up service body))"
  shows "(case call of
      None \<Rightarrow> answer = (if service = None then 503 else 400)
    | Some r \<Rightarrow> 0 < inv_amount r \<and> inv_amount r \<le> 1000000 \<and> length (inv_currency r) = 3 \<and>
        5 \<le> inv_expiration_minutes r \<and> inv_expiration_minutes r \<le> 1440 \<and>
        (case inv_metadata r of None \<Rightarrow> True | Some m \<Rightarrow> length (json_encode (JObj m)) \<le> 2048) \<and>
        (\<exists>s. service = Some s \<and> answer = (if is_ok (svc_create_invoice s r) then 200 else 502)))"
proof (cases service)
  case None
  then show ?thesis by (simp add: call_def answer_def CreateInvoice_def)
next
  case (Some s)
  show ?thesis
  proof (cases "invoice_request_of up body")
    case (Inl err)
    then show ?thesis using Some invoice_request_of_error [OF Inl]
      by (simp add: call_def answer_def CreateInvoice_def)
  next
    case (Inr r)
    have "0 < inv_amount r \<and> inv_amount r \<le> 1000000 \<and> length (inv_currency r) = 3 \<and>
        5 \<le> inv_expiration_minutes r \<and> inv_expiration_minutes r \<le> 1440 \<and>
        (case inv_metadata r of None \<Rightarrow> True | Some m \<Rightarrow> length (json_encode (JObj m)) \<le> 2048)"
      using invoice_request_of_valid [OF Inr] by (simp add: invoice_request_accepted_iff)
    then show ?thesis using Some Inr
      by (simp add: call_def answer_def CreateInvoice_def split: sum.split)
  qed
qed

subsection \<open>Webhooks\<close>

lemma btcpay_VerifyWebhook_iff:
  "btcpay_VerifyWebhook c body sig = Inr ev \<longleftrightarrow>
     (\<exists>h. sig = ''sha256='' @ h \<and> hex_decode h = Some (hmac_sha256 (bc_webhook_secret c) body)) \<and>
     decode_event body = Some ev"
proof -
  have "has_prefix sig ''sha256='' \<longleftrightarrow> sig = ''sha256='' @ drop 7 sig"
    by (auto simp: has_prefix_iff)
  then show ?thesis
    by (auto simp: btcpay_VerifyWebhook_def split: option.splits)
qed

text \<open>The two spellings of the header are the same header.\<close>

lemma signature_header: "canonical_key ''BTCPAY-SIG'' = canonical_key ''BTCPay-Sig''"
  by code_simp

text \<open>C26: Which webhooks are accepted. With a payment client that holds the secret \<open>k\<close>, and the body being
  readable, an event is accepted (200) exactly when the signature header is \<^verbatim>\<open>sha256=\<close> followed by the
  hexadecimal text, in either case, of the HMAC-SHA256 under \<open>k\<close> of the body's first mebibyte, and that
  text decodes as the event; everything else is answered 400 and has no effect. In particular what the
  payment server signs with the same secret, up to a mebibyte, is accepted.\<close>

theorem webhook_accepted_iff:
  fixes rq up call clock c
  defines "body \<equiv> take 1048576 (rq_body rq)"
  defines "result \<equiv> PaymentWebhook (Some (btcpay_service up call clock c)) False rq"
  shows "(snd result = Some ev \<longleftrightarrow>
      (\<exists>h. header_value rq ''BTCPay-Sig'' = ''sha256='' @ h \<and>
           hex_decode h = Some (hmac_sha256 (bc_webhook_secret c) body)) \<and> decode_event body = Some ev) \<and>
    http_status (fst result) = (if snd result = None then 400 else 200) \<and>
    (length (rq_body rq) \<le> 1048576 \<and> decode_event (rq_body rq) = Some ev \<and>
      header_value rq ''BTCPay-Sig'' = ''sha256='' @ hex_encode (hmac_sha256 (bc_webhook_secret c) (rq_body rq)) \<longrightarrow>
      snd result = Some ev)"
proof -
  have sig: "header_value rq ''BTCPAY-SIG'' = header_value rq ''BTCPay-Sig''"
    by (simp add: header_value_def signature_header)
  have limit: "maxWebhookBodyBytes = 1048576" by (simp add: maxWebhookBodyBytes_def)
  have res: "result = (case btcpay_VerifyWebhook c body (header_value rq ''BTCPay-Sig'') of
      Inl x \<Rightarrow> (WriteSimpleError ''Invalid webhook'' 400, None)
    | Inr ev \<Rightarrow> (json_response 200 Map.empty (JObj [(''status'', JStr ''ok'')]), Some ev))"
    by (simp add: result_def PaymentWebhook_def sig limit btcpay_service_def body_def Let_def)
  have iff: "snd result = Some ev \<longleftrightarrow> btcpay_VerifyWebhook c body (header_value rq ''BTCPay-Sig'') = Inr ev"
    by (simp add: res split: sum.split)
  have status: "http_status (fst result) = (if snd result = None then 400 else 200)"
    by (simp add: res json_response_def split: sum.split)
  show ?thesis
    unfolding iff btcpay_VerifyWebhook_iff status by (auto simp: body_def hex_roundtrip)
qed

definition sample_event_text :: string where
  "sample_event_text = ''{\"type\":\"InvoiceSettled\",\"invoiceId\":\"i7\",\"timestamp\":1700000000,\"other\":[1]}''"

definition sample_event :: webhook_event where
  "sample_event = empty_event\<lparr>we_type := ''InvoiceSettled'', we_invoice_id := ''i7'', we_timestamp := 1700000000\<rparr>"

definition sample_webhook :: "string \<Rightarrow> http_request" where
  "sample_webhook secret = \<lparr>rq_method = ''POST'', rq_path = ''/api/payhook'', rq_query = [],
     rq_headers = [(''Btcpay-Sig'', [''sha256='' @ hex_encode (hmac_sha256 secret sample_event_text)])],
     rq_remote = [], rq_vars = [], rq_body = sample_event_text, rq_too_large = False, rq_nonce = []\<rparr>"

lemma sample_event_decodes: "decode_event sample_event_text = Some sample_event"
  by code_simp

lemma sample_signature:
  "header_value (sample_webhook k) ''BTCPay-Sig'' = ''sha256='' @ hex_encode (hmac_sha256 k sample_event_text)"
proof -
  have "canonical_key ''BTCPay-Sig'' = ''Btcpay-Sig''" by code_simp
  then show ?thesis by (simp add: header_value_def sample_webhook_def)
qed

theorem webhook_accepted_iff_witness:
  "snd (PaymentWebhook (Some (btcpay_service id (\<lambda>_. NoReply) (0, 0)
     \<lparr>bc_endpoint = [], bc_store_id = [], bc_api_key = [], bc_webhook_secret = ''k''\<rparr>)) False (sample_webhook ''k'')) =
   Some sample_event"
proof -
  let ?c = "\<lparr>bc_endpoint = [], bc_store_id = [], bc_api_key = [], bc_webhook_secret = ''k''\<rparr>"
  have body: "rq_body (sample_webhook ''k'') = sample_event_text" by (simp add: sample_webhook_def)
  have "length sample_event_text \<le> 1048576" by (simp add: sample_event_text_def)
  then have "length (rq_body (sample_webhook ''k'')) \<le> 1048576 \<and>
      decode_event (rq_body (sample_webhook ''k'')) = Some sample_event \<and>
      header_value (sample_webhook ''k'') ''BTCPay-Sig'' =
        ''sha256='' @ hex_encode (hmac_sha256 (bc_webhook_secret ?c) (rq_body (sample_webhook ''k'')))"
    by (simp add: sample_signature sample_event_decodes body)
  then show ?thesis
    using webhook_accepted_iff [of id "\<lambda>_. NoReply" "(0, 0)" ?c "sample_webhook ''k''" sample_event] by blast
qed

end
