(* ===== verification/SlidingLog.thy ===== *)
theory SlidingLog
  imports RateLimit "HOL-Library.Multiset"
begin

text \<open>
  Sliding windows. The shared rate limiters keep a log of the requests they have admitted, in the
  precision of their store, and admit another one while fewer than the limit lie in the window.
  The theory shows what follows for the requests admitted over any span of time.
\<close>

text \<open>Newest first; any two entries that are \<open>n\<close> places apart are at least \<open>w\<close> apart in time.\<close>

definition spaced :: "nat \<Rightarrow> int \<Rightarrow> int list \<Rightarrow> bool" where
  "spaced n w xs \<longleftrightarrow> sorted_wrt (\<lambda>x y. y \<le> x) xs \<and> (\<forall>i. i + n < length xs \<longrightarrow> xs ! (i + n) + w \<le> xs ! i)"

lemma spaced_Nil [simp]: "spaced n w []"
  by (simp add: spaced_def)

lemma spaced_drop: "spaced n w xs \<Longrightarrow> spaced n w (drop k xs)"
proof -
  assume sp: "spaced n w xs"
  have "drop k xs ! (i + n) + w \<le> drop k xs ! i" if "i + n < length (drop k xs)" for i
  proof -
    have "xs ! (k + i + n) + w \<le> xs ! (k + i)" using sp that by (simp add: spaced_def)
    then show ?thesis using that by (simp add: add.assoc)
  qed
  then show ?thesis using sp by (simp add: spaced_def sorted_wrt_drop)
qed

lemma spaced_Cons:
  assumes "spaced n w xs" "0 < n" "\<forall>x \<in> set xs. x \<le> t" "n \<le> length xs \<Longrightarrow> xs ! (n - 1) + w \<le> t"
  shows "spaced n w (t # xs)"
proof -
  have "(t # xs) ! (i + n) + w \<le> (t # xs) ! i" if "i + n < length (t # xs)" for i
    using assms that by (cases i) (auto simp: spaced_def nth_Cons' split: if_splits)
  then show ?thesis using assms(1,3) by (simp add: spaced_def)
qed

lemma spaced_length:
  assumes "spaced n w xs" "0 < n" "0 < w" "\<forall>x \<in> set xs. t0 \<le> x \<and> x \<le> t1" "t0 \<le> t1"
  shows "int (length xs) \<le> int n * ((t1 - t0) div w + 1)"
  using assms
proof (induction "length xs" arbitrary: xs t1 rule: less_induct)
  case less
  show ?case
  proof (cases "length xs \<le> n")
    case True
    have "int n * 1 \<le> int n * ((t1 - t0) div w + 1)"
      using less.prems by (intro mult_left_mono) (simp_all add: pos_imp_zdiv_nonneg_iff)
    then show ?thesis using True by linarith
  next
    case False
    let ?ys = "drop n xs"
    have old: "x \<le> t1 - w" if x: "x \<in> set ?ys" for x
    proof -
      obtain i where i: "i < length ?ys" "?ys ! i = x" using x by (meson in_set_conv_nth)
      then have "xs ! (i + n) + w \<le> xs ! i" "xs ! i \<le> t1" "x = xs ! (i + n)"
        using less.prems(1,4) by (auto simp: spaced_def add.commute)
      then show ?thesis by simp
    qed
    have "?ys ! 0 \<in> set ?ys" using False by (intro nth_mem) simp
    then have t: "t0 \<le> t1 - w" using old less.prems(4) by (meson in_set_dropD order_trans)
    have "\<forall>x \<in> set ?ys. t0 \<le> x \<and> x \<le> t1 - w" using old less.prems(4) by (meson in_set_dropD)
    then have "int (length ?ys) \<le> int n * ((t1 - w - t0) div w + 1)"
      using less.prems(2) False by (intro less.hyps spaced_drop less.prems(1-3) t) simp_all
    also have "(t1 - w - t0) div w + 1 = (t1 - t0) div w"
      using less.prems(3) div_add_self2 [of w "t1 - w - t0"] by (simp add: algebra_simps)
    finally show ?thesis using False by (simp add: distrib_left)
  qed
qed

subsection \<open>Logs in the precision of a store\<close>

text \<open>
  \<open>st a\<close> is how the store keeps the instant \<open>a\<close>, and an entry counts for a request at \<open>u\<close> when it is past
  \<open>cut u\<close>. An entry that no longer counts is at least \<open>span\<close> old.
\<close>

locale sliding_log =
  fixes st cut :: "int \<Rightarrow> 'a::linorder" and span :: int and ok :: "int \<Rightarrow> bool"
  assumes st_mono: "a \<le> b \<Longrightarrow> st a \<le> st b"
    and cut_mono: "t \<le> u \<Longrightarrow> cut t \<le> cut u"
    and expired: "ok a \<Longrightarrow> ok u \<Longrightarrow> st a \<le> cut u \<Longrightarrow> a + span \<le> u"
begin

text \<open>What is in the log accounts for the requests admitted so far, now and later.\<close>

definition covers :: "int \<Rightarrow> int list \<Rightarrow> 'a list \<Rightarrow> bool" where
  "covers t xs es \<longleftrightarrow>
     (\<forall>u \<ge> t. length (filter (\<lambda>a. cut u < st a) xs) \<le> length (filter (\<lambda>x. cut u < x) es))"

lemma covers_later: "covers t xs es \<Longrightarrow> t \<le> u \<Longrightarrow> covers u xs es"
  by (auto simp: covers_def)

lemma covers_mset: "covers t xs es \<Longrightarrow> mset es = mset fs \<Longrightarrow> covers t xs fs"
  unfolding covers_def by (metis mset_filter size_mset)

lemma covers_more: "covers t xs es \<Longrightarrow> covers t xs (es @ ys)"
  by (auto simp: covers_def trans_le_add1)

lemma filter_current: "t \<le> u \<Longrightarrow> filter (\<lambda>x. cut u < x) (filter (\<lambda>x. cut t < x) es) = filter (\<lambda>x. cut u < x) es"
  using cut_mono [of t u] by (auto intro: filter_cong)

lemma covers_current: "covers t xs es \<Longrightarrow> covers t xs (filter (\<lambda>x. cut t < x) es)"
  by (simp add: covers_def filter_current del: filter_filter)

lemma covers_gone: "(\<And>a. a \<in> set xs \<Longrightarrow> st a \<le> cut t) \<Longrightarrow> covers t xs es"
proof -
  assume gone: "\<And>a. a \<in> set xs \<Longrightarrow> st a \<le> cut t"
  have "filter (\<lambda>a. cut u < st a) xs = []" if "t \<le> u" for u
    using gone cut_mono [OF that] by (auto simp: filter_empty_conv not_less intro: order_trans)
  then show ?thesis by (simp add: covers_def)
qed

lemma covers_admit: "covers t xs es \<Longrightarrow> covers t (t # xs) (es @ [st t])"
  by (auto simp: covers_def)

text \<open>A request that finds fewer than \<open>n\<close> entries may be admitted.\<close>

lemma spaced_admit:
  assumes "spaced n span xs" "covers t xs es" "length (filter (\<lambda>x. cut t < x) es) < n"
    and "\<forall>a \<in> set xs. a \<le> t \<and> ok a" "ok t" "0 < n"
  shows "spaced n span (t # xs)"
proof (rule spaced_Cons [OF assms(1,6)])
  show "\<forall>a \<in> set xs. a \<le> t" using assms(4) by blast
  assume n: "n \<le> length xs"
  define a where "a = xs ! (n - 1)"
  have a: "a \<in> set xs" using n assms(6) by (simp add: a_def)
  have "st a \<le> cut t"
  proof (rule ccontr)
    assume new: "\<not> st a \<le> cut t"
    have "cut t < st b" if b: "b \<in> set (take n xs)" for b
    proof -
      obtain i where "i < length (take n xs)" "take n xs ! i = b" using b by (meson in_set_conv_nth)
      then have i: "b = xs ! i" "i < n" by simp_all
      then have "a \<le> b" using assms(1,6) n unfolding spaced_def a_def
        by (cases "i = n - 1") (auto simp: sorted_wrt_iff_nth_less)
      then show ?thesis using new st_mono [of a b] by (simp add: order_less_le_trans)
    qed
    then have "filter (\<lambda>a. cut t < st a) (take n xs) = take n xs" by (simp add: filter_id_conv)
    then have "n \<le> length (filter (\<lambda>a. cut t < st a) xs)"
      using n append_take_drop_id [of n xs] by (metis filter_append le_add1 length_append length_take min.absorb2)
    then show False using assms(2,3) unfolding covers_def by (meson le_less_trans not_le order_refl)
  qed
  then show "xs ! (n - 1) + span \<le> t"
    using expired [of a t] a assms(4,5) by (auto simp: a_def)
qed

end

end
