(* ===== verification/FirestoreLimit.thy ===== *)
theory FirestoreLimit
  imports SlidingLog Site
begin

text \<open>
  \<^verbatim>\<open>src/services/ratelimit_firestore.go\<close>: the rate limiter shared by several servers through Firestore. A
  document per key holds the times of the requests admitted. The client library is the record
  \<open>documents\<close> of its two calls inside a transaction, which no other transaction on the document comes
  between; what the limiter relies on are the laws of the locale \<open>document_store\<close>: the documented behaviour
  of Firestore, which keeps times to the microsecond and may delete documents once they expire.
\<close>

text \<open>The field \<^verbatim>\<open>timestamps\<close>, when it is a list; its entries that are times.\<close>

record fire_doc =
  fd_timestamps :: "gotime option list option"
  fd_updated_at :: gotime
  fd_expires_at :: gotime

text \<open>A read may fail, or find no document; a commit that reports an error may have been applied.\<close>

record 'd documents =
  d_get :: "'d \<Rightarrow> string \<Rightarrow> string + fire_doc option"
  d_set :: "'d \<Rightarrow> string \<Rightarrow> fire_doc \<Rightarrow> bool \<times> 'd"

definition doc_times :: "fire_doc option \<Rightarrow> gotime list" where
  "doc_times doc =
     (case doc of None \<Rightarrow> []
      | Some x \<Rightarrow> (case fd_timestamps x of None \<Rightarrow> [] | Some ts \<Rightarrow> List.map_filter id ts))"

fun oldest_of :: "gotime \<Rightarrow> gotime list \<Rightarrow> gotime" where
  "oldest_of t [] = t"
| "oldest_of t (u # us) = oldest_of (if u < t then u else t) us"

text \<open>\<open>lag\<close> is the time from the start of the call to the moment when the retry time is computed.\<close>

definition firestore_CheckRateLimit :: "'d documents \<Rightarrow> duration \<Rightarrow> 'd limit_check" where
  "firestore_CheckRateLimit k lag t key limit window d =
     (if limit \<le> 0 \<or> window \<le> 0 then (Inl ''invalid limit or window'', d)
      else (case d_get k d key of
         Inl e \<Rightarrow> (Inl ''transaction failed'', d)
       | Inr doc \<Rightarrow>
           (let start = t - window;
                timestamps = filter (\<lambda>u. start < u) (doc_times doc);
                valid = filter (\<lambda>u. start < u) timestamps
            in if int (length valid) \<ge> limit then
                 (if valid = []
                  then (Inr \<lparr>lr_allowed = False, lr_remaining = 0, lr_reset_at = zero_time, lr_retry_after = 0\<rparr>, d)
                  else (let reset = oldest_of (hd valid) valid + window
                        in (Inr \<lparr>lr_allowed = False, lr_remaining = 0, lr_reset_at = reset,
                              lr_retry_after = max 0 (time_sub reset (t + lag))\<rparr>, d)))
               else (case d_set k d key
                         \<lparr>fd_timestamps = Some (map Some (valid @ [t])), fd_updated_at = t,
                          fd_expires_at = t + int64_of (window * 2)\<rparr> of
                  (False, d') \<Rightarrow> (Inl ''transaction failed'', d')
                | (True, d') \<Rightarrow> (Inr \<lparr>lr_allowed = True, lr_remaining = limit - int (length (valid @ [t])),
                     lr_reset_at = t + window, lr_retry_after = 0\<rparr>, d')))))"

subsection \<open>What the limiter relies on\<close>

definition kept :: "fire_doc \<Rightarrow> fire_doc" where
  "kept x = \<lparr>fd_timestamps = map_option (map (map_option (truncate_to microsecond))) (fd_timestamps x),
     fd_updated_at = truncate_to microsecond (fd_updated_at x), fd_expires_at = truncate_to microsecond (fd_expires_at x)\<rparr>"

locale document_store =
  fixes k :: "'d documents" and docs :: "'d \<Rightarrow> string \<rightharpoonup> fire_doc" and expire :: "gotime \<Rightarrow> 'd \<Rightarrow> 'd" and empty :: 'd
  assumes get: "d_get k d key = Inr r \<Longrightarrow> r = docs d key"
    and set_done: "d_set k d key x = (True, d') \<Longrightarrow> docs d' = (docs d)(key \<mapsto> kept x)"
    and set_failed: "d_set k d key x = (False, d') \<Longrightarrow> docs d' = docs d \<or> docs d' = (docs d)(key \<mapsto> kept x)"
    and expiry: "docs (expire t d) key = docs d key \<or>
      (\<exists>x. docs d key = Some x \<and> fd_expires_at x < t \<and> docs (expire t d) key = None)"
    and none_yet: "docs empty key = None"

interpretation micros: sliding_log "truncate_to microsecond" "\<lambda>u. u - w" "w - microsecond" "\<lambda>_. True"
proof
  fix a u assume "truncate_to microsecond a \<le> u - w"
  then show "a + (w - microsecond) \<le> u"
    using truncate_to_gt [of microsecond a] by (simp add: microsecond_def)
qed (simp_all add: truncate_to_mono microsecond_def)

text \<open>The requests admitted under the key so far, newest first, against what its document says.\<close>

definition log_inv :: "int \<Rightarrow> duration \<Rightarrow> gotime \<Rightarrow> gotime \<Rightarrow> gotime list \<Rightarrow> fire_doc option \<Rightarrow> bool" where
  "log_inv n w t0 t xs doc \<longleftrightarrow>
     spaced (nat n) (w - microsecond) xs \<and> (\<forall>a \<in> set xs. t0 \<le> a \<and> a \<le> t) \<and> t0 \<le> t \<and>
     micros.covers w t xs (doc_times doc) \<and>
     (\<forall>x a. doc = Some x \<longrightarrow> a \<in> set xs \<longrightarrow> a + w \<le> fd_expires_at x) \<and>
     list_all (\<lambda>x. truncate_to microsecond x = x) (doc_times doc)"

lemma doc_times_kept:
  "doc_times (Some (kept \<lparr>fd_timestamps = Some (map Some ts), fd_updated_at = u, fd_expires_at = v\<rparr>)) =
     map (truncate_to microsecond) ts"
  by (simp add: doc_times_def kept_def map_filter_def comp_def)

lemma log_inv_start: "t0 \<le> t \<Longrightarrow> log_inv n w t0 t [] None"
  by (simp add: log_inv_def micros.covers_def doc_times_def)

lemma log_inv_later: "log_inv n w t0 t xs doc \<Longrightarrow> t \<le> u \<Longrightarrow> log_inv n w t0 u xs doc"
  by (auto simp: log_inv_def intro: micros.covers_later)

lemma log_inv_expired:
  assumes "log_inv n w t0 t xs (Some x)" "fd_expires_at x < u" "t \<le> u"
  shows "log_inv n w t0 u xs None"
proof -
  have "truncate_to microsecond a \<le> u - w" if "a \<in> set xs" for a
    using assms that truncate_to_le [of microsecond a] by (force simp: log_inv_def microsecond_def)
  then have "micros.covers w u xs (doc_times None)" by (rule micros.covers_gone)
  then show ?thesis using assms(1,3) by (auto simp: log_inv_def doc_times_def)
qed

text \<open>What a check writes back: the entries in the window and the request itself.\<close>

abbreviation logged :: "duration \<Rightarrow> gotime \<Rightarrow> fire_doc option \<Rightarrow> fire_doc" where
  "logged w u doc \<equiv> kept \<lparr>fd_timestamps = Some (map Some (filter (\<lambda>v. u - w < v) (doc_times doc) @ [u])),
     fd_updated_at = u, fd_expires_at = u + w * 2\<rparr>"

lemma logged_times:
  assumes "list_all (\<lambda>x. truncate_to microsecond x = x) (doc_times doc)"
  shows "doc_times (Some (logged w u doc)) = filter (\<lambda>v. u - w < v) (doc_times doc) @ [truncate_to microsecond u]"
proof -
  have "map (truncate_to microsecond) (filter P (doc_times doc)) = filter P (doc_times doc)" for P
    using assms by (intro map_idI) (simp add: list_all_iff)
  then show ?thesis unfolding doc_times_kept by simp
qed

lemma logged_expiry:
  assumes "microsecond \<le> w" "a \<le> u"
  shows "a + w \<le> fd_expires_at (logged w u doc)"
  using assms truncate_to_gt [of microsecond "u + w * 2"] by (simp add: kept_def microsecond_def)

lemma log_inv_written:
  assumes "log_inv n w t0 t xs doc" "t \<le> u" "microsecond \<le> w"
  shows "log_inv n w t0 u xs (Some (logged w u doc))"
proof -
  have inv: "log_inv n w t0 u xs doc" using log_inv_later [OF assms(1,2)] .
  then have ts: "doc_times (Some (logged w u doc)) =
      filter (\<lambda>v. u - w < v) (doc_times doc) @ [truncate_to microsecond u]"
    by (intro logged_times) (simp add: log_inv_def)
  have "micros.covers w u xs (doc_times (Some (logged w u doc)))"
    unfolding ts using inv by (intro micros.covers_more micros.covers_current) (simp add: log_inv_def)
  then show ?thesis
    using inv logged_expiry [OF assms(3)] unfolding log_inv_def ts by (auto simp: list_all_iff)
qed

lemma log_inv_admitted:
  assumes "log_inv n w t0 t xs doc" "t \<le> u" "microsecond \<le> w" "0 < n"
    and "int (length (filter (\<lambda>v. u - w < v) (doc_times doc))) < n"
  shows "log_inv n w t0 u (u # xs) (Some (logged w u doc))"
proof -
  have inv: "log_inv n w t0 u xs doc" using log_inv_later [OF assms(1,2)] .
  then have ts: "doc_times (Some (logged w u doc)) =
      filter (\<lambda>v. u - w < v) (doc_times doc) @ [truncate_to microsecond u]"
    by (intro logged_times) (simp add: log_inv_def)
  have cov: "micros.covers w u (u # xs) (doc_times (Some (logged w u doc)))"
    unfolding ts using inv by (intro micros.covers_admit micros.covers_current) (simp add: log_inv_def)
  have "spaced (nat n) (w - microsecond) (u # xs)"
    by (rule micros.spaced_admit [where es = "doc_times doc"])
      (use inv assms(4,5) in \<open>auto simp: log_inv_def\<close>)
  then show ?thesis
    using inv cov logged_expiry [OF assms(3)] unfolding log_inv_def ts by (auto simp: list_all_iff)
qed

subsection \<open>The contract of a limiter\<close>

definition window_bound :: "int \<Rightarrow> duration \<Rightarrow> duration \<Rightarrow> rat" where
  "window_bound n w d = of_int (n * (d div (w - microsecond) + 1))"

context document_store
begin

lemma check_inv:
  assumes "log_inv n w t0 t xs (docs d key)" "t \<le> u" "microsecond \<le> w" "w \<le> hour" "0 < n"
    and "firestore_CheckRateLimit k lag u key n w d = (r, d')"
  shows "\<exists>xs'. log_inv n w t0 u xs' (docs d' key) \<and> length xs' = length xs + (if is_admitted r then 1 else 0)"
proof -
  have win: "int64_of (w * 2) = w * 2" using assms(3,4) by (intro int64_of_id) (simp_all add: time_units microsecond_def)
  have w0: "0 < w" using assms(3) by (simp add: microsecond_def)
  note check = assms(6) [unfolded firestore_CheckRateLimit_def Let_def]
  show ?thesis
  proof (cases "d_get k d key")
    case (Inl e)
    then have "r = Inl ''transaction failed''" "d' = d" using check w0 assms(5) by auto
    then show ?thesis using log_inv_later [OF assms(1,2)] by (auto simp: is_admitted_def)
  next
    case (Inr doc)
    have doc: "docs d key = doc" using get [OF Inr] by simp
    show ?thesis
    proof (cases "n \<le> int (length (filter (\<lambda>v. u - w < v) (doc_times doc)))")
      case True
      then have "\<not> is_admitted r" "d' = d"
        using check w0 assms(5) Inr by (auto simp: is_admitted_def split: if_splits)
      then show ?thesis using log_inv_later [OF assms(1,2)] by auto
    next
      case False
      obtain fine d1 where st: "d_set k d key \<lparr>fd_timestamps = Some (map Some (filter (\<lambda>v. u - w < v) (doc_times doc) @ [u])),
          fd_updated_at = u, fd_expires_at = u + w * 2\<rparr> = (fine, d1)" by fastforce
      then have out: "d' = d1" "is_admitted r = fine"
        using check w0 assms(5) Inr False by (auto simp: is_admitted_def win split: bool.splits)
      show ?thesis
      proof (cases fine)
        case True
        have "docs d1 = (docs d)(key \<mapsto> logged w u doc)" by (rule set_done) (use st True in simp)
        then have "docs d' key = Some (logged w u doc)" using out(1) by simp
        then show ?thesis
          using log_inv_admitted [OF assms(1-3,5)] False doc out True by (intro exI [of _ "u # xs"]) simp
      next
        case failed: False
        have "docs d1 = docs d \<or> docs d1 = (docs d)(key \<mapsto> logged w u doc)"
          by (rule set_failed) (use st failed in simp)
        then have "docs d' key = doc \<or> docs d' key = Some (logged w u doc)" using out(1) doc by auto
        then show ?thesis
          using log_inv_later [OF assms(1,2)] log_inv_written [OF assms(1-3)] doc out failed by (intro exI [of _ xs]) auto
      qed
    qed
  qed
qed

lemma check_other:
  assumes "firestore_CheckRateLimit k lag u key' n w d = (r, d')" "key \<noteq> key'"
  shows "docs d' key = docs d key"
proof -
  have "docs d1 key = docs d key" if "d_set k d key' x = (fine, d1)" for x fine d1
    using set_done [of d key' x d1] set_failed [of d key' x d1] that assms(2) by (cases fine) auto
  then show ?thesis
    using assms(1) unfolding firestore_CheckRateLimit_def Let_def
    by (auto split: if_splits sum.splits prod.splits bool.splits)
qed

lemma run_log:
  assumes "lims key = (n, w)" "microsecond \<le> w" "w \<le> hour" "0 < n"
  shows "log_inv n w t0 t xs (docs d key) \<Longrightarrow> clock_from t ops \<Longrightarrow>
    \<exists>xs' d'. log_inv n w t0 (last_time t ops) xs' (docs d' key) \<and>
      length xs' = length xs + lim_admitted (firestore_CheckRateLimit k lag) expire lims key ops d"
proof (induction ops arbitrary: t xs d)
  case Nil
  then show ?case by auto
next
  case (Cons op ops)
  obtain y d1 where st: "lim_step (firestore_CheckRateLimit k lag) expire lims op d = (y, d1)" by fastforce
  have t: "t \<le> rl_time op" "clock_from (rl_time op) ops" using Cons.prems(2) by simp_all
  have "\<exists>xs1. log_inv n w t0 (rl_time op) xs1 (docs d1 key) \<and>
      length xs1 = length xs + (if lim_admits key op y then 1 else 0)"
  proof (cases op)
    case (RCheck u key')
    then obtain r where r: "firestore_CheckRateLimit k lag u key' (fst (lims key')) (snd (lims key')) d = (r, d1)" "y = Some r"
      using st by (auto split: prod.splits)
    show ?thesis
    proof (cases "key = key'")
      case True
      then show ?thesis
        using check_inv [OF Cons.prems(1) _ assms(2-4), of u lag r d1] r RCheck t assms(1) by simp
    next
      case False
      then show ?thesis
        using check_other [OF r(1) False] log_inv_later [OF Cons.prems(1)] r(2) RCheck t by auto
    qed
  next
    case (RCleanup u)
    then have e: "d1 = expire u d" "y = None" using st by auto
    from expiry [of u d key] have "log_inv n w t0 u xs (docs d1 key)"
    proof
      assume "docs (expire u d) key = docs d key"
      then show ?thesis using log_inv_later [OF Cons.prems(1)] t RCleanup e by simp
    next
      assume "\<exists>x. docs d key = Some x \<and> fd_expires_at x < u \<and> docs (expire u d) key = None"
      then show ?thesis using log_inv_expired [of n w t0 t xs _ u] Cons.prems(1) t RCleanup e by auto
    qed
    then show ?thesis using RCleanup e by auto
  qed
  then obtain xs1 where xs1: "log_inv n w t0 (rl_time op) xs1 (docs d1 key)"
    "length xs1 = length xs + (if lim_admits key op y then 1 else 0)" by blast
  then show ?case
    using Cons.IH [OF xs1(1) t(2)] by (auto simp: st)
qed

lemma admitted_in_windows:
  assumes "lims key = (n, w)" "2 * microsecond \<le> w" "w \<le> hour" "0 < n" "clock_from t ops"
  shows "int (lim_admitted (firestore_CheckRateLimit k lag) expire lims key ops empty) \<le>
    n * ((last_time t ops - t) div (w - microsecond) + 1)"
proof -
  have start: "log_inv n w t t [] (docs empty key)" using log_inv_start none_yet by simp
  have w: "microsecond \<le> w" "0 < w - microsecond" using assms(2) by (simp_all add: microsecond_def)
  obtain xs d' where xs: "log_inv n w t (last_time t ops) xs (docs d' key)"
    "length xs = lim_admitted (firestore_CheckRateLimit k lag) expire lims key ops empty"
    using run_log [where lag = lag and lims = lims and key = key, OF assms(1) w(1) assms(3,4) start assms(5)] by auto
  then have "int (length xs) \<le> int (nat n) * ((last_time t ops - t) div (w - microsecond) + 1)"
    using assms(4) w(2) by (intro spaced_length) (auto simp: log_inv_def)
  then show ?thesis using assms(4) xs(2) by simp
qed

end

sublocale document_store \<subseteq> shared: rate_limiter "firestore_CheckRateLimit k lag" expire empty window_bound
proof
  fix n :: int and w :: duration and lims :: "string \<Rightarrow> int \<times> duration" and key t ops
  assume a: "0 < n" "n \<le> 10 ^ 8" "second \<le> w" "w \<le> hour" "lims key = (n, w)" "clock_from t ops"
  have "int (lim_admitted (firestore_CheckRateLimit k lag) expire lims key ops empty) \<le>
      n * ((last_time t ops - t) div (w - microsecond) + 1)"
    using a by (intro admitted_in_windows) (simp_all add: time_units microsecond_def)
  then have "(of_int (int (lim_admitted (firestore_CheckRateLimit k lag) expire lims key ops empty)) :: rat) \<le>
      window_bound n w (last_time t ops - t)"
    unfolding window_bound_def by (rule of_int_le_iff [THEN iffD2])
  then show "of_nat (lim_admitted (firestore_CheckRateLimit k lag) expire lims key ops empty) \<le>
      window_bound n w (last_time t ops - t)" by simp
next
  fix n :: int and w d d' :: duration
  assume a: "0 < n" "second \<le> w" "0 \<le> d" "d \<le> d'"
  then have "d div (w - microsecond) \<le> d' div (w - microsecond)"
    by (intro zdiv_mono1) (simp_all add: time_units microsecond_def)
  then have "n * (d div (w - microsecond) + 1) \<le> n * (d' div (w - microsecond) + 1)"
    using a(1) by (intro mult_left_mono) simp_all
  then show "window_bound n w d \<le> window_bound n w d'"
    unfolding window_bound_def by (rule of_int_le_iff [THEN iffD2])
qed

subsection \<open>Documents in memory\<close>

text \<open>An implementation of the calls in which those on some keys fail, and a deletion of what has expired.\<close>

definition mem_documents :: "(string \<Rightarrow> bool) \<Rightarrow> (string \<Rightarrow> bool) \<Rightarrow> (string \<rightharpoonup> fire_doc) documents" where
  "mem_documents unreadable unwritable =
     \<lparr>d_get = (\<lambda>d key. if unreadable key then Inl ''unavailable'' else Inr (d key)),
      d_set = (\<lambda>d key x. if unwritable key then (False, d) else (True, d(key \<mapsto> kept x)))\<rparr>"

definition mem_expire :: "gotime \<Rightarrow> (string \<rightharpoonup> fire_doc) \<Rightarrow> (string \<rightharpoonup> fire_doc)" where
  "mem_expire t d key = (case d key of Some x \<Rightarrow> if fd_expires_at x < t then None else Some x | None \<Rightarrow> None)"

interpretation memory_documents:
  document_store "mem_documents unreadable unwritable" "\<lambda>d. d" mem_expire Map.empty
  by unfold_locales (auto simp: mem_documents_def mem_expire_def split: if_splits option.splits)

subsection \<open>The routes behind the shared limiter\<close>

context document_store
begin

lemma routes_in_windows:
  assumes "route_limit r = Some (a, n)" "events_from t xs" "site_limiter s = empty" "fst (site_app s) = []"
  shows "int (count_list (fst (site_app (site_run (firestore_CheckRateLimit k lag) expire proxy secret h xs s))) (r, ip)) \<le>
    n * ((events_end t xs - t) div (minute - microsecond) + 1)"
proof -
  have "(of_int (int (count_list (fst (site_app
      (site_run (firestore_CheckRateLimit k lag) expire proxy secret h xs s))) (r, ip))) :: rat) \<le>
      of_int (n * ((events_end t xs - t) div (minute - microsecond) + 1))"
    using shared.route_calls_bound [OF assms] by (simp only: window_bound_def of_int_of_nat_eq)
  then show ?thesis by (rule of_int_le_iff [THEN iffD1])
qed

end

text \<open>C28: The limits of the routes with the limiter shared through Firestore. Whatever reads and
  commits fail or lose their answer, and whenever expired documents are deleted, over any history of requests the
  handler of a limited route is called for one client at most \<open>n\<close> times for each full or started stretch of a
  minute, less the microsecond that Firestore rounds off, since the history began: unlike with the token
  bucket there is no further \<open>n\<close> after a burst.\<close>

theorem firestore_routes_limited:
  assumes "document_store k docs expire blank" "route_limit r = Some (a, n)" "events_from t xs"
    and "site_limiter s = blank" "fst (site_app s) = []"
  shows "int (count_list (fst (site_app (site_run (firestore_CheckRateLimit k lag) expire proxy secret h xs s))) (r, ip)) \<le>
    n * ((events_end t xs - t) div (minute - microsecond) + 1)"
  by (rule document_store.routes_in_windows [OF assms])

theorem firestore_routes_limited_witness:
  "int (count_list (fst (site_app (site_run (firestore_CheckRateLimit (mem_documents (\<lambda>_. False) (\<lambda>_. False)) 7) mem_expire
       disabled_proxies (\<lambda>_. []) (\<lambda>_ rq w. (Answered (http_error ''x'' 404), w))
       [Hit (sample_env 5) CreatePasteRoute (sample_post ''text/plain''), Tidy 7,
        Hit (sample_env 1000000005) CreatePasteRoute (sample_post ''text/plain'')]
       \<lparr>site_limiter = Map.empty, site_requests = Map.empty, site_errors = Map.empty, site_app = ([], ())\<rparr>)))
     (CreatePasteRoute, ''203.0.113.9''))
   \<le> 10 * ((1000000005 - 5) div (60000000000 - 1000) + 1)"
proof -
  have "events_end 5 [Hit (sample_env 5) CreatePasteRoute (sample_post ''text/plain''), Tidy 7,
      Hit (sample_env 1000000005) CreatePasteRoute (sample_post ''text/plain'')] = 1000000005"
    by (simp add: sample_env_def)
  then show ?thesis
    using firestore_routes_limited [OF memory_documents.document_store_axioms, of CreatePasteRoute "''create_paste''" 10 5
        "[Hit (sample_env 5) CreatePasteRoute (sample_post ''text/plain''), Tidy 7,
          Hit (sample_env 1000000005) CreatePasteRoute (sample_post ''text/plain'')]"
        "\<lparr>site_limiter = Map.empty, site_requests = Map.empty, site_errors = Map.empty, site_app = ([], ())\<rparr>"
        "\<lambda>_. False" "\<lambda>_. False" 7 disabled_proxies "\<lambda>_. []" "\<lambda>_ rq w. (Answered (http_error ''x'' 404), w)" "''203.0.113.9''"]
    by (simp add: sample_env_def time_units del: site_run.simps)
qed

end
