(* ===== verification/RedisLimit.thy ===== *)
theory RedisLimit
  imports SlidingLog Site
begin

text \<open>
  \<^verbatim>\<open>src/services/ratelimit_redis.go\<close>: the rate limiter shared through Redis, a sorted set per key that a
  Lua script updates in one atomic step. The commands of Redis are the record \<open>redis\<close> of functions, with the
  documented behaviour of sorted sets and expiring keys as the laws of the locale \<open>sorted_sets\<close>. The
  numbers of the script are \<^verbatim>\<open>float64\<close> values: the nanosecond clock reaches it rounded to a multiple of 256,
  both as the score and, written with 17 digits, as the member.
\<close>

datatype zmember =
    ScriptMember rat \<comment> \<open>the text of a Lua number\<close>
  | PipeMember int \<comment> \<open>the digits of an integer\<close>

text \<open>What becomes of the call of a script: an error may hide that it ran; \<^verbatim>\<open>NilReply\<close> is \<^verbatim>\<open>redis.Nil\<close>.\<close>

datatype call_fate = Served | Refused | ReplyLost | NilReply

record 'r redis =
  z_rem :: "'r \<Rightarrow> string \<Rightarrow> rat \<Rightarrow> 'r" \<comment> \<open>\<^verbatim>\<open>ZREMRANGEBYSCORE key 0 s\<close>\<close>
  z_card :: "'r \<Rightarrow> string \<Rightarrow> nat"
  z_add :: "'r \<Rightarrow> string \<Rightarrow> rat \<Rightarrow> zmember \<Rightarrow> 'r"
  z_expire :: "'r \<Rightarrow> gotime \<Rightarrow> string \<Rightarrow> int \<Rightarrow> 'r"
  z_first :: "'r \<Rightarrow> string \<Rightarrow> (zmember \<times> rat) option" \<comment> \<open>\<^verbatim>\<open>ZRANGE key 0 0 WITHSCORES\<close>\<close>
  z_drop :: "'r \<Rightarrow> string \<Rightarrow> zmember \<Rightarrow> 'r" \<comment> \<open>\<^verbatim>\<open>ZREM\<close>\<close>
  r_fate :: "'r \<Rightarrow> call_fate"

text \<open>Replies: an integer, or the text of a score.\<close>

datatype reply_item = ReplyInt int | ReplyScore rat

text \<open>\<^verbatim>\<open>tonumber\<close>.\<close>

definition lua_number :: "int \<Rightarrow> rat" where
  "lua_number n = round64 (of_int n)"

definition expire_seconds :: "int \<Rightarrow> int" where
  "expire_seconds window_ms = \<lceil>round64 (lua_number window_ms / 1000)\<rceil>"

definition limit_script ::
  "'r redis \<Rightarrow> gotime \<Rightarrow> string \<Rightarrow> int \<Rightarrow> int \<Rightarrow> int \<Rightarrow> int \<Rightarrow> 'r \<Rightarrow> reply_item list \<times> 'r" where
  "limit_script k server_time key t window_start limit window_ms r =
     (let r1 = z_rem k r key (lua_number window_start); count = z_card k r1 key in
      if of_nat count < lua_number limit then
        (let r2 = z_add k r1 key (lua_number t) (ScriptMember (lua_number t));
             r3 = z_expire k r2 server_time key (expire_seconds window_ms)
         in ([ReplyInt 1, ReplyInt (trunc_int (lua_number limit - of_nat count - 1))], r3))
      else (case z_first k r1 key of
         Some (m, score) \<Rightarrow> ([ReplyInt 0, ReplyInt 0, ReplyScore score], r1)
       | None \<Rightarrow> ([ReplyInt 0, ReplyInt 0, ReplyInt 0], r1)))"

text \<open>\<^verbatim>\<open>checkRateLimitFallback\<close>: a pipeline of four commands, each of which sees the effect of those before.\<close>

definition checkRateLimitFallback :: "'r redis \<Rightarrow> gotime \<Rightarrow> string \<Rightarrow> int \<Rightarrow> duration \<Rightarrow> 'r \<Rightarrow> (string + limit_result) \<times> 'r" where
  "checkRateLimitFallback k t key limit window r =
     (if r_fate k r = Refused then (Inl ''redis error'', r)
      else (let r1 = z_rem k r key (round64 (of_int (t - window)));
                r2 = z_add k r1 key (round64 (of_int t)) (PipeMember t);
                count = z_card k r2 key;
                r3 = z_expire k r2 t key (if window < second then 1 else window div second)
            in if r_fate k r = ReplyLost then (Inl ''redis error'', r3)
               else if int count > limit
               then (Inr \<lparr>lr_allowed = False, lr_remaining = 0, lr_reset_at = t + window, lr_retry_after = window\<rparr>,
                     z_drop k r3 key (PipeMember t))
               else (Inr \<lparr>lr_allowed = True, lr_remaining = limit - int count, lr_reset_at = t + window,
                       lr_retry_after = 0\<rparr>, r3)))"

text \<open>The reply as \<^verbatim>\<open>CheckRateLimit\<close> reads it: a type assertion to \<^verbatim>\<open>int64\<close> fails on text.\<close>

fun reply_int :: "reply_item \<Rightarrow> int option" where
  "reply_int (ReplyInt n) = Some n"
| "reply_int (ReplyScore q) = None"

definition read_reply :: "gotime \<Rightarrow> duration \<Rightarrow> duration \<Rightarrow> reply_item list \<Rightarrow> string + limit_result" where
  "read_reply t lag window reply =
     (case reply of
        v0 # v1 # vs \<Rightarrow>
          if reply_int v0 = Some 1 then
            Inr \<lparr>lr_allowed = True, lr_remaining = (case reply_int v1 of Some v \<Rightarrow> v | None \<Rightarrow> 0),
                lr_reset_at = t + window, lr_retry_after = 0\<rparr>
          else
            (let deny = \<lambda>reset retry. Inr \<lparr>lr_allowed = False, lr_remaining = 0, lr_reset_at = reset, lr_retry_after = retry\<rparr>
             in case vs of
                  [] \<Rightarrow> deny zero_time 0
                | v2 # _ \<Rightarrow>
                    (case reply_int v2 of
                       Some oldest \<Rightarrow>
                         if 0 < oldest then deny (oldest + window) (max 0 (time_sub (oldest + window) (t + lag)))
                         else deny zero_time 0
                     | None \<Rightarrow> deny zero_time 0))
      | _ \<Rightarrow> Inl ''unexpected redis response'')"

definition redis_CheckRateLimit :: "'r redis \<Rightarrow> string \<Rightarrow> duration \<Rightarrow> 'r limit_check" where
  "redis_CheckRateLimit k prefix lag t key limit window r =
     (if limit \<le> 0 \<or> window \<le> 0 then (Inl ''invalid limit or window'', r)
      else (case r_fate k r of
         Refused \<Rightarrow> (Inl ''redis error'', r)
       | NilReply \<Rightarrow> checkRateLimitFallback k t (prefix @ key) limit window r
       | fate \<Rightarrow>
           (case limit_script k t (prefix @ key) t (t - window) limit (window div 1000000) r of
              (vals, r') \<Rightarrow>
                (if fate = ReplyLost then Inl ''redis error'' else read_reply t lag window vals, r'))))"

subsection \<open>What the limiter relies on\<close>

locale sorted_sets =
  fixes k :: "'r redis" and sset :: "'r \<Rightarrow> string \<Rightarrow> (zmember \<times> rat) list"
    and deadline :: "'r \<Rightarrow> string \<rightharpoonup> gotime" and evict :: "gotime \<Rightarrow> 'r \<Rightarrow> 'r" and blank :: 'r
  assumes rem: "sset (z_rem k r key s) = (sset r)(key := filter (\<lambda>p. \<not> (0 \<le> snd p \<and> snd p \<le> s)) (sset r key))"
    and rem_deadline: "deadline (z_rem k r key s) key' = deadline r key' \<or> sset (z_rem k r key s) key' = []"
    and card: "z_card k r key = length (sset r key)"
    and add: "mset (sset (z_add k r key s m) key) = add_mset (m, s) (mset (filter (\<lambda>p. fst p \<noteq> m) (sset r key)))"
    and add_other: "key' \<noteq> key \<Longrightarrow> sset (z_add k r key s m) key' = sset r key' \<and> deadline (z_add k r key s m) key' = deadline r key'"
    and expire: "sset (z_expire k r t key n) = sset r \<and> deadline (z_expire k r t key n) = (deadline r)(key \<mapsto> t + n * second)"
    and first: "z_first k r key = (case sset r key of [] \<Rightarrow> None | p # ps \<Rightarrow> Some p)"
    and evicted: "(sset (evict t r) key = sset r key \<and> deadline (evict t r) key = deadline r key) \<or>
      (sset (evict t r) key = [] \<and> (\<exists>d. deadline r key = Some d \<and> d \<le> t))"
    and none_yet: "sset blank key = []"
    and always_a_reply: "r_fate k r \<noteq> NilReply"

text \<open>The clock of the years 2007 to 2042, in nanoseconds.\<close>

definition clock_range :: "gotime \<Rightarrow> bool" where
  "clock_range a \<longleftrightarrow> 2 ^ 60 \<le> a \<and> a \<le> 2 ^ 61"

lemma lua_number_near:
  assumes "1 \<le> a" "a \<le> 2 ^ 61"
  shows "\<bar>lua_number a - of_int a\<bar> \<le> 256"
proof -
  have r: "(1 :: rat) \<le> of_int a" "of_int a \<le> (2 ^ 61 :: rat)"
    using assms of_int_le_iff [of 1 a, where 'a = rat] of_int_le_iff [of a "2 ^ 61", where 'a = rat] by simp_all
  have "pow2 (- 1022) \<le> 1" using pow2_mono [of "- 1022" 0] by simp
  then have "\<bar>lua_number a - of_int a\<bar> \<le> of_int a / 2 ^ 53"
    using round64_error [of "of_int a"] r(1) by (simp add: lua_number_def)
  also have "\<dots> \<le> 256" using r(2) by (simp add: divide_le_eq)
  finally show ?thesis .
qed

lemma lua_number_mono: "a \<le> b \<Longrightarrow> lua_number a \<le> lua_number b"
  by (simp add: lua_number_def round64_mono)

interpretation doubles: sliding_log lua_number "\<lambda>u. lua_number (u - w)" "w - 512" "\<lambda>a. 0 < w \<and> clock_range a"
proof
  fix a u assume a: "0 < w \<and> clock_range a" and u: "0 < w \<and> clock_range u" and le: "lua_number a \<le> lua_number (u - w)"
  have near: "of_int a - 256 \<le> lua_number a"
    using lua_number_near [of a] a by (simp add: clock_range_def abs_le_iff)
  have pos: "1 \<le> u - w"
  proof (rule ccontr)
    assume "\<not> 1 \<le> u - w"
    then have "lua_number (u - w) \<le> lua_number 0" by (intro lua_number_mono) simp
    moreover have "(of_int (2 ^ 60) :: rat) \<le> of_int a" using a unfolding of_int_le_iff clock_range_def by simp
    ultimately show False using near le by (simp add: lua_number_def)
  qed
  have "lua_number (u - w) \<le> of_int (u - w) + 256"
    using lua_number_near [of "u - w"] pos u by (simp add: clock_range_def abs_le_iff)
  then have "(of_int a :: rat) \<le> of_int (u - w + 512)" using near le by simp
  then have "a \<le> u - w + 512" unfolding of_int_le_iff .
  then show "a + (w - 512) \<le> u" by simp
qed (simp_all add: lua_number_mono)

text \<open>The instants logged so far, newest first, against the sorted set of the key.\<close>

definition zlog_inv ::
  "int \<Rightarrow> duration \<Rightarrow> gotime \<Rightarrow> gotime \<Rightarrow> gotime list \<Rightarrow> (zmember \<times> rat) list \<Rightarrow> gotime option \<Rightarrow> bool" where
  "zlog_inv n w t0 t xs es dl \<longleftrightarrow>
     spaced (nat n) (w - 512) xs \<and> (\<forall>a \<in> set xs. t0 \<le> a \<and> a \<le> t) \<and> t0 \<le> t \<and>
     doubles.covers w t xs (map snd es) \<and>
     (es \<noteq> [] \<longrightarrow> (\<forall>d a. dl = Some d \<longrightarrow> a \<in> set xs \<longrightarrow> a + w \<le> d)) \<and>
     distinct (map fst es) \<and> (\<forall>p \<in> set es. fst p = ScriptMember (snd p) \<and> snd p \<in> lua_number ` set xs)"

lemma zlog_inv_start: "t0 \<le> t \<Longrightarrow> zlog_inv n w t0 t [] [] dl"
  by (simp add: zlog_inv_def doubles.covers_def)

lemma zlog_inv_later: "zlog_inv n w t0 t xs es dl \<Longrightarrow> t \<le> u \<Longrightarrow> zlog_inv n w t0 u xs es dl"
  by (auto simp: zlog_inv_def intro: doubles.covers_later)

lemma clock_range_score: "clock_range t0 \<Longrightarrow> zlog_inv n w t0 t xs es dl \<Longrightarrow> p \<in> set es \<Longrightarrow> 0 \<le> snd p"
proof -
  assume a: "clock_range t0" "zlog_inv n w t0 t xs es dl" "p \<in> set es"
  then obtain b where b: "snd p = lua_number b" "t0 \<le> b" by (auto simp: zlog_inv_def)
  have "lua_number 0 \<le> lua_number b" using a(1) b(2) by (intro lua_number_mono) (simp add: clock_range_def)
  then show ?thesis using b by (simp add: lua_number_def)
qed

abbreviation current :: "duration \<Rightarrow> gotime \<Rightarrow> (zmember \<times> rat) list \<Rightarrow> (zmember \<times> rat) list" where
  "current w u es \<equiv> filter (\<lambda>p. lua_number (u - w) < snd p) es"

lemma removed_range:
  assumes "clock_range t0" "zlog_inv n w t0 t xs es dl"
  shows "filter (\<lambda>p. \<not> (0 \<le> snd p \<and> snd p \<le> lua_number (u - w))) es = current w u es"
  using clock_range_score [OF assms] by (intro filter_cong) auto

lemma zlog_inv_trim:
  assumes "zlog_inv n w t0 u xs es dl" "dl' = dl \<or> current w u es = []"
  shows "zlog_inv n w t0 u xs (current w u es) dl'"
proof -
  have "map snd (current w u es) = filter (\<lambda>x. lua_number (u - w) < x) (map snd es)"
    by (simp add: filter_map comp_def)
  then have "doubles.covers w u xs (map snd (current w u es))"
    using assms(1) doubles.covers_current by (simp add: zlog_inv_def)
  moreover have "distinct (map fst (current w u es))"
    using assms(1) by (simp add: zlog_inv_def distinct_map_filter)
  ultimately show ?thesis using assms by (auto simp: zlog_inv_def)
qed

text \<open>Adding the request itself: a new entry, or one that is there already.\<close>

lemma added_entry:
  assumes "zlog_inv n w t0 u xs es dl" "m = ScriptMember (lua_number u)"
    and "mset es' = add_mset (m, lua_number u) (mset (filter (\<lambda>p. fst p \<noteq> m) es))"
  shows "mset es' = mset es \<or> mset es' = mset (es @ [(m, lua_number u)])" "distinct (map fst es')"
    "set es' = insert (m, lua_number u) (set (filter (\<lambda>p. fst p \<noteq> m) es))"
proof -
  have same: "p = (m, lua_number u)" if "p \<in> set es" "fst p = m" for p
    using assms(1,2) that by (cases p) (auto simp: zlog_inv_def)
  show set_es': "set es' = insert (m, lua_number u) (set (filter (\<lambda>p. fst p \<noteq> m) es))"
    using assms(3) by (metis set_mset_add_mset_insert set_mset_mset)
  have dist: "distinct (map fst es)" using assms(1) by (simp add: zlog_inv_def)
  have "mset (map fst es') = add_mset m (mset (map fst (filter (\<lambda>p. fst p \<noteq> m) es)))"
    using assms(3) by simp
  also have "\<dots> = mset (map fst ((m, lua_number u) # filter (\<lambda>p. fst p \<noteq> m) es))" by simp
  finally have "mset (map fst es') = mset (map fst ((m, lua_number u) # filter (\<lambda>p. fst p \<noteq> m) es))" .
  moreover have "distinct (map fst ((m, lua_number u) # filter (\<lambda>p. fst p \<noteq> m) es))"
    using dist by (auto simp: distinct_map_filter)
  ultimately show "distinct (map fst es')" by (metis mset_eq_imp_distinct_iff)
  show "mset es' = mset es \<or> mset es' = mset (es @ [(m, lua_number u)])"
  proof (cases "m \<in> fst ` set es")
    case True
    then have "(m, lua_number u) \<in> set es" using same by force
    then obtain ys zs where es: "es = ys @ (m, lua_number u) # zs" by (meson split_list)
    then have "filter (\<lambda>p. fst p \<noteq> m) ys = ys" "filter (\<lambda>p. fst p \<noteq> m) zs = zs"
      using dist by (auto intro!: filter_True)
    then have "filter (\<lambda>p. fst p \<noteq> m) es = ys @ zs" using es by simp
    then show ?thesis using assms(3) es by simp
  next
    case False
    then have "filter (\<lambda>p. fst p \<noteq> m) es = es" by (auto simp: filter_id_conv)
    then show ?thesis using assms(3) by simp
  qed
qed

lemma zlog_inv_add:
  assumes inv: "zlog_inv n w t0 u xs es dl" and new: "mset es' = add_mset (m, lua_number u) (mset (filter (\<lambda>p. fst p \<noteq> m) es))"
    and m: "m = ScriptMember (lua_number u)" and room: "int (length es) < n"
    and lim: "0 < n" "0 < w" "clock_range t0" "clock_range u" and dl: "u + w \<le> d"
  obtains xs' where "zlog_inv n w t0 u xs' es' (Some d)"
    "lua_number ` set xs' = insert (lua_number u) (lua_number ` set xs)"
proof -
  note added = added_entry [OF inv m new]
  have range: "0 < w \<and> clock_range a" if "a \<in> set xs" for a
    using inv lim that by (auto simp: zlog_inv_def clock_range_def)
  have cov: "doubles.covers w u xs (map snd es)" using inv by (simp add: zlog_inv_def)
  have cov': "doubles.covers w u xs (map snd es')"
    using added(1)
  proof
    assume "mset es' = mset es"
    then have "mset (map snd es) = mset (map snd es')" by simp
    then show ?thesis by (rule doubles.covers_mset [OF cov])
  next
    assume "mset es' = mset (es @ [(m, lua_number u)])"
    then have "mset (map snd es @ [lua_number u]) = mset (map snd es')" by simp
    then show ?thesis by (rule doubles.covers_mset [OF doubles.covers_more [OF cov]])
  qed
  have members: "\<forall>p \<in> set es'. fst p = ScriptMember (snd p) \<and> snd p \<in> insert (lua_number u) (lua_number ` set xs)"
    using inv unfolding added(3) m by (auto simp: zlog_inv_def)
  show thesis
  proof (cases "lua_number u \<in> lua_number ` set xs")
    case True
    have "zlog_inv n w t0 u xs es' (Some d)"
      using inv cov' members added(2) True dl unfolding zlog_inv_def by (auto simp: insert_absorb)
    then show ?thesis using True that by (metis insert_absorb)
  next
    case False
    then have "(m, lua_number u) \<notin> set es" using inv by (auto simp: zlog_inv_def)
    then have "mset es' \<noteq> mset es" using added(3) by (metis insertI1 set_mset_mset)
    then have "mset (map snd es @ [lua_number u]) = mset (map snd es')" using added(1) by simp
    then have cov1: "doubles.covers w u (u # xs) (map snd es')"
      by (rule doubles.covers_mset [OF doubles.covers_admit [OF cov]])
    have "length (filter (\<lambda>x. lua_number (u - w) < x) (map snd es)) \<le> length es"
      using length_filter_le [of _ "map snd es"] by (simp only: length_map)
    then have "length (filter (\<lambda>x. lua_number (u - w) < x) (map snd es)) < nat n" using room by linarith
    note short = this
    have "spaced (nat n) (w - 512) (u # xs)"
      by (rule doubles.spaced_admit [OF _ cov short]) (use inv lim range in \<open>auto simp: zlog_inv_def\<close>)
    then have "zlog_inv n w t0 u (u # xs) es' (Some d)"
      using inv cov1 members added(2) dl unfolding zlog_inv_def by auto
    then show ?thesis using that [of "u # xs"] by simp
  qed
qed

lemma zlog_inv_evicted:
  assumes "zlog_inv n w t0 t xs es (Some d)" "d \<le> u" "t \<le> u"
  shows "zlog_inv n w t0 u xs [] dl"
proof (cases "es = []")
  case True
  then show ?thesis using zlog_inv_later [OF assms(1,3)] by (simp add: zlog_inv_def)
next
  case False
  then have "lua_number a \<le> lua_number (u - w)" if "a \<in> set xs" for a
    using assms that by (intro lua_number_mono) (force simp: zlog_inv_def)
  then have "doubles.covers w u xs []" by (rule doubles.covers_gone)
  then show ?thesis using assms(1,3) by (auto simp: zlog_inv_def)
qed

subsection \<open>What the limiter guarantees\<close>

text \<open>The windows are whole seconds, which a double and \<^verbatim>\<open>EXPIRE\<close> represent.\<close>

lemma expire_covers:
  assumes "0 < s" "s \<le> 3600"
  shows "expire_seconds (s * second div 1000000) = s"
proof -
  have ms: "s * second div 1000000 = s * 1000" by (simp add: second_def)
  have "lua_number (s * 1000) = of_int (s * 1000)"
    unfolding lua_number_def using assms by (intro round64_int) simp
  then have "lua_number (s * 1000) / 1000 = of_int s" by simp
  moreover have "round64 (of_int s :: rat) = of_int s" using assms by (intro round64_int) simp
  ultimately show ?thesis unfolding expire_seconds_def ms by simp
qed

fun lim_instants :: "'rl limit_check \<Rightarrow> (gotime \<Rightarrow> 'rl \<Rightarrow> 'rl) \<Rightarrow> (string \<Rightarrow> int \<times> duration) \<Rightarrow> string \<Rightarrow> rl_op list \<Rightarrow> 'rl \<Rightarrow> gotime set" where
  "lim_instants check tidy lims k [] rl = {}"
| "lim_instants check tidy lims k (x # xs) rl =
     (if lim_admits k x (fst (lim_step check tidy lims x rl)) then {rl_time x} else {}) \<union>
     lim_instants check tidy lims k xs (snd (lim_step check tidy lims x rl))"

context sorted_sets
begin

text \<open>The script, step by step, on the set of its key.\<close>

lemma script_effect:
  assumes inv: "zlog_inv n w t0 u xs (sset r key) (deadline r key)"
    and lim: "0 < n" "n \<le> 10 ^ 8" "0 < s" "s \<le> 3600" "w = s * second" "clock_range t0" "clock_range u"
    and script: "limit_script k u key u (u - w) n (w div 1000000) r = (vals, r')"
  obtains xs' where "zlog_inv n w t0 u xs' (sset r' key) (deadline r' key)"
    "lua_number ` set xs' = (if hd vals = ReplyInt 1 then {lua_number u} else {}) \<union> lua_number ` set xs"
    "2 \<le> length vals"
proof -
  let ?es = "current w u (sset r key)" and ?m = "ScriptMember (lua_number u)"
  define r1 where "r1 = z_rem k r key (lua_number (u - w))"
  have r1: "sset r1 key = ?es" using rem [of r key] removed_range [OF lim(6) inv] by (simp add: r1_def)
  have inv1: "zlog_inv n w t0 u xs (sset r1 key) (deadline r1 key)"
    unfolding r1 using rem_deadline [of r key "lua_number (u - w)" key] r1
    by (intro zlog_inv_trim [OF inv]) (auto simp: r1_def)
  have n: "lua_number n = of_int n" unfolding lua_number_def using lim(1,2) by (intro round64_int) simp
  have e: "expire_seconds (w div 1000000) = s" using expire_covers [OF lim(3,4)] lim(5) by simp
  note script = script [unfolded limit_script_def Let_def r1_def [symmetric] card r1 n e]
  show thesis
  proof (cases "int (length ?es) < n")
    case True
    define r2 where "r2 = z_add k r1 key (lua_number u) ?m"
    have "of_nat (length ?es) < (of_int n :: rat)" using True of_int_less_iff [of "int (length ?es)" n, where 'a = rat] by simp
    then have out: "hd vals = ReplyInt 1" "2 \<le> length vals" "r' = z_expire k r2 u key s"
      using script by (auto simp: r2_def)
    have views: "sset r' key = sset r2 key" "deadline r' key = Some (u + w)"
      using expire [of r2 u key s] out(3) by (simp_all add: lim(5))
    have "mset (sset r2 key) = add_mset (?m, lua_number u) (mset (filter (\<lambda>p. fst p \<noteq> ?m) (sset r1 key)))"
      unfolding r2_def by (rule add)
    moreover have "int (length (sset r1 key)) < n" "0 < w" using True r1 lim(3,5) by (simp_all add: second_def)
    ultimately obtain xs' where "zlog_inv n w t0 u xs' (sset r2 key) (Some (u + w))"
      "lua_number ` set xs' = insert (lua_number u) (lua_number ` set xs)"
      using zlog_inv_add [OF inv1 _ refl _ lim(1) _ lim(6,7), of "sset r2 key" "u + w"] by auto
    then show ?thesis using that out(1,2) views by simp
  next
    case False
    then have "\<not> of_nat (length ?es) < (of_int n :: rat)" using of_int_less_iff [of "int (length ?es)" n, where 'a = rat] by simp
    then have "hd vals = ReplyInt 0" "2 \<le> length vals" "r' = r1"
      using script by (auto split: option.splits)
    then show ?thesis using that inv1 by simp
  qed
qed

lemma script_other:
  assumes "limit_script k u key' u ws n ms r = (vals, r')" "key \<noteq> key'"
  shows "sset r' key = sset r key \<and> (deadline r' key = deadline r key \<or> sset r key = [])"
proof -
  define r1 where "r1 = z_rem k r key' (lua_number ws)"
  have r1: "sset r1 key = sset r key" "deadline r1 key = deadline r key \<or> sset r key = []"
    using rem [of r key' "lua_number ws"] rem_deadline [of r key' "lua_number ws" key] assms(2) by (auto simp: r1_def)
  have "r' = r1 \<or> (\<exists>q m s t e. r' = z_expire k (z_add k r1 key' q m) t key' e)"
    using assms(1) by (auto simp: limit_script_def Let_def r1_def split: if_splits option.splits)
  then show ?thesis
    using r1 add_other [OF assms(2)] expire assms(2) by auto
qed

lemma read_reply_admits: "is_admitted (read_reply t lag w vals) \<Longrightarrow> hd vals = ReplyInt 1"
  by (cases vals; cases "hd vals") (auto simp: read_reply_def is_admitted_def Let_def split: list.splits option.splits if_splits)

lemma check_effect:
  assumes inv: "zlog_inv n w t0 t xs (sset r (prefix @ key)) (deadline r (prefix @ key))" "t \<le> u"
    and lim: "0 < n" "n \<le> 10 ^ 8" "0 < s" "s \<le> 3600" "w = s * second" "clock_range t0" "clock_range u"
    and check: "redis_CheckRateLimit k prefix lag u key n w r = (y, r')"
  shows "\<exists>xs'. zlog_inv n w t0 u xs' (sset r' (prefix @ key)) (deadline r' (prefix @ key)) \<and>
    (if is_admitted y then {lua_number u} else {}) \<union> lua_number ` set xs \<subseteq> lua_number ` set xs'"
proof -
  let ?K = "prefix @ key"
  have inv': "zlog_inv n w t0 u xs (sset r ?K) (deadline r ?K)" using zlog_inv_later [OF inv] .
  have w: "0 < w" using lim(3,5) by (simp add: second_def)
  obtain vals r1 where script: "limit_script k u ?K u (u - w) n (w div 1000000) r = (vals, r1)" by fastforce
  obtain xs' where xs': "zlog_inv n w t0 u xs' (sset r1 ?K) (deadline r1 ?K)"
    "lua_number ` set xs' = (if hd vals = ReplyInt 1 then {lua_number u} else {}) \<union> lua_number ` set xs"
    by (rule script_effect [OF inv' lim script])
  note check = check [unfolded redis_CheckRateLimit_def script]
  consider (no) "r_fate k r = Refused" | (ok) "r_fate k r = Served" | (lost) "r_fate k r = ReplyLost"
    using always_a_reply by (cases "r_fate k r") auto
  then show ?thesis
  proof cases
    case no
    then have "r' = r" "\<not> is_admitted y" using check w lim(1) by (auto simp: is_admitted_def)
    then show ?thesis using inv' by auto
  next
    case ok
    then have "r' = r1" "y = read_reply u lag w vals" using check w lim(1) by auto
    then show ?thesis using xs' read_reply_admits [of u lag w vals] by (intro exI [of _ xs']) auto
  next
    case lost
    then have "r' = r1" "\<not> is_admitted y" using check w lim(1) by (auto simp: is_admitted_def)
    then show ?thesis using xs' by (intro exI [of _ xs']) auto
  qed
qed

lemma check_other:
  assumes "redis_CheckRateLimit k prefix lag u key' n w r = (y, r')" "key \<noteq> key'"
  shows "sset r' (prefix @ key) = sset r (prefix @ key) \<and>
    (deadline r' (prefix @ key) = deadline r (prefix @ key) \<or> sset r (prefix @ key) = [])"
proof -
  obtain vals r1 where script: "limit_script k u (prefix @ key') u (u - w) n (w div 1000000) r = (vals, r1)" by fastforce
  have "r' = r \<or> r' = r1"
    using assms(1) always_a_reply [of r] unfolding redis_CheckRateLimit_def script
    by (auto split: if_splits call_fate.splits)
  then show ?thesis using script_other [OF script, of "prefix @ key"] assms(2) by auto
qed

lemma run_log:
  assumes "lims key = (n, w)" "0 < n" "n \<le> 10 ^ 8" "0 < s" "s \<le> 3600" "w = s * second" "clock_range t0"
  shows "zlog_inv n w t0 t xs (sset r (prefix @ key)) (deadline r (prefix @ key)) \<Longrightarrow> clock_from t ops \<Longrightarrow>
    clock_range (last_time t ops) \<Longrightarrow>
    \<exists>xs'. spaced (nat n) (w - 512) xs' \<and> (\<forall>a \<in> set xs'. t0 \<le> a \<and> a \<le> last_time t ops) \<and>
      lua_number ` (set xs \<union> lim_instants (redis_CheckRateLimit k prefix lag) evict lims key ops r) \<subseteq> lua_number ` set xs'"
proof (induction ops arbitrary: t xs r)
  case Nil
  then show ?case by (intro exI [of _ xs]) (auto simp: zlog_inv_def)
next
  case (Cons op ops)
  let ?K = "prefix @ key"
  obtain y r1 where st: "lim_step (redis_CheckRateLimit k prefix lag) evict lims op r = (y, r1)" by fastforce
  have t: "t \<le> rl_time op" "clock_from (rl_time op) ops" "clock_range (last_time (rl_time op) ops)"
    using Cons.prems(2,3) by simp_all
  have now: "clock_range (rl_time op)"
  proof -
    have "t0 \<le> t" using Cons.prems(1) by (simp add: zlog_inv_def)
    then show ?thesis using t last_time_mono [OF t(2)] assms(7) by (simp add: clock_range_def)
  qed
  have "\<exists>xs1. zlog_inv n w t0 (rl_time op) xs1 (sset r1 ?K) (deadline r1 ?K) \<and>
      (if lim_admits key op y then {lua_number (rl_time op)} else {}) \<union> lua_number ` set xs \<subseteq> lua_number ` set xs1"
  proof (cases op)
    case (RCheck u key')
    then obtain a where a: "redis_CheckRateLimit k prefix lag u key' (fst (lims key')) (snd (lims key')) r = (a, r1)" "y = Some a"
      using st by (auto split: prod.splits)
    show ?thesis
    proof (cases "key = key'")
      case True
      then show ?thesis
        using check_effect [OF Cons.prems(1) _ assms(2-7), of u lag a r1] a RCheck t now assms(1) by (auto split: if_splits)
    next
      case False
      have "zlog_inv n w t0 u xs (sset r1 ?K) (deadline r1 ?K)"
        using check_other [OF a(1) False] zlog_inv_later [OF Cons.prems(1), of u] RCheck t by (auto simp: zlog_inv_def)
      then show ?thesis using a False RCheck by auto
    qed
  next
    case (RCleanup u)
    then have e: "r1 = evict u r" "y = None" using st by auto
    have "zlog_inv n w t0 u xs (sset r1 ?K) (deadline r1 ?K)"
      using evicted [of u r ?K] zlog_inv_later [OF Cons.prems(1), of u] zlog_inv_evicted [of n w t0 t xs "sset r ?K" _ u]
        Cons.prems(1) RCleanup t e by auto
    then show ?thesis using RCleanup e by auto
  qed
  then obtain xs1 where xs1: "zlog_inv n w t0 (rl_time op) xs1 (sset r1 ?K) (deadline r1 ?K)"
    "(if lim_admits key op y then {lua_number (rl_time op)} else {}) \<union> lua_number ` set xs \<subseteq> lua_number ` set xs1" by blast
  from Cons.IH [OF xs1(1) t(2,3)] obtain xs' where xs': "spaced (nat n) (w - 512) xs'"
    "\<forall>a \<in> set xs'. t0 \<le> a \<and> a \<le> last_time (rl_time op) ops"
    "lua_number ` (set xs1 \<union> lim_instants (redis_CheckRateLimit k prefix lag) evict lims key ops r1) \<subseteq> lua_number ` set xs'"
    by blast
  have up: "lua_number ` set xs1 \<subseteq> lua_number ` set xs'"
    "lua_number ` lim_instants (redis_CheckRateLimit k prefix lag) evict lims key ops r1 \<subseteq> lua_number ` set xs'"
    using xs'(3) by (simp_all add: image_Un)
  have "(if lim_admits key op y then {lua_number (rl_time op)} else {}) \<union> lua_number ` set xs \<subseteq> lua_number ` set xs'"
    using xs1(2) up(1) by (rule subset_trans)
  then have "lua_number ` (set xs \<union> lim_instants (redis_CheckRateLimit k prefix lag) evict lims key (op # ops) r) \<subseteq>
      lua_number ` set xs'"
    using up(2) by (cases "lim_admits key op y") (simp_all add: st image_Un)
  moreover have "\<forall>a \<in> set xs'. t0 \<le> a \<and> a \<le> last_time t (op # ops)" using xs'(2) by simp
  ultimately show ?case using xs'(1) by blast
qed

lemma instants_in_windows:
  assumes "lims key = (n, s * second)" "0 < n" "n \<le> 10 ^ 8" "0 < s" "s \<le> 3600"
    and "clock_range t" "clock_from t ops" "clock_range (last_time t ops)"
  shows "int (card (lua_number ` lim_instants (redis_CheckRateLimit k prefix lag) evict lims key ops blank)) \<le>
    n * ((last_time t ops - t) div (s * second - 512) + 1)"
proof -
  let ?I = "lim_instants (redis_CheckRateLimit k prefix lag) evict lims key ops blank"
  have "zlog_inv n (s * second) t t [] (sset blank (prefix @ key)) (deadline blank (prefix @ key))"
    using none_yet zlog_inv_start by simp
  from run_log [where lims = lims and key = key and r = blank and prefix = prefix and lag = lag,
      OF assms(1-5) refl assms(6) this assms(7,8)]
  obtain xs where xs: "spaced (nat n) (s * second - 512) xs" "\<forall>a \<in> set xs. t \<le> a \<and> a \<le> last_time t ops"
    "lua_number ` ?I \<subseteq> lua_number ` set xs" by auto
  have "card (lua_number ` ?I) \<le> card (lua_number ` set xs)" using xs(3) by (intro card_mono) simp_all
  also have "\<dots> \<le> length xs" by (meson card_image_le card_length finite_set order_trans)
  finally have "int (card (lua_number ` ?I)) \<le> int (length xs)" by simp
  also have "\<dots> \<le> int (nat n) * ((last_time t ops - t) div (s * second - 512) + 1)"
    using xs(1,2) assms(2,4) last_time_mono [OF assms(7)] by (intro spaced_length) (auto simp: second_def)
  finally show ?thesis using assms(2) by simp
qed

end

subsection \<open>Sorted sets in memory\<close>

record mem_redis =
  mr_sets :: "string \<Rightarrow> (zmember \<times> rat) list"
  mr_deadline :: "string \<rightharpoonup> gotime"

fun zinsert :: "zmember \<times> rat \<Rightarrow> (zmember \<times> rat) list \<Rightarrow> (zmember \<times> rat) list" where
  "zinsert p [] = [p]"
| "zinsert p (q # es) = (if snd p < snd q then p # q # es else q # zinsert p es)"

lemma mset_zinsert [simp]: "mset (zinsert p es) = add_mset p (mset es)"
  by (induction es) auto

definition mem_redis_calls :: "call_fate \<Rightarrow> mem_redis redis" where
  "mem_redis_calls fate =
     \<lparr>z_rem = (\<lambda>r key s. r\<lparr>mr_sets := (mr_sets r)(key := filter (\<lambda>p. \<not> (0 \<le> snd p \<and> snd p \<le> s)) (mr_sets r key))\<rparr>),
      z_card = (\<lambda>r key. length (mr_sets r key)),
      z_add = (\<lambda>r key s m. r\<lparr>mr_sets := (mr_sets r)(key := zinsert (m, s) (filter (\<lambda>p. fst p \<noteq> m) (mr_sets r key)))\<rparr>),
      z_expire = (\<lambda>r t key n. r\<lparr>mr_deadline := (mr_deadline r)(key \<mapsto> t + n * second)\<rparr>),
      z_first = (\<lambda>r key. case mr_sets r key of [] \<Rightarrow> None | p # ps \<Rightarrow> Some p),
      z_drop = (\<lambda>r key m. r\<lparr>mr_sets := (mr_sets r)(key := filter (\<lambda>p. fst p \<noteq> m) (mr_sets r key))\<rparr>),
      r_fate = (\<lambda>r. if fate = NilReply then Served else fate)\<rparr>"

definition mem_evict :: "gotime \<Rightarrow> mem_redis \<Rightarrow> mem_redis" where
  "mem_evict t r = r\<lparr>mr_sets := (\<lambda>key. case mr_deadline r key of Some d \<Rightarrow> if d \<le> t then [] else mr_sets r key
     | None \<Rightarrow> mr_sets r key)\<rparr>"

definition no_sets :: mem_redis where "no_sets = \<lparr>mr_sets = (\<lambda>_. []), mr_deadline = Map.empty\<rparr>"

interpretation memory_sets: sorted_sets "mem_redis_calls fate" mr_sets mr_deadline mem_evict no_sets
  by unfold_locales (auto simp: mem_redis_calls_def mem_evict_def no_sets_def split: option.split)

text \<open>C29: What the Redis limiter guarantees. For a limit of \<open>n\<close> in windows of \<open>s\<close> seconds, whichever calls fail or
  lose their answer and whenever expired keys are evicted, the instants at which requests under one key
  are admitted fall, as the script sees them (in steps of 256 nanoseconds), on at most \<open>n\<close> different values in
  any window less 512 nanoseconds.\<close>

theorem redis_instants_limited:
  assumes "sorted_sets k sset deadline evict blank" "lims key = (n, s * second)" "0 < n" "n \<le> 10 ^ 8" "0 < s" "s \<le> 3600"
    and "clock_range t" "clock_from t ops" "clock_range (last_time t ops)"
  shows "int (card (lua_number ` lim_instants (redis_CheckRateLimit k prefix lag) evict lims key ops blank)) \<le>
    n * ((last_time t ops - t) div (s * second - 512) + 1)"
  by (rule sorted_sets.instants_in_windows [where lims = lims and key = key, OF assms])

theorem redis_instants_limited_witness:
  "int (card (lua_number ` lim_instants (redis_CheckRateLimit (mem_redis_calls Served) ''p:'' 0) mem_evict (\<lambda>_. (2, 60 * second))
      ''a'' [RCheck (2 ^ 60) ''a'', RCleanup (2 ^ 60 + 9), RCheck (2 ^ 60 + 1000) ''a'', RCheck (2 ^ 60 + 2000) ''a''] no_sets)) \<le>
   2 * (2000 div (60 * second - 512) + 1)"
  using redis_instants_limited [OF memory_sets.sorted_sets_axioms, of "\<lambda>_. (2, 60 * second)" "''a''" 2 60 "2 ^ 60"
      "[RCheck (2 ^ 60) ''a'', RCleanup (2 ^ 60 + 9), RCheck (2 ^ 60 + 1000) ''a'', RCheck (2 ^ 60 + 2000) ''a'']" Served "''p:''" 0]
  by (simp add: clock_range_def second_def del: lim_instants.simps)

text \<open>A refusal never says when to come back: the script answers the oldest score as text, which the type assertion
  to \<^verbatim>\<open>int64\<close> rejects.\<close>

lemma redis_refusal_without_retry:
  assumes "redis_CheckRateLimit k prefix lag t key n w r = (Inr a, r')" "\<not> lr_allowed a" "r_fate k r \<noteq> NilReply"
  shows "lr_reset_at a = zero_time \<and> lr_retry_after a = 0"
proof -
  obtain vals r1 where script: "limit_script k t (prefix @ key) t (t - w) n (w div 1000000) r = (vals, r1)" by fastforce
  have vals: "\<exists>v. vals = [ReplyInt 1, v] \<or> (\<exists>q. vals = [ReplyInt 0, ReplyInt 0, ReplyScore q]) \<or>
      vals = [ReplyInt 0, ReplyInt 0, ReplyInt 0]"
    using script by (auto simp: limit_script_def Let_def split: if_splits option.splits)
  have "read_reply t lag w vals = Inr a"
    using assms(1,3) unfolding redis_CheckRateLimit_def script by (auto split: if_splits call_fate.splits)
  then show ?thesis using vals assms(2) by (auto simp: read_reply_def Let_def)
qed

context sorted_sets
begin

lemma same_instant_step:
  assumes "\<forall>r. r_fate k r = Served" "2 \<le> n" "n \<le> 10 ^ 8" "0 < s" "s \<le> 3600" "clock_range t"
    and "sset r (prefix @ key) = [] \<or> sset r (prefix @ key) = [(ScriptMember (lua_number t), lua_number t)]"
    and "redis_CheckRateLimit k prefix lag t key n (s * second) r = (y, r')"
  shows "is_admitted y \<and> sset r' (prefix @ key) = [(ScriptMember (lua_number t), lua_number t)]"
proof -
  let ?K = "prefix @ key" and ?e = "(ScriptMember (lua_number t), lua_number t)"
  define w where "w = s * second"
  have w: "1000000000 \<le> w" "w \<le> 3600000000000" using assms(4,5) by (simp_all add: w_def second_def)
  have old: "\<not> lua_number t \<le> lua_number (t - w)"
    using doubles.expired [of w t t] w assms(6) by auto
  define r1 where "r1 = z_rem k r ?K (lua_number (t - w))"
  have r1: "sset r1 ?K = [] \<or> sset r1 ?K = [?e]" using rem [of r ?K "lua_number (t - w)"] assms(7) old by (auto simp: r1_def)
  have n: "lua_number n = of_int n" unfolding lua_number_def using assms(2,3) by (intro round64_int) simp
  have "(of_int 1 :: rat) < of_int n" using assms(2) by (subst of_int_less_iff) simp
  then have few: "of_nat (z_card k r1 ?K) < lua_number n" using r1 n by (auto simp: card)
  define r2 where "r2 = z_add k r1 ?K (lua_number t) (fst ?e)"
  have "mset (sset r2 ?K) = mset [?e]" using add [of r1 ?K "lua_number t" "fst ?e"] r1 by (auto simp: r2_def)
  then have r2: "sset r2 ?K = [?e]" by simp
  have "limit_script k t ?K t (t - w) n (w div 1000000) r =
      ([ReplyInt 1, ReplyInt (trunc_int (lua_number n - of_nat (z_card k r1 ?K) - 1))],
       z_expire k r2 t ?K (expire_seconds (w div 1000000)))"
    using few by (simp add: limit_script_def Let_def r1_def [symmetric] r2_def)
  then show ?thesis
    using assms(1,2,8) w r2 expire
    by (auto simp: redis_CheckRateLimit_def w_def [symmetric] read_reply_def is_admitted_def split: if_splits)
qed

lemma same_instant_run:
  assumes "\<forall>r. r_fate k r = Served" "lims key = (n, s * second)" "2 \<le> n" "n \<le> 10 ^ 8" "0 < s" "s \<le> 3600"
  shows "\<forall>t \<in> set ts. clock_range t \<and> lua_number t = q \<Longrightarrow>
    sset r (prefix @ key) = [] \<or> sset r (prefix @ key) = [(ScriptMember q, q)] \<Longrightarrow>
    lim_admitted (redis_CheckRateLimit k prefix lag) evict lims key (map (\<lambda>t. RCheck t key) ts) r = length ts"
proof (induction ts arbitrary: r)
  case (Cons t ts)
  obtain y r' where c: "redis_CheckRateLimit k prefix lag t key n (s * second) r = (y, r')" by fastforce
  have "is_admitted y \<and> sset r' (prefix @ key) = [(ScriptMember q, q)]"
    using same_instant_step [OF assms(1,3-6) _ _ c] Cons.prems by auto
  then show ?case using Cons.IH [of r'] Cons.prems(1) by (simp add: assms(2) c)
qed simp

end

text \<open>The Redis limiter does not limit requests that come fast enough. With a limit of at least two, any number of
  requests under a key within the same 256 nanoseconds are all admitted: the script sees one
  instant, they are one member of the sorted set, and the count never exceeds one.\<close>

theorem redis_same_instant_unlimited:
  assumes "sorted_sets k sset deadline evict blank" "\<forall>r. r_fate k r = Served" "lims key = (n, s * second)" "2 \<le> n" "n \<le> 10 ^ 8"
    and "0 < s" "s \<le> 3600" "\<forall>t \<in> set ts. clock_range t \<and> lua_number t = q"
  shows "lim_admitted (redis_CheckRateLimit k prefix lag) evict lims key (map (\<lambda>t. RCheck t key) ts) blank = length ts"
  by (rule sorted_sets.same_instant_run [where lims = lims and key = key, OF assms])
    (simp add: sorted_sets.none_yet [OF assms(1)])

lemma sample_instants: "lua_number 1152921504606846976 = 1152921504606846976" "lua_number 1152921504606847076 = 1152921504606846976"
proof -
  have e: "unit_exponent 1152921504606846976 = 8" "unit_exponent 1152921504606847076 = 8"
    using ilog2_eq [of 60 1152921504606846976] ilog2_eq [of 60 1152921504606847076]
    by (simp_all add: unit_exponent_def pow2_def)
  have "\<lfloor>288230376151711769 / 64 :: rat\<rfloor> = 4503599627370496" by (intro floor_unique) simp_all
  then show "lua_number 1152921504606846976 = 1152921504606846976" "lua_number 1152921504606847076 = 1152921504606846976"
    by (simp_all add: lua_number_def round64_pos e pow2_def round_even_def Let_def)
qed

theorem redis_same_instant_unlimited_witness:
  "lim_admitted (redis_CheckRateLimit (mem_redis_calls Served) ''p:'' 0) mem_evict (\<lambda>_. (10, 60 * second)) ''a''
     (map (\<lambda>t. RCheck t ''a'') (replicate 500 (2 ^ 60) @ replicate 500 (2 ^ 60 + 100))) no_sets =
   length (replicate 500 (2 ^ 60 :: int) @ replicate 500 (2 ^ 60 + 100))"
  by (rule redis_same_instant_unlimited [OF memory_sets.sorted_sets_axioms, of Served _ _ 10 60 _ "2 ^ 60"])
    (auto simp: mem_redis_calls_def clock_range_def sample_instants)

end
