(* ===== verification/Secrets.thy ===== *)
theory Secrets
  imports Http
begin

text \<open>
  \<^verbatim>\<open>src/config/secrets.go\<close>, \<^verbatim>\<open>secrets_gcp.go\<close> and \<^verbatim>\<open>secrets_nogcp.go\<close>: configuration values from the environment, an
  env file that is read into it, or Google's Secret Manager. The state is the process environment, the files, and
  the provider once \<^verbatim>\<open>Initialize\<close> has chosen it; the answers of Secret Manager are an argument. Nil
  errors are \<^const>\<open>None\<close>, log lines are left out.
\<close>

type_synonym environ = "string \<rightharpoonup> string"

datatype file_state = Missing | Unreadable | Contents string

record env_provider =
  ep_file :: string
  ep_loaded :: bool

record gcp_provider =
  gp_project :: string
  gp_cache :: "string \<rightharpoonup> string"

datatype provider = EnvProvider env_provider | GCPProvider gcp_provider

record config_state =
  cs_environ :: environ
  cs_files :: "string \<Rightarrow> file_state"
  cs_provider :: "provider option"

subsection \<open>The environment\<close>

definition nul :: char where "nul = CHR 0x00"

definition os_getenv :: "string \<Rightarrow> environ \<Rightarrow> string" where
  "os_getenv key e = (case e key of None \<Rightarrow> [] | Some v \<Rightarrow> v)"

text \<open>\<^verbatim>\<open>os.Setenv\<close> refuses an empty name, a name with an equals sign and NUL bytes; the callers ignore that.\<close>

definition os_setenv :: "string \<Rightarrow> string \<Rightarrow> environ \<Rightarrow> environ" where
  "os_setenv key v e =
     (if key = [] \<or> CHR ''='' \<in> set key \<or> nul \<in> set key \<or> nul \<in> set v then e else e(key \<mapsto> v))"

subsection \<open>The env file\<close>

definition unquote_value :: "string \<Rightarrow> string" where
  "unquote_value v =
     (if length v \<ge> 2 \<and> ((hd v = CHR 34 \<and> last v = CHR 34) \<or> (hd v = CHR 39 \<and> last v = CHR 39))
      then butlast (tl v) else v)"

definition env_line :: "string \<Rightarrow> environ \<Rightarrow> environ" where
  "env_line raw e =
     (let line = trim_space raw in
      if line = [] \<or> has_prefix line ''#'' then e
      else (case split_n2 (CHR ''='') line of
         [k, v] \<Rightarrow> os_setenv (trim_space k) (unquote_value (trim_space v)) e
       | _ \<Rightarrow> e))"

definition loadEnvFile :: "file_state \<Rightarrow> environ \<Rightarrow> environ option" where
  "loadEnvFile f e =
     (case f of Contents d \<Rightarrow> Some (fold env_line (split_char (CHR 10) d) e) | _ \<Rightarrow> None)"

subsection \<open>Providers\<close>

definition file_exists :: "file_state \<Rightarrow> bool" where
  "file_exists f = (f \<noteq> Missing)"

text \<open>\<^verbatim>\<open>EnvSecretProvider.LoadSecrets\<close>: the error and the state.\<close>

definition env_LoadSecrets :: "env_provider \<Rightarrow> config_state \<Rightarrow> string option \<times> env_provider \<times> config_state" where
  "env_LoadSecrets p s =
     (if ep_loaded p then (None, p, s)
      else if ep_file p \<noteq> [] \<and> file_exists (cs_files s (ep_file p)) then
        (case loadEnvFile (cs_files s (ep_file p)) (cs_environ s) of
           None \<Rightarrow> (Some ''failed to load env file'', p, s)
         | Some e \<Rightarrow> (None, p\<lparr>ep_loaded := True\<rparr>, s\<lparr>cs_environ := e\<rparr>))
      else (None, p\<lparr>ep_loaded := True\<rparr>, s))"

definition env_GetSecret :: "env_provider \<Rightarrow> string \<Rightarrow> config_state \<Rightarrow> (string + string) \<times> env_provider \<times> config_state" where
  "env_GetSecret p key s =
     (case (if ep_loaded p then (None, p, s) else env_LoadSecrets p s) of
        (Some err, p1, s1) \<Rightarrow> (Inl err, p1, s1)
      | (None, p1, s1) \<Rightarrow>
          (let v = os_getenv key (cs_environ s1) in
           if v = [] then (Inl (''secret '' @ key @ '' not found in environment''), p1, s1) else (Inr v, p1, s1)))"

text \<open>Secret Manager: what it answers to the full name of a version.\<close>

type_synonym secret_manager = "string \<Rightarrow> string option"

definition secret_version :: "string \<Rightarrow> string \<Rightarrow> string" where
  "secret_version project key =
     ''projects/'' @ project @ ''/secrets/'' @ to_lower (replace_all ''_'' ''-'' key) @ ''/versions/latest''"

definition gcp_GetSecret :: "secret_manager \<Rightarrow> gcp_provider \<Rightarrow> string \<Rightarrow> (string + string) \<times> gcp_provider" where
  "gcp_GetSecret access p key =
     (case gp_cache p key of
        Some v \<Rightarrow> (Inr v, p)
      | None \<Rightarrow>
          (case access (secret_version (gp_project p) key) of
             None \<Rightarrow> (Inl (''failed to access secret '' @ key), p)
           | Some v \<Rightarrow> (Inr v, p\<lparr>gp_cache := (gp_cache p)(key \<mapsto> v)\<rparr>)))"

text \<open>\<^verbatim>\<open>initGCPProvider\<close>: the build may lack it (\<^const>\<open>None\<close>), else its client can be created or not.\<close>

definition initGCPProvider :: "bool option \<Rightarrow> environ \<Rightarrow> string + provider" where
  "initGCPProvider support e =
     (case support of
        None \<Rightarrow> Inl ''GCP Secret Manager not available (build with -tags gcp)''
      | Some client_ok \<Rightarrow>
          (let project = os_getenv ''GOOGLE_CLOUD_PROJECT'' e in
           if project = [] then Inl ''GOOGLE_CLOUD_PROJECT not set''
           else if \<not> client_ok then Inl ''failed to initialize GCP provider''
           else Inr (GCPProvider \<lparr>gp_project = project, gp_cache = Map.empty\<rparr>)))"

text \<open>\<^verbatim>\<open>filepath.Join("..", s)\<close>: the joined path is cleaned.\<close>

fun clean_parts :: "string list \<Rightarrow> string list \<Rightarrow> string list" where
  "clean_parts acc [] = rev acc"
| "clean_parts acc (p # ps) =
     (if p = [] \<or> p = ''.'' then clean_parts acc ps
      else if p = ''..'' \<and> acc \<noteq> [] \<and> hd acc \<noteq> ''..'' then clean_parts (tl acc) ps
      else clean_parts (p # acc) ps)"

definition join_parent :: "string \<Rightarrow> string" where
  "join_parent s =
     (let ps = clean_parts [] (''..'' # split_char (CHR ''/'') s) in
      if ps = [] then ''.'' else join_char (CHR ''/'') ps)"

definition env_file_path :: "config_state \<Rightarrow> string" where
  "env_file_path s =
     (let custom = os_getenv ''ENV_FILE'' (cs_environ s); f = (if custom \<noteq> [] then custom else ''.env'') in
      if \<not> file_exists (cs_files s f) \<and> file_exists (cs_files s (join_parent f)) then join_parent f else f)"

text \<open>\<^verbatim>\<open>Initialize\<close> always succeeds; an env file that cannot be read is tried again by the first lookup.\<close>

definition Initialize :: "bool option \<Rightarrow> config_state \<Rightarrow> config_state" where
  "Initialize support s =
     (if cs_provider s \<noteq> None then s
      else (case (if os_getenv ''USE_SECRET_MANAGER'' (cs_environ s) = ''true''
                  then initGCPProvider support (cs_environ s) else Inl []) of
         Inr p \<Rightarrow> s\<lparr>cs_provider := Some p\<rparr>
       | Inl _ \<Rightarrow>
           (case env_LoadSecrets \<lparr>ep_file = env_file_path s, ep_loaded = False\<rparr> s of
              (_, p, s1) \<Rightarrow> s1\<lparr>cs_provider := Some (EnvProvider p)\<rparr>)))"

definition GetSecret :: "secret_manager \<Rightarrow> string \<Rightarrow> config_state \<Rightarrow> (string + string) \<times> config_state" where
  "GetSecret access key s =
     (case cs_provider s of
        None \<Rightarrow> (Inl ''secret provider not initialized'', s)
      | Some (EnvProvider p) \<Rightarrow>
          (case env_GetSecret p key s of (r, p1, s1) \<Rightarrow> (r, s1\<lparr>cs_provider := Some (EnvProvider p1)\<rparr>))
      | Some (GCPProvider p) \<Rightarrow>
          (case gcp_GetSecret access p key of (r, p1) \<Rightarrow> (r, s\<lparr>cs_provider := Some (GCPProvider p1)\<rparr>)))"

definition GetSecretOrDefault :: "secret_manager \<Rightarrow> string \<Rightarrow> string \<Rightarrow> config_state \<Rightarrow> string \<times> config_state" where
  "GetSecretOrDefault access key dflt s =
     (case GetSecret access key s of (Inl _, s1) \<Rightarrow> (dflt, s1) | (Inr v, s1) \<Rightarrow> (v, s1))"

text \<open>\<^const>\<open>None\<close> is the end of the program.\<close>

definition MustGetSecret :: "secret_manager \<Rightarrow> string \<Rightarrow> config_state \<Rightarrow> (string \<times> config_state) option" where
  "MustGetSecret access key s =
     (case GetSecret access key s of (Inl _, s1) \<Rightarrow> None | (Inr v, s1) \<Rightarrow> Some (v, s1))"

subsection \<open>Lookups do not disturb each other\<close>

definition secret_value :: "secret_manager \<Rightarrow> string \<Rightarrow> config_state \<Rightarrow> string option" where
  "secret_value access key s = (case fst (GetSecret access key s) of Inl _ \<Rightarrow> None | Inr v \<Rightarrow> Some v)"

definition value_or :: "secret_manager \<Rightarrow> string \<Rightarrow> string \<Rightarrow> config_state \<Rightarrow> string" where
  "value_or access key dflt s = (case secret_value access key s of None \<Rightarrow> dflt | Some v \<Rightarrow> v)"

lemma GetSecretOrDefault_eq:
  "GetSecretOrDefault access key dflt s = (value_or access key dflt s, snd (GetSecret access key s))"
  by (simp add: GetSecretOrDefault_def value_or_def secret_value_def split: prod.split sum.split)

lemma MustGetSecret_eq:
  "MustGetSecret access key s = map_option (\<lambda>v. (v, snd (GetSecret access key s))) (secret_value access key s)"
  by (simp add: MustGetSecret_def secret_value_def split: prod.split sum.split)

lemma env_lookup_loads:
  "env_GetSecret p key s =
     (case env_LoadSecrets p s of
        (Some err, p1, s1) \<Rightarrow> (Inl err, p1, s1)
      | (None, p1, s1) \<Rightarrow>
          (let v = os_getenv key (cs_environ s1) in
           if v = [] then (Inl (''secret '' @ key @ '' not found in environment''), p1, s1) else (Inr v, p1, s1)))"
  by (auto simp: env_GetSecret_def env_LoadSecrets_def)

lemma load_again:
  assumes "env_LoadSecrets p s = (x, p1, s1)"
  shows "env_LoadSecrets p1 (s1\<lparr>cs_provider := q\<rparr>) = (x, p1, s1\<lparr>cs_provider := q\<rparr>)"
  using assms by (auto simp: env_LoadSecrets_def split: if_splits option.splits)

lemma secret_value_stable [simp]:
  "secret_value access key (snd (GetSecret access key' s)) = secret_value access key s"
proof (cases "cs_provider s")
  case None
  then show ?thesis by (simp add: GetSecret_def)
next
  case (Some q)
  show ?thesis
  proof (cases q)
    case (EnvProvider p)
    obtain x p1 s1 where load: "env_LoadSecrets p s = (x, p1, s1)" by (cases "env_LoadSecrets p s") auto
    then show ?thesis using Some EnvProvider load_again [OF load, of "Some (EnvProvider p1)"]
      by (auto simp: secret_value_def GetSecret_def env_lookup_loads Let_def split: option.split)
  next
    case (GCPProvider p)
    then show ?thesis using Some
      by (auto simp: secret_value_def GetSecret_def gcp_GetSecret_def split: option.split)
  qed
qed

lemma value_or_stable [simp]: "value_or access key dflt (snd (GetSecret access key' s)) = value_or access key dflt s"
  by (simp add: value_or_def)

text \<open>Once \<^verbatim>\<open>Initialize\<close> has run, lookups leave the environment alone.\<close>

definition settled :: "config_state \<Rightarrow> bool" where
  "settled s \<longleftrightarrow> (case cs_provider s of
       None \<Rightarrow> True
     | Some (GCPProvider p) \<Rightarrow> True
     | Some (EnvProvider p) \<Rightarrow> \<exists>x. env_LoadSecrets p s = (x, p, s))"

lemma settled_lookup: "settled s \<Longrightarrow> settled (snd (GetSecret access key s)) \<and>
    cs_environ (snd (GetSecret access key s)) = cs_environ s"
proof (cases "cs_provider s")
  case (Some q)
  assume s: "settled s"
  show ?thesis
  proof (cases q)
    case (EnvProvider p)
    then obtain x where load: "env_LoadSecrets p s = (x, p, s)" using s Some by (auto simp: settled_def)
    then have "snd (GetSecret access key s) = s"
      using Some EnvProvider by (auto simp: GetSecret_def env_lookup_loads Let_def split: option.split)
    then show ?thesis using s by simp
  next
    case (GCPProvider p)
    then show ?thesis using Some by (auto simp: GetSecret_def settled_def split: prod.split)
  qed
qed (simp add: GetSecret_def)

lemmas settled_lookups [simp] = settled_lookup [THEN conjunct1] settled_lookup [THEN conjunct2]

lemma settled_Initialize: "cs_provider s = None \<Longrightarrow> settled (Initialize support s)"
proof -
  assume none: "cs_provider s = None"
  show ?thesis
  proof (cases "if os_getenv ''USE_SECRET_MANAGER'' (cs_environ s) = ''true''
      then initGCPProvider support (cs_environ s) else Inl []")
    case (Inl e)
    obtain x p1 s1 where load: "env_LoadSecrets \<lparr>ep_file = env_file_path s, ep_loaded = False\<rparr> s = (x, p1, s1)"
      by (cases "env_LoadSecrets \<lparr>ep_file = env_file_path s, ep_loaded = False\<rparr> s") auto
    show ?thesis using none Inl load load_again [OF load, of "Some (EnvProvider p1)"]
      by (simp add: Initialize_def settled_def)
  next
    case (Inr q)
    then have "\<exists>p. q = GCPProvider p"
      by (auto simp: initGCPProvider_def Let_def split: if_splits option.splits)
    then show ?thesis using none Inr by (auto simp: Initialize_def settled_def)
  qed
qed

subsection \<open>What an env file sets\<close>

text \<open>Text that starts and ends with a printable ASCII byte has nothing to trim.\<close>

lemma strip_prefix_of_printable:
  assumes "s \<noteq> []" "byte (hd s) < 128" "\<not> space_byte (byte (hd s))"
    and "list_all (\<lambda>p. list_all (\<lambda>c. space_byte (byte c) \<or> 128 \<le> byte c) p \<and> p \<noteq> []) ps"
  shows "trim_left_of ps s = s"
proof (rule trim_left_of_None [OF strip_prefix_of_None])
  fix p assume "p \<in> set ps"
  with assms(4) obtain c q where p: "p = c # q" and c: "space_byte (byte c) \<or> 128 \<le> byte c"
    by (cases p) (auto simp: list_all_iff)
  show "p = [] \<or> \<not> has_prefix s p"
    using assms(1-3) c unfolding p by (cases s) (auto simp: has_prefix_def)
qed

lemma trim_space_ends:
  assumes "s \<noteq> []" "byte (hd s) < 128" "\<not> space_byte (byte (hd s))" "byte (last s) < 128" "\<not> space_byte (byte (last s))"
  shows "trim_space s = s"
proof -
  have "list_all (\<lambda>p. list_all (\<lambda>c. space_byte (byte c) \<or> 128 \<le> byte c) p \<and> p \<noteq> []) (map rev unicode_spaces)"
    using unicode_spaces_bytes by (auto simp: list_all_iff)
  then show ?thesis
    using assms unicode_spaces_bytes by (simp add: trim_space_def strip_prefix_of_printable hd_rev)
qed

definition key_char :: "char \<Rightarrow> bool" where
  "key_char c \<longleftrightarrow> c = CHR ''_'' \<or> (48 \<le> byte c \<and> byte c \<le> 57) \<or> (65 \<le> byte c \<and> byte c \<le> 90) \<or>
     (97 \<le> byte c \<and> byte c \<le> 122)"

definition env_pair :: "string \<times> string \<Rightarrow> bool" where
  "env_pair kv \<longleftrightarrow> fst kv \<noteq> [] \<and> list_all key_char (fst kv) \<and> CHR 10 \<notin> set (snd kv) \<and> nul \<notin> set (snd kv)"

definition quoted_line :: "string \<times> string \<Rightarrow> string" where
  "quoted_line kv = fst kv @ ''='' @ [CHR 34] @ snd kv @ [CHR 34]"

lemma key_char_solid:
  assumes "key_char c"
  shows "byte c < 128 \<and> \<not> space_byte (byte c) \<and> c \<noteq> CHR ''='' \<and> c \<noteq> CHR ''#'' \<and> c \<noteq> nul \<and> c \<noteq> CHR 10"
  using assms by (auto simp: key_char_def space_byte_def nul_def)

lemma quoted_line_sets:
  assumes "env_pair kv"
  shows "env_line (quoted_line kv) e = e(fst kv \<mapsto> snd kv)"
proof -
  obtain k v where kv: "kv = (k, v)" by fastforce
  have k: "k \<noteq> []" "list_all key_char k" "nul \<notin> set v" using assms by (simp_all add: kv env_pair_def)
  obtain c ks where ck: "k = c # ks" using k(1) by (cases k) auto
  have c: "byte c < 128" "\<not> space_byte (byte c)" "c \<noteq> CHR ''#''"
    using k(2) key_char_solid [of c] by (simp_all add: ck)
  have "trim_space (quoted_line kv) = quoted_line kv"
    using c by (intro trim_space_ends) (simp_all add: quoted_line_def kv ck space_byte_def)
  moreover have "\<not> has_prefix (quoted_line kv) ''#''" "quoted_line kv \<noteq> []"
    using c by (simp_all add: quoted_line_def kv ck has_prefix_def)
  moreover have eq: "CHR ''='' \<notin> set k" "nul \<notin> set k" using k(2) key_char_solid by (auto simp: list_all_iff)
  have "split_n2 (CHR ''='') (quoted_line kv) = [k, CHR 34 # v @ [CHR 34]]"
    using split_n2_append [OF eq(1), of "CHR 34 # v @ [CHR 34]"] by (simp add: quoted_line_def kv)
  moreover have "trim_space k = k"
    using k(2) key_char_solid by (intro trim_space_solid) (auto simp: solid_def list_all_iff)
  moreover have "trim_space (CHR 34 # v @ [CHR 34]) = CHR 34 # v @ [CHR 34]"
    by (intro trim_space_ends) (simp_all add: space_byte_def)
  ultimately show ?thesis
    using k eq by (simp add: env_line_def unquote_value_def os_setenv_def kv butlast_append)
qed

lemma quoted_lines_set: "list_all env_pair kvs \<Longrightarrow> fold env_line (map quoted_line kvs) e = e ++ map_of (rev kvs)"
  by (induction kvs arbitrary: e) (simp_all add: quoted_line_sets map_add_def fun_eq_iff split: option.splits)

lemma env_file_sets:
  assumes "list_all env_pair kvs"
  shows "loadEnvFile (Contents (join_char (CHR 10) (map quoted_line kvs))) e = Some (e ++ map_of (rev kvs))"
proof (cases "kvs = []")
  case True
  have "trim_space [] = []" by (intro trim_space_solid) (simp add: solid_def)
  then show ?thesis using True by (simp add: loadEnvFile_def env_line_def)
next
  case False
  have "CHR 10 \<notin> set (quoted_line kv)" if "kv \<in> set kvs" for kv
  proof -
    have "env_pair kv" using assms that by (simp add: list_all_iff)
    then have "CHR 10 \<notin> set (fst kv)" "CHR 10 \<notin> set (snd kv)" using key_char_solid by (auto simp: env_pair_def list_all_iff)
    then show ?thesis by (simp add: quoted_line_def)
  qed
  then have "split_char (CHR 10) (join_char (CHR 10) (map quoted_line kvs)) = map quoted_line kvs"
    using False by (intro split_join_char) auto
  then show ?thesis using quoted_lines_set [OF assms] by (simp add: loadEnvFile_def)
qed

lemma clean_parts_solid: "[] \<notin> set acc \<Longrightarrow> [] \<notin> set (clean_parts acc ps)"
  by (induction acc ps rule: clean_parts.induct) (auto dest: list.set_sel(2) [rotated])

lemma env_file_path_nonempty: "env_file_path s \<noteq> []"
proof -
  have "join_parent f \<noteq> []" for f
  proof (cases "clean_parts [] (''..'' # split_char (CHR ''/'') f)")
    case (Cons p ps)
    then have "p \<noteq> []" using clean_parts_solid [of "[]" "''..'' # split_char (CHR ''/'') f"] by auto
    then show ?thesis using Cons by (cases ps) (simp_all add: join_parent_def Let_def)
  qed (simp add: join_parent_def)
  then show ?thesis by (auto simp: env_file_path_def Let_def)
qed

text \<open>C30: Where configuration values come from. Without Secret Manager, when the env file that \<^verbatim>\<open>Initialize\<close> finds
  assigns quoted values, one variable per line, a lookup answers with the last value the file assigns to the
  name, whatever characters the value holds; a name the file does not mention has the
  value of the process environment, which the file overrides, and an empty or missing value is the default.\<close>

theorem env_file_configures:
  assumes "cs_provider s = None" "os_getenv ''USE_SECRET_MANAGER'' (cs_environ s) \<noteq> ''true''"
    and "list_all env_pair kvs"
    and "cs_files s (env_file_path s) = Contents (join_char (CHR 10) (map quoted_line kvs))"
  shows "fst (GetSecretOrDefault access key dflt (Initialize support s)) =
    (case (cs_environ s ++ map_of (rev kvs)) key of None \<Rightarrow> dflt | Some v \<Rightarrow> if v = [] then dflt else v)"
proof -
  have "Initialize support s = s\<lparr>cs_environ := cs_environ s ++ map_of (rev kvs),
      cs_provider := Some (EnvProvider \<lparr>ep_file = env_file_path s, ep_loaded = True\<rparr>)\<rparr>"
    using assms(1,2,4) env_file_path_nonempty [of s] env_file_sets [OF assms(3), of "cs_environ s"]
    by (simp add: Initialize_def env_LoadSecrets_def file_exists_def)
  then show ?thesis
    by (cases "(cs_environ s ++ map_of (rev kvs)) key")
      (simp_all add: GetSecretOrDefault_def GetSecret_def env_GetSecret_def os_getenv_def Let_def del: map_add_None)
qed

definition sample_config :: config_state where
  "sample_config = \<lparr>cs_environ = [''PORT'' \<mapsto> ''80''],
     cs_files = (\<lambda>_. Missing)(''../.env'' := Contents (join_char (CHR 10) (map quoted_line
       [(''PORT'', ''8081''), (''REDIS_URL'', ''redis://u:p=#x@h''), (''PORT'', ''8082'')]))),
     cs_provider = None\<rparr>"

theorem env_file_configures_witness:
  "fst (GetSecretOrDefault (\<lambda>_. None) ''PORT'' ''8080'' (Initialize None sample_config)) = ''8082''"
proof -
  let ?kvs = "[(''PORT'', ''8081''), (''REDIS_URL'', ''redis://u:p=#x@h''), (''PORT'', ''8082'')]"
  have "env_file_path sample_config = ''../.env''"
    by (simp add: env_file_path_def sample_config_def os_getenv_def file_exists_def join_parent_def)
  moreover have "list_all env_pair ?kvs" by (simp add: env_pair_def key_char_def nul_def)
  ultimately show ?thesis
    using env_file_configures [of sample_config ?kvs "\<lambda>_. None" "''PORT''" "''8080''" None]
    by (simp add: sample_config_def os_getenv_def)
qed

end
