(* ===== verification/Startup.thy ===== *)
theory Startup
  imports Secrets Invoice Site "HOL-Library.State_Monad"
begin

text \<open>
  How a server comes to be: \<^verbatim>\<open>src/main.go\<close> and its GCP variants, \<^verbatim>\<open>New\<close> in \<^verbatim>\<open>src/server.go\<close>, the choice of a rate limiter in
  \<^verbatim>\<open>src/services/ratelimit_factory.go\<close>, and the public configuration of \<^verbatim>\<open>src/config_handlers.go\<close>. Lookups of
  configuration values are actions on the state of \<^verbatim>\<open>Secrets\<close>, in the order of the code; whether the outside
  world answers (files, databases, cloud clients) is an argument. A start ends in an exit or in a plan
  of the server's parts.
\<close>

type_synonym 'a action = "(config_state, 'a) state"

definition secret :: "secret_manager \<Rightarrow> string \<Rightarrow> string \<Rightarrow> string action" where
  "secret access key dflt = State (GetSecretOrDefault access key dflt)"

definition required :: "secret_manager \<Rightarrow> string \<Rightarrow> string option action" where
  "required access key =
     State (\<lambda>s. case MustGetSecret access key s of None \<Rightarrow> (None, s) | Some (v, s1) \<Rightarrow> (Some v, s1))"

definition getenv :: "string \<Rightarrow> string action" where
  "getenv key = State (\<lambda>s. (os_getenv key (cs_environ s), s))"

definition yield :: "'a \<Rightarrow> 'a action" where
  "yield = State_Monad.return"

subsection \<open>The outside world\<close>

record outside =
  out_sqlite :: "string \<Rightarrow> bool" \<comment> \<open>the file opens, its schema is there and it answers\<close>
  out_postgres :: "string \<Rightarrow> bool" \<comment> \<open>the pool is created and answers\<close>
  out_gcp_build :: bool \<comment> \<open>built with \<^verbatim>\<open>-tags gcp\<close>\<close>
  out_secret_manager :: bool \<comment> \<open>the client of Secret Manager can be created\<close>
  out_gcs_client :: "bool \<Rightarrow> bool" \<comment> \<open>with and without the emulator\<close>
  out_redis :: "string \<Rightarrow> bool" \<comment> \<open>the URL parses and the server answers\<close>
  out_firestore :: "string \<Rightarrow> bool"

datatype limiter_choice = MemoryLimiter | RedisLimiter string string | FirestoreLimiter string string
datatype storage_choice = SQLiteAt string | PostgresAt string | GCSBucket string

definition NewRedisRateLimitService :: "outside \<Rightarrow> string \<Rightarrow> string \<Rightarrow> string + limiter_choice" where
  "NewRedisRateLimitService w url prefix =
     (if url = [] then Inl ''redis URL required''
      else if \<not> out_redis w url then Inl ''redis connection failed''
      else Inr (RedisLimiter url (if prefix = [] then ''ratelimit:'' else prefix)))"

definition NewFirestoreRateLimitService :: "outside \<Rightarrow> string \<Rightarrow> string \<Rightarrow> string + limiter_choice" where
  "NewFirestoreRateLimitService w project collection =
     (if \<not> out_gcp_build w then Inl ''Firestore rate limiter not available (build with -tags gcp)''
      else if project = [] then Inl ''project ID required''
      else if \<not> out_firestore w project then Inl ''firestore client creation failed''
      else Inr (FirestoreLimiter project (if collection = [] then ''ratelimits'' else collection)))"

definition NewRateLimiterFromEnv :: "secret_manager \<Rightarrow> outside \<Rightarrow> (string + limiter_choice) action" where
  "NewRateLimiterFromEnv access w = do {
     t0 \<leftarrow> secret access ''RATE_LIMITER_TYPE'' [];
     let t = (if t0 = [] then ''memory'' else t0);
     if t = ''memory'' then yield (Inr MemoryLimiter)
     else if t = ''redis'' then do {
       url \<leftarrow> secret access ''REDIS_URL'' [];
       if url = [] then yield (Inl ''REDIS_URL required for Redis rate limiter'')
       else do {
         prefix \<leftarrow> secret access ''RATE_LIMIT_KEY_PREFIX'' ''bincrypt:ratelimit:'';
         yield (NewRedisRateLimitService w url prefix)
       }
     }
     else if t = ''firestore'' then do {
       project \<leftarrow> secret access ''FIREBASE_PROJECT_ID'' [];
       if project = [] then yield (Inl ''FIREBASE_PROJECT_ID required for Firestore rate limiter'')
       else do {
         collection \<leftarrow> secret access ''RATE_LIMIT_COLLECTION'' ''ratelimits'';
         yield (NewFirestoreRateLimitService w project collection)
       }
     }
     else yield (Inl (''unknown rate limiter type: '' @ t))
   }"

subsection \<open>Storage and payments\<close>

definition initGCSBackend :: "secret_manager \<Rightarrow> outside \<Rightarrow> storage_choice option action" where
  "initGCSBackend access w =
     (if \<not> out_gcp_build w then yield None
      else do {
        bucket \<leftarrow> required access ''BUCKET_NAME'';
        case bucket of None \<Rightarrow> yield None
        | Some b \<Rightarrow> do {
            emulator \<leftarrow> secret access ''STORAGE_EMULATOR_HOST'' [];
            yield (if out_gcs_client w (emulator \<noteq> []) then Some (GCSBucket b) else None)
          }
      })"

text \<open>\<^const>\<open>None\<close> is an exit with status 1.\<close>

definition choose_storage :: "secret_manager \<Rightarrow> outside \<Rightarrow> storage_choice option action" where
  "choose_storage access w = do {
     b \<leftarrow> secret access ''STORAGE_BACKEND'' ''sqlite'';
     if b = ''sqlite'' then do {
       path \<leftarrow> secret access ''SQLITE_PATH'' ''./bincrypt.db'';
       yield (if out_sqlite w path then Some (SQLiteAt path) else None)
     }
     else if b = ''postgres'' then do {
       url \<leftarrow> required access ''DATABASE_URL'';
       yield (case url of None \<Rightarrow> None | Some u \<Rightarrow> if out_postgres w u then Some (PostgresAt u) else None)
     }
     else if b = ''gcs'' then initGCSBackend access w
     else yield None
   }"

definition choose_payments :: "secret_manager \<Rightarrow> btcpay_client option action" where
  "choose_payments access = do {
     endpoint \<leftarrow> secret access ''BTCPAY_ENDPOINT'' [];
     apiKey \<leftarrow> secret access ''BTCPAY_APIKEY'' [];
     storeID \<leftarrow> secret access ''BTCPAY_STORE_ID'' [];
     webhookSecret \<leftarrow> secret access ''BTCPAY_WEBHOOK_SECRET'' [];
     yield (if endpoint \<noteq> [] \<or> apiKey \<noteq> [] \<or> storeID \<noteq> [] \<or> webhookSecret \<noteq> []
       then (case NewBTCPayClient endpoint apiKey storeID webhookSecret of Inl _ \<Rightarrow> None | Inr c \<Rightarrow> Some c)
       else None)
   }"

subsection \<open>The server\<close>

record server_plan =
  sp_port :: string
  sp_storage :: storage_choice
  sp_metrics :: bool
  sp_payments :: "btcpay_client option"
  sp_limiter :: limiter_choice
  sp_workers :: int
  sp_proxies :: proxy_config

text \<open>\<^verbatim>\<open>New\<close>: a limiter that is not available is replaced by the one in memory; \<^const>\<open>None\<close> is a panic.\<close>

definition new_limiter :: "secret_manager \<Rightarrow> outside \<Rightarrow> limiter_choice action" where
  "new_limiter access w = do {
     r \<leftarrow> NewRateLimiterFromEnv access w;
     yield (case r of Inl _ \<Rightarrow> MemoryLimiter | Inr l \<Rightarrow> l)
   }"

definition new_proxies :: "proxy_config option action" where
  "new_proxies = State (\<lambda>s. (LoadTrustedProxyConfig (\<lambda>key. os_getenv key (cs_environ s)), s))"

text \<open>\<^verbatim>\<open>main\<close> up to the start of the listener; \<open>port_flag\<close> is the value of \<^verbatim>\<open>-port\<close> when it is given.\<close>

definition start_server :: "secret_manager \<Rightarrow> outside \<Rightarrow> string option \<Rightarrow> server_plan option action" where
  "start_server access w port_flag = do {
     port \<leftarrow> secret access ''PORT'' ''8080'';
     storage \<leftarrow> choose_storage access w;
     case storage of None \<Rightarrow> yield None
     | Some st \<Rightarrow> do {
         payments \<leftarrow> choose_payments access;
         metrics \<leftarrow> secret access ''METRICS_ENABLED'' ''false'';
         limiter \<leftarrow> new_limiter access w;
         workers \<leftarrow> getenv ''DELETION_WORKERS'';
         proxies \<leftarrow> new_proxies;
         yield (case proxies of None \<Rightarrow> None
           | Some px \<Rightarrow> Some \<lparr>sp_port = (case port_flag of None \<Rightarrow> port | Some p \<Rightarrow> p), sp_storage = st,
               sp_metrics = (metrics = ''true''), sp_payments = payments, sp_limiter = limiter,
               sp_workers = deletion_workers workers, sp_proxies = px\<rparr>)
       }
   }"

definition main_start :: "secret_manager \<Rightarrow> outside \<Rightarrow> string option \<Rightarrow> config_state \<Rightarrow> server_plan option \<times> config_state" where
  "main_start access w port_flag s =
     run_state (start_server access w port_flag) (Initialize (if out_gcp_build w then Some (out_secret_manager w) else None) s)"

subsection \<open>What a start depends on\<close>

lemma run_yield [simp]: "run_state (yield a) s = (a, s)"
  by (simp add: yield_def)

lemma run_bind [simp]: "run_state (State_Monad.bind x f) s = run_state (f (fst (run_state x s))) (snd (run_state x s))"
  by (cases x) (simp add: State_Monad.bind_def split: prod.split)

declare run_state_bind [simp del]

lemma run_secret [simp]: "run_state (secret access key dflt) s = (value_or access key dflt s, snd (GetSecret access key s))"
  by (simp add: secret_def GetSecretOrDefault_eq)

lemma fst_required [simp]: "fst (run_state (required access key) s) = secret_value access key s"
  by (simp add: required_def MustGetSecret_eq split: option.split)

lemma run_getenv [simp]: "run_state (getenv key) s = (os_getenv key (cs_environ s), s)"
  by (simp add: getenv_def)

text \<open>Actions that only look values up: they leave every value and the environment as they were.\<close>

definition lookup_only :: "secret_manager \<Rightarrow> 'a action \<Rightarrow> bool" where
  "lookup_only access x \<longleftrightarrow> (\<forall>s. settled s \<longrightarrow> settled (snd (run_state x s)) \<and>
     cs_environ (snd (run_state x s)) = cs_environ s \<and>
     (\<forall>key. secret_value access key (snd (run_state x s)) = secret_value access key s))"

lemma lookup_only_simple:
  "lookup_only access (yield a)" "lookup_only access (secret access key dflt)"
  "lookup_only access (required access key)" "lookup_only access (getenv key)"
  by (auto simp: lookup_only_def required_def MustGetSecret_eq split: option.split)

lemma lookup_only_bind: "lookup_only access x \<Longrightarrow> (\<And>a. lookup_only access (f a)) \<Longrightarrow> lookup_only access (State_Monad.bind x f)"
  by (simp add: lookup_only_def)

lemma lookup_only_if: "lookup_only access x \<Longrightarrow> lookup_only access y \<Longrightarrow> lookup_only access (if b then x else y)"
  by simp

lemma lookup_only_option:
  "lookup_only access x \<Longrightarrow> (\<And>a. lookup_only access (f a)) \<Longrightarrow> lookup_only access (case y of None \<Rightarrow> x | Some a \<Rightarrow> f a)"
  by (cases y) simp_all

lemmas lookup_only_intros = lookup_only_simple lookup_only_bind lookup_only_if lookup_only_option

lemma lookup_only_parts:
  "lookup_only access (NewRateLimiterFromEnv access w)" "lookup_only access (initGCSBackend access w)"
  "lookup_only access (choose_payments access)"
  unfolding NewRateLimiterFromEnv_def initGCSBackend_def choose_payments_def Let_def
  by (auto intro!: lookup_only_intros)

lemma lookup_only_choices:
  "lookup_only access (choose_storage access w)" "lookup_only access (new_limiter access w)"
  unfolding choose_storage_def new_limiter_def
  by (auto intro!: lookup_only_intros lookup_only_parts)

text \<open>What an action that only looks up leaves behind, for the actions after it.\<close>

lemma looked_up:
  assumes "lookup_only access x" "settled s"
  shows "settled (snd (run_state x s))" "cs_environ (snd (run_state x s)) = cs_environ s"
    "secret_value access key (snd (run_state x s)) = secret_value access key s"
    "value_or access key dflt (snd (run_state x s)) = value_or access key dflt s"
  using assms by (simp_all add: lookup_only_def value_or_def)

lemmas looked_up_parts [simp] = looked_up [OF lookup_only_choices(1)] looked_up [OF lookup_only_choices(2)]
  looked_up [OF lookup_only_parts(3)]

subsection \<open>Which parts a server starts with\<close>

text \<open>The storage that the configuration names, and that answers.\<close>

definition storage_ready :: "secret_manager \<Rightarrow> outside \<Rightarrow> config_state \<Rightarrow> storage_choice \<Rightarrow> bool" where
  "storage_ready access w s st \<longleftrightarrow> (case st of
       SQLiteAt p \<Rightarrow> value_or access ''STORAGE_BACKEND'' ''sqlite'' s = ''sqlite'' \<and>
         p = value_or access ''SQLITE_PATH'' ''./bincrypt.db'' s \<and> out_sqlite w p
     | PostgresAt u \<Rightarrow> value_or access ''STORAGE_BACKEND'' ''sqlite'' s = ''postgres'' \<and>
         secret_value access ''DATABASE_URL'' s = Some u \<and> out_postgres w u
     | GCSBucket b \<Rightarrow> value_or access ''STORAGE_BACKEND'' ''sqlite'' s = ''gcs'' \<and> out_gcp_build w \<and>
         secret_value access ''BUCKET_NAME'' s = Some b \<and>
         out_gcs_client w (value_or access ''STORAGE_EMULATOR_HOST'' [] s \<noteq> []))"

definition limiter_ready :: "outside \<Rightarrow> limiter_choice \<Rightarrow> bool" where
  "limiter_ready w l \<longleftrightarrow> (case l of
       MemoryLimiter \<Rightarrow> True
     | RedisLimiter url prefix \<Rightarrow> url \<noteq> [] \<and> prefix \<noteq> [] \<and> out_redis w url
     | FirestoreLimiter project collection \<Rightarrow> out_gcp_build w \<and> project \<noteq> [] \<and> collection \<noteq> [] \<and> out_firestore w project)"

lemma secret_value_snd_required [simp]:
  "secret_value access key (snd (run_state (required access k) s)) = secret_value access key s"
  "value_or access key dflt (snd (run_state (required access k) s)) = value_or access key dflt s"
  by (auto simp: required_def MustGetSecret_eq value_or_def split: option.split)

lemma chosen_storage: "fst (run_state (choose_storage access w) s) = Some st \<longleftrightarrow> storage_ready access w s st"
  by (cases st) (auto simp: choose_storage_def initGCSBackend_def storage_ready_def split: option.splits if_splits)

lemma chosen_limiter: "limiter_ready w (fst (run_state (new_limiter access w) s))"
  by (auto simp: new_limiter_def NewRateLimiterFromEnv_def NewRedisRateLimitService_def NewFirestoreRateLimitService_def
      limiter_ready_def Let_def split: sum.splits if_splits)

text \<open>The provider of payments, exactly when all four values are there.\<close>

lemma chosen_payments:
  "fst (run_state (choose_payments access) s) =
     (let endpoint = value_or access ''BTCPAY_ENDPOINT'' [] s; key = value_or access ''BTCPAY_APIKEY'' [] s;
          store = value_or access ''BTCPAY_STORE_ID'' [] s; webhook = value_or access ''BTCPAY_WEBHOOK_SECRET'' [] s
      in if endpoint = [] \<or> key = [] \<or> store = [] \<or> webhook = [] then None
         else Some \<lparr>bc_endpoint = trim_slashes endpoint, bc_store_id = store, bc_api_key = key, bc_webhook_secret = webhook\<rparr>)"
  by (auto simp: choose_payments_def NewBTCPayClient_def Let_def)

lemma workers_positive: "0 < deletion_workers v"
  by (simp add: deletion_workers_def split: option.split)

lemma proxies_load: "\<exists>c. LoadTrustedProxyConfig env = Some c"
  by (simp add: LoadTrustedProxyConfig_def cloud_run_proxies_def mustParseCIDR_load_balancer)

lemma storage_ready_stable [simp]: "storage_ready access w (snd (GetSecret access key s)) = storage_ready access w s"
  by (simp add: storage_ready_def fun_eq_iff split: storage_choice.split)

lemma no_storage: "fst (run_state (choose_storage access w) s) = None \<longleftrightarrow> (\<forall>st. \<not> storage_ready access w s st)"
  using chosen_storage by (metis option.exhaust option.distinct(1))

definition payment_keys :: "string list" where
  "payment_keys = [''BTCPAY_ENDPOINT'', ''BTCPAY_APIKEY'', ''BTCPAY_STORE_ID'', ''BTCPAY_WEBHOOK_SECRET'']"

text \<open>C31: How a server starts. Whatever the environment, the env file and the cloud services answer, the start fails exactly
  when the storage that the configuration names is not there. Otherwise the server runs on that storage with a limiter
  that is available, the one in memory if need be, at least one deletion worker, and payments exactly when all four of
  their values are set, so that no webhook is ever checked against an empty secret.\<close>

theorem server_start:
  assumes "cs_provider s = None"
    and "s0 = Initialize (if out_gcp_build w then Some (out_secret_manager w) else None) s"
  shows "case fst (main_start access w port_flag s) of
      None \<Rightarrow> \<forall>st. \<not> storage_ready access w s0 st
    | Some p \<Rightarrow> storage_ready access w s0 (sp_storage p) \<and> limiter_ready w (sp_limiter p) \<and> 0 < sp_workers p \<and>
        (sp_payments p \<noteq> None \<longleftrightarrow> list_all (\<lambda>key. value_or access key [] s0 \<noteq> []) payment_keys) \<and>
        (\<forall>c. sp_payments p = Some c \<longrightarrow> bc_webhook_secret c = value_or access ''BTCPAY_WEBHOOK_SECRET'' [] s0 \<and>
           bc_webhook_secret c \<noteq> [])"
proof -
  have s0: "settled s0" unfolding assms(2) by (rule settled_Initialize [OF assms(1)])
  define s1 where "s1 = snd (GetSecret access ''PORT'' s0)"
  define s2 where "s2 = snd (run_state (choose_storage access w) s1)"
  have s1: "settled s1" using s0 by (simp add: s1_def)
  show ?thesis
  proof (cases "fst (run_state (choose_storage access w) s1)")
    case None
    then have "fst (main_start access w port_flag s) = None"
      by (simp add: main_start_def start_server_def assms(2) [symmetric] s1_def [symmetric])
    then show ?thesis using None by (simp add: no_storage s1_def)
  next
    case (Some st)
    define s3 where "s3 = snd (GetSecret access ''METRICS_ENABLED'' (snd (run_state (choose_payments access) s2)))"
    have ready: "storage_ready access w s0 st" using Some by (simp add: chosen_storage s1_def)
    have pay: "fst (run_state (choose_payments access) s2) = fst (run_state (choose_payments access) s0)"
      using s1 by (simp add: chosen_payments s2_def) (simp add: s1_def)
    obtain px where "LoadTrustedProxyConfig (\<lambda>key. os_getenv key (cs_environ (snd (run_state (new_limiter access w) s3)))) = Some px"
      using proxies_load by blast
    then have "fst (main_start access w port_flag s) = Some
        \<lparr>sp_port = (case port_flag of None \<Rightarrow> value_or access ''PORT'' ''8080'' s0 | Some p \<Rightarrow> p), sp_storage = st,
         sp_metrics = (value_or access ''METRICS_ENABLED'' ''false'' (snd (run_state (choose_payments access) s2)) = ''true''),
         sp_payments = fst (run_state (choose_payments access) s0), sp_limiter = fst (run_state (new_limiter access w) s3),
         sp_workers = deletion_workers (os_getenv ''DELETION_WORKERS'' (cs_environ (snd (run_state (new_limiter access w) s3)))),
         sp_proxies = px\<rparr>"
      using Some pay by (simp add: main_start_def start_server_def new_proxies_def assms(2) [symmetric]
          s1_def [symmetric] s2_def [symmetric] s3_def [symmetric] split: option.split)
    then show ?thesis
      using ready by (auto simp: chosen_limiter workers_positive chosen_payments payment_keys_def Let_def)
  qed
qed

text \<open>Without any configuration the program serves SQLite on port 8080 with the limiter in memory; a Redis that does
  not answer is replaced by it as well.\<close>

definition sample_outside :: outside where
  "sample_outside = \<lparr>out_sqlite = (\<lambda>_. True), out_postgres = (\<lambda>_. False), out_gcp_build = False, out_secret_manager = False,
     out_gcs_client = (\<lambda>_. False), out_redis = (\<lambda>_. False), out_firestore = (\<lambda>_. False)\<rparr>"

definition sample_environ :: environ where
  "sample_environ = [''RATE_LIMITER_TYPE'' \<mapsto> ''redis'', ''REDIS_URL'' \<mapsto> ''redis://cache'', ''BTCPAY_ENDPOINT'' \<mapsto> ''https://pay'',
     ''BTCPAY_APIKEY'' \<mapsto> ''k'', ''BTCPAY_STORE_ID'' \<mapsto> ''s'']"

theorem server_start_witness:
  "\<exists>p. fst (main_start (\<lambda>_. None) sample_outside None \<lparr>cs_environ = sample_environ, cs_files = (\<lambda>_. Missing), cs_provider = None\<rparr>) =
     Some p \<and> sp_storage p = SQLiteAt ''./bincrypt.db'' \<and> sp_limiter p = MemoryLimiter \<and> sp_payments p = None"
proof -
  let ?s = "\<lparr>cs_environ = sample_environ, cs_files = (\<lambda>_. Missing), cs_provider = None\<rparr>"
  define s0 where "s0 = Initialize (if out_gcp_build sample_outside then Some (out_secret_manager sample_outside) else None) ?s"
  have s0: "s0 = \<lparr>cs_environ = sample_environ, cs_files = (\<lambda>_. Missing),
      cs_provider = Some (EnvProvider \<lparr>ep_file = ''.env'', ep_loaded = True\<rparr>)\<rparr>"
    by (simp add: s0_def sample_outside_def sample_environ_def Initialize_def env_LoadSecrets_def env_file_path_def
        file_exists_def os_getenv_def)
  have v: "secret_value (\<lambda>_. None) key s0 = sample_environ key" if "sample_environ key \<noteq> Some []" for key
    using that by (auto simp: s0 secret_value_def GetSecret_def env_GetSecret_def os_getenv_def Let_def split: option.splits)
  have ready: "storage_ready (\<lambda>_. None) sample_outside s0 st \<longleftrightarrow> st = SQLiteAt ''./bincrypt.db''" for st
    by (auto simp: storage_ready_def value_or_def v sample_environ_def sample_outside_def split: storage_choice.splits)
  show ?thesis
    using server_start [OF _ s0_def, of "\<lambda>_. None" None] ready
    by (auto simp: payment_keys_def value_or_def v sample_environ_def limiter_ready_def sample_outside_def
        split: option.splits limiter_choice.splits)
qed

end
