(* ===== verification/Endpoints.thy ===== *)
theory Endpoints
  imports Startup "HOL-Library.List_Lexorder" "HOL-Library.Char_ord"
begin

text \<open>
  The endpoints that show configuration and counters: \<^verbatim>\<open>GetClientConfig\<close> of \<^verbatim>\<open>src/config_handlers.go\<close> and
  \<^verbatim>\<open>MetricsHandler\<close> with \<^verbatim>\<open>GetMetrics\<close> of \<^verbatim>\<open>src/logger/monitor.go\<close>. Both look values up while they answer, so
  they are actions of \<^verbatim>\<open>Startup\<close>. What they must not do is show values that are not meant for the client.
\<close>

subsection \<open>The configuration of the web client\<close>

definition firebase_keys :: "(string \<times> string) list" where
  "firebase_keys = [(''apiKey'', ''FIREBASE_API_KEY''), (''authDomain'', ''FIREBASE_AUTH_DOMAIN''),
     (''projectId'', ''FIREBASE_PROJECT_ID''), (''storageBucket'', ''FIREBASE_STORAGE_BUCKET''),
     (''messagingSenderId'', ''FIREBASE_MESSAGING_SENDER_ID''), (''appId'', ''FIREBASE_APP_ID'')]"

fun look_up_all :: "secret_manager \<Rightarrow> (string \<times> string) list \<Rightarrow> (string \<times> string) list action" where
  "look_up_all access [] = yield []"
| "look_up_all access ((name, key) # ks) = do {
     v \<leftarrow> secret access key [];
     rest \<leftarrow> look_up_all access ks;
     yield ((name, v) # rest)
   }"

definition limits_json :: json where
  "limits_json = JObj
     [(''maxSizeBytesEncrypted'', JNum (itoa (int MaxCiphertextSizeEncrypted))),
      (''maxSizeBytesUnencrypted'', JNum (itoa (int MaxCiphertextSizeUnencrypted))),
      (''maxSizeKBEncrypted'', JNum (itoa (int (MaxCiphertextSizeEncrypted div 1024)))),
      (''maxSizeKBUnencrypted'', JNum (itoa (int (MaxCiphertextSizeUnencrypted div 1024))))]"

definition client_config_json :: "(string \<times> string) list \<Rightarrow> string \<Rightarrow> string \<Rightarrow> json" where
  "client_config_json firebase siteKey devBypass = JObj (
     (''limits'', limits_json) #
     (if list_ex (\<lambda>(name, v). v \<noteq> []) firebase
      then [(''firebase'', JObj (map (\<lambda>(name, v). (name, JStr v)) firebase))] else []) @
     (if siteKey \<noteq> [] \<and> devBypass \<noteq> ''true''
      then [(''turnstile'', JObj [(''siteKey'', JStr siteKey)])] else []))"

definition GetClientConfig :: "secret_manager \<Rightarrow> http_response action" where
  "GetClientConfig access = do {
     firebase \<leftarrow> look_up_all access firebase_keys;
     siteKey \<leftarrow> secret access ''TURNSTILE_SITE_KEY'' [];
     devBypass \<leftarrow> secret access ''TURNSTILE_DEV_BYPASS'' ''false'';
     yield (json_response 200 Map.empty (json_sorted (client_config_json firebase siteKey devBypass)))
   }"

definition public_keys :: "string list" where
  "public_keys = map snd firebase_keys @ [''TURNSTILE_SITE_KEY'', ''TURNSTILE_DEV_BYPASS'']"

lemma fst_look_up_all [simp]:
  "fst (run_state (look_up_all access ks) s) = map (\<lambda>(name, key). (name, value_or access key [] s)) ks"
  by (induction access ks arbitrary: s rule: look_up_all.induct) auto

lemma snd_look_up_all [simp]:
  "secret_value access key (snd (run_state (look_up_all access ks) s)) = secret_value access key s"
  "value_or access key dflt (snd (run_state (look_up_all access ks) s)) = value_or access key dflt s"
proof -
  show "secret_value access key (snd (run_state (look_up_all access ks) s)) = secret_value access key s" for key
    by (induction access ks arbitrary: s rule: look_up_all.induct) auto
  then show "value_or access key dflt (snd (run_state (look_up_all access ks) s)) = value_or access key dflt s"
    by (simp add: value_or_def)
qed

text \<open>C32: The client configuration discloses public values only. Two servers whose eight public values agree answer
  with the same bytes, however their other values differ: database and Redis addresses, payment and
  metrics credentials never reach the response.\<close>

theorem client_config_public:
  assumes "\<forall>key \<in> set public_keys. secret_value access key s = secret_value access' key s'"
  shows "fst (run_state (GetClientConfig access) s) = fst (run_state (GetClientConfig access') s')"
proof -
  have v: "value_or access key dflt s = value_or access' key dflt s'" if "key \<in> set public_keys" for key dflt
    using assms that by (simp add: value_or_def)
  have "map (\<lambda>(name, key). (name, value_or access key [] s)) firebase_keys =
      map (\<lambda>(name, key). (name, value_or access' key [] s')) firebase_keys"
  proof (rule map_cong [OF refl])
    fix p assume "p \<in> set firebase_keys"
    then have "snd p \<in> set public_keys" by (simp add: public_keys_def)
    then show "(case p of (name, key) \<Rightarrow> (name, value_or access key [] s)) =
        (case p of (name, key) \<Rightarrow> (name, value_or access' key [] s'))"
      using v by (cases p) simp
  qed
  moreover have "fst (run_state (GetClientConfig a) t) = json_response 200 Map.empty (json_sorted (client_config_json
      (map (\<lambda>(name, key). (name, value_or a key [] t)) firebase_keys)
      (value_or a ''TURNSTILE_SITE_KEY'' [] t) (value_or a ''TURNSTILE_DEV_BYPASS'' ''false'' t)))" for a t
    by (simp add: GetClientConfig_def)
  ultimately show ?thesis
    using v [of "''TURNSTILE_SITE_KEY''" "[]"] v [of "''TURNSTILE_DEV_BYPASS''" "''false''"]
    by (simp add: public_keys_def del: map_eq_conv)
qed

definition env_state :: "environ \<Rightarrow> config_state" where
  "env_state e = \<lparr>cs_environ = e, cs_files = (\<lambda>_. Missing),
     cs_provider = Some (EnvProvider \<lparr>ep_file = [], ep_loaded = True\<rparr>)\<rparr>"

lemma secret_value_env: "secret_value access key (env_state e) = (if os_getenv key e = [] then None else Some (os_getenv key e))"
  by (simp add: env_state_def secret_value_def GetSecret_def env_GetSecret_def Let_def)

theorem client_config_public_witness:
  "fst (run_state (GetClientConfig (\<lambda>_. None)) (env_state [''FIREBASE_API_KEY'' \<mapsto> ''pk'', ''METRICS_TOKEN'' \<mapsto> ''t0ps3cret''])) =
   fst (run_state (GetClientConfig (\<lambda>_. Some ''y'')) (env_state [''FIREBASE_API_KEY'' \<mapsto> ''pk'', ''BTCPAY_APIKEY'' \<mapsto> ''k'']))"
  by (rule client_config_public) (simp add: public_keys_def firebase_keys_def secret_value_env os_getenv_def)

subsection \<open>Metrics\<close>

text \<open>\<^verbatim>\<open>Duration.String\<close>.\<close>

fun frac_digits :: "nat \<Rightarrow> nat \<Rightarrow> string" where
  "frac_digits 0 v = []"
| "frac_digits (Suc prec) v = frac_digits prec (v div 10) @ [char_of (48 + v mod 10)]"

definition fmt_frac :: "nat \<Rightarrow> nat \<Rightarrow> string" where
  "fmt_frac prec v =
     (let ds = rev (dropWhile (\<lambda>c. c = CHR ''0'') (rev (frac_digits prec v)))
      in itoa (int (v div 10 ^ prec)) @ (if ds = [] then [] else CHR ''.'' # ds))"

definition duration_string :: "duration \<Rightarrow> string" where
  "duration_string d =
     (let u = nat \<bar>d\<bar>;
          t = (if u = 0 then ''0s''
               else if u < 1000 then itoa (int u) @ ''ns''
               else if u < 1000000 then fmt_frac 3 u @ [CHR 0xC2, CHR 0xB5, CHR ''s'']
               else if u < 1000000000 then fmt_frac 6 u @ ''ms''
               else (let m = u div 60000000000; s = fmt_frac 9 (u mod 60000000000) @ ''s''
                     in if m = 0 then s
                        else (if m div 60 = 0 then [] else itoa (int (m div 60)) @ ''h'') @ itoa (int (m mod 60)) @ ''m'' @ s))
      in if d < 0 then CHR ''-'' # t else t)"

text \<open>What the runtime reports.\<close>

record runtime_stats =
  rt_uptime :: duration
  rt_alloc :: nat
  rt_sys :: nat
  rt_goroutines :: int
  rt_gc_runs :: int

text \<open>\<^verbatim>\<open>Duration.Seconds\<close>, for the uptime, which is not negative.\<close>

definition duration_seconds :: "duration \<Rightarrow> rat" where
  "duration_seconds d = round64 (of_int (d div second) + round64 (of_int (d mod second) / of_int second))"

definition megabytes :: "nat \<Rightarrow> rat" where
  "megabytes n = round64 (of_nat n) / 1024 / 1024"

definition counts_json :: "(string \<rightharpoonup> int) \<Rightarrow> json" where
  "counts_json m = JObj (map (\<lambda>k. (k, JNum (itoa (the (m k))))) (sorted_list_of_set (dom m)))"

definition GetMetrics :: "runtime_stats \<Rightarrow> (string \<rightharpoonup> int) \<Rightarrow> (string \<rightharpoonup> int) \<Rightarrow> metrics \<Rightarrow> json" where
  "GetMetrics rt requests errors m = JObj
     [(''uptime_seconds'', JNum (float_text False (duration_seconds (rt_uptime rt)))),
      (''uptime_human'', JStr (duration_string (rt_uptime rt))),
      (''requests'', counts_json requests),
      (''errors'', counts_json errors),
      (''pastes_created'', JNum (itoa (pastesCreated m))),
      (''pastes_viewed'', JNum (itoa (pastesViewed m))),
      (''pastes_burned'', JNum (itoa (pastesBurned m))),
      (''memory_alloc_mb'', JNum (float_text False (megabytes (rt_alloc rt)))),
      (''memory_sys_mb'', JNum (float_text False (megabytes (rt_sys rt)))),
      (''goroutines'', JNum (itoa (rt_goroutines rt))),
      (''gc_runs'', JNum (itoa (rt_gc_runs rt)))]"

text \<open>The comparison in constant time is equality of the texts.\<close>

definition MetricsHandler :: "secret_manager \<Rightarrow> json \<Rightarrow> http_request \<Rightarrow> http_response action" where
  "MetricsHandler access current rq = do {
     token \<leftarrow> secret access ''METRICS_TOKEN'' [];
     yield (if token = [] then http_error ''Metrics token not configured'' 503
       else if header_value rq ''Authorization'' \<noteq> ''Bearer '' @ token then http_error ''Unauthorized'' 401
       else json_response 200 [''Cache-Control'' \<mapsto> ''no-cache, no-store, must-revalidate''] (json_sorted current))
   }"

text \<open>C33: Metrics are shown to the holder of the token only. The answer is 200 exactly when a token is configured and the
  request carries it as bearer token; any other answer is the same whatever the counters are.\<close>

theorem metrics_guarded:
  "(http_status (fst (run_state (MetricsHandler access current rq) s)) = 200 \<longleftrightarrow>
      (\<exists>token. secret_value access ''METRICS_TOKEN'' s = Some token \<and> token \<noteq> [] \<and>
         header_value rq ''Authorization'' = ''Bearer '' @ token)) \<and>
   (http_status (fst (run_state (MetricsHandler access current rq) s)) = 200 \<or>
      fst (run_state (MetricsHandler access current rq) s) = fst (run_state (MetricsHandler access other rq) s))"
  by (auto simp: MetricsHandler_def value_or_def http_error_def json_response_def split: option.splits)

end
