(* ===== verification/JsonRoundtrip.thy ===== *)
theory JsonRoundtrip
  imports FloatText
begin

text \<open>
  The decoder of \<^verbatim>\<open>encoding/json\<close> reads back what the encoder printed, for values whose strings are valid UTF-8
  and whose number literals the decoder accepts: \<open>json_roundtrip\<close>. The server relies on this when it stores a
  plaintext paste as a JSON document and later looks into the document for its content.
\<close>

subsection \<open>Runes\<close>

function valid_utf8 :: "string \<Rightarrow> bool" where
  "valid_utf8 s = (if s = [] then True
     else if decode_rune s = (rune_error, 1) then False else valid_utf8 (drop (snd (decode_rune s)) s))"
  by pat_completeness auto
termination
proof (relation "measure length", goal_cases)
  case (2 s)
  then show ?case using decode_rune_width_pos [of s] by (cases s) auto
qed simp

declare valid_utf8.simps [simp del]

lemma char_of_byte [simp]: "char_of (byte c) = c"
  by simp

lemma add_mod_below: "(k::nat) dvd b \<Longrightarrow> y < k \<Longrightarrow> (b + y) mod k = y"
  by (auto elim!: dvdE)

lemma encode_two:
  assumes "194 \<le> byte a" "byte a \<le> 223" "continuation 128 191 b"
  shows "encode_rune (byte a mod 32 * 64 + byte b mod 64) = [a, b]"
proof -
  obtain x where x: "byte a = 192 + x" using assms(1) by (metis add.commute le_add_diff_inverse2 le_trans numeral_le_iff semiring_norm(68-79))
  obtain y where y: "byte b = 128 + y" using assms(3) by (metis continuation_def le_iff_add)
  have xy: "2 \<le> x" "x < 32" "y < 64" using assms x y by (auto simp: continuation_def)
  have r: "byte a mod 32 * 64 + byte b mod 64 = x * 64 + y"
  proof -
    have "(192 + x) mod 32 = x" "(128 + y) mod 64 = y" using xy by (auto intro!: add_mod_below)
    then show ?thesis by (simp add: x y)
  qed
  have "128 \<le> x * 64 + y" "x * 64 + y < 2048" "(x * 64 + y) div 64 = x" "(x * 64 + y) mod 64 = y"
    using xy by auto
  then show ?thesis unfolding r by (simp add: encode_rune.simps x [symmetric] y [symmetric])
qed

lemma encode_three:
  assumes "224 \<le> byte a" "byte a \<le> 239" "continuation (second_lo (byte a)) (second_hi (byte a)) b" "continuation 128 191 c"
  shows "encode_rune (byte a mod 16 * 4096 + byte b mod 64 * 64 + byte c mod 64) = [a, b, c]"
proof -
  define x y z where "x = byte a - 224" and "y = byte b - 128" and "z = byte c - 128"
  have b: "128 \<le> byte b" "byte b \<le> 191" "byte a = 224 \<longrightarrow> 160 \<le> byte b" "byte a = 237 \<longrightarrow> byte b \<le> 159"
    using assms(1-3) by (auto simp: continuation_def second_lo_def second_hi_def split: if_splits)
  have xyz: "byte a = 224 + x" "byte b = 128 + y" "byte c = 128 + z" "x < 16" "y < 64" "z < 64"
    using assms(1,2,4) b by (auto simp: x_def y_def z_def continuation_def)
  have "(224 + x) mod 16 = x" "(128 + y) mod 64 = y" "(128 + z) mod 64 = z" using xyz(4-6) by (auto intro!: add_mod_below)
  then have r: "byte a mod 16 * 4096 + byte b mod 64 * 64 + byte c mod 64 = (x * 64 + y) * 64 + z"
    by (simp add: xyz(1-3))
  define v where "v = (x * 64 + y) * 64 + z"
  have parts: "v div 64 = x * 64 + y" "v mod 64 = z" "v div 4096 = x" "v div 64 mod 64 = y"
  proof -
    show "v mod 64 = z" unfolding v_def by (intro add_mod_below xyz(6)) simp
    show "v div 64 = x * 64 + y" using xyz(6) by (simp add: v_def)
    then show "v div 64 mod 64 = y" using xyz(5) by simp
    have "v div 4096 = v div 64 div 64" by (simp add: div_mult2_eq [symmetric])
    then show "v div 4096 = x" using \<open>v div 64 = x * 64 + y\<close> xyz(5) by simp
  qed
  have "x = 0 \<longrightarrow> 32 \<le> y" "x = 13 \<longrightarrow> y < 32" using b xyz(1,2) by auto
  moreover have "x = 0 \<or> 1 \<le> x \<and> x \<le> 12 \<or> x = 13 \<or> 14 \<le> x" by linarith
  ultimately have "2048 \<le> v \<and> v < 65536 \<and> \<not> (55296 \<le> v \<and> v \<le> 57343)"
    using xyz(4-6) unfolding v_def by auto
  then show ?thesis
    unfolding r v_def [symmetric] by (auto simp: encode_rune.simps parts(2-4) xyz(1-3) [symmetric])
qed

lemma encode_four:
  assumes "240 \<le> byte a" "byte a \<le> 244" "continuation (second_lo (byte a)) (second_hi (byte a)) b"
    "continuation 128 191 c" "continuation 128 191 d"
  shows "encode_rune (byte a mod 8 * 262144 + byte b mod 64 * 4096 + byte c mod 64 * 64 + byte d mod 64) = [a, b, c, d]"
proof -
  define x y z w where "x = byte a - 240" and "y = byte b - 128" and "z = byte c - 128" and "w = byte d - 128"
  have b: "128 \<le> byte b" "byte b \<le> 191" "byte a = 240 \<longrightarrow> 144 \<le> byte b" "byte a = 244 \<longrightarrow> byte b \<le> 143"
    using assms(1-3) by (auto simp: continuation_def second_lo_def second_hi_def split: if_splits)
  have xyz: "byte a = 240 + x" "byte b = 128 + y" "byte c = 128 + z" "byte d = 128 + w" "x \<le> 4" "y < 64" "z < 64" "w < 64"
    using assms(1,2,4,5) b by (auto simp: x_def y_def z_def w_def continuation_def)
  have "(240 + x) mod 8 = x" "(128 + y) mod 64 = y" "(128 + z) mod 64 = z" "(128 + w) mod 64 = w"
    using xyz(5-8) by (auto intro!: add_mod_below)
  then have r: "byte a mod 8 * 262144 + byte b mod 64 * 4096 + byte c mod 64 * 64 + byte d mod 64 =
      ((x * 64 + y) * 64 + z) * 64 + w"
    by (simp add: xyz(1-4))
  define v where "v = ((x * 64 + y) * 64 + z) * 64 + w"
  have parts: "v div 64 mod 64 = z" "v mod 64 = w" "v div 4096 mod 64 = y" "v div 262144 = x"
  proof -
    have 1: "v div 64 = (x * 64 + y) * 64 + z" using xyz(8) by (simp add: v_def)
    show "v mod 64 = w" unfolding v_def by (intro add_mod_below xyz(8)) simp
    show "v div 64 mod 64 = z" unfolding 1 by (intro add_mod_below xyz(7)) simp
    have "v div 4096 = v div 64 div 64" by (simp add: div_mult2_eq [symmetric])
    then have 2: "v div 4096 = x * 64 + y" using xyz(7) by (simp add: 1)
    then show "v div 4096 mod 64 = y" using xyz(6) by simp
    have "v div 262144 = v div 4096 div 64" by (simp add: div_mult2_eq [symmetric])
    then show "v div 262144 = x" using xyz(6) by (simp add: 2)
  qed
  have "x = 0 \<longrightarrow> 16 \<le> y" "x = 4 \<longrightarrow> y < 16" using b xyz(1,2) by auto
  moreover have "x = 0 \<or> 1 \<le> x \<and> x \<le> 3 \<or> x = 4" using xyz(5) by linarith
  ultimately have "65536 \<le> v \<and> v \<le> 1114111"
    using xyz(5-8) unfolding v_def by auto
  then show ?thesis
    unfolding r v_def [symmetric] by (simp add: encode_rune.simps parts xyz(1-4) [symmetric])
qed

text \<open>A rune that decodes without error is encoded as it was, and nothing after it matters.\<close>

lemma decode_rune_read:
  assumes "decode_rune s = (r, w)" "s \<noteq> []" "(r, w) \<noteq> (rune_error, 1)"
  shows "encode_rune r = take w s \<and> w \<le> length s \<and> decode_rune (take w s @ t) = (r, w)"
proof -
  obtain a s1 where s: "s = a # s1" using assms(2) by (cases s) auto
  consider "byte a < 128" | "194 \<le> byte a" "byte a \<le> 223" | "224 \<le> byte a" "byte a \<le> 239"
    | "240 \<le> byte a" "byte a \<le> 244"
    using assms(1,3) unfolding s by (fastforce simp: Let_def split: if_splits)
  then show ?thesis
  proof cases
    case 1
    then show ?thesis using assms(1) by (auto simp: s encode_rune_ascii)
  next
    case 2
    then obtain b s2 where "s1 = b # s2" "continuation 128 191 b" "r = byte a mod 32 * 64 + byte b mod 64" "w = 2"
      using assms(1,3) by (auto simp: s Let_def split: list.splits if_splits)
    then show ?thesis using 2 encode_two [of a b] by (simp add: s Let_def)
  next
    case 3
    then obtain b c s2 where "s1 = b # c # s2" "continuation (second_lo (byte a)) (second_hi (byte a)) b"
      "continuation 128 191 c" "r = byte a mod 16 * 4096 + byte b mod 64 * 64 + byte c mod 64" "w = 3"
      using assms(1,3) by (auto simp: s Let_def split: list.splits if_splits)
    then show ?thesis using 3 encode_three [of a b c] by (simp add: s Let_def)
  next
    case 4
    then obtain b c d s2 where "s1 = b # c # d # s2" "continuation (second_lo (byte a)) (second_hi (byte a)) b"
      "continuation 128 191 c" "continuation 128 191 d"
      "r = byte a mod 8 * 262144 + byte b mod 64 * 4096 + byte c mod 64 * 64 + byte d mod 64" "w = 4"
      using assms(1,3) by (auto simp: s Let_def split: list.splits if_splits)
    then show ?thesis using 4 encode_four [of a b c d] by (simp add: s Let_def)
  qed
qed

subsection \<open>Strings\<close>

lemma get_u4_digits:
  "a < 16 \<Longrightarrow> b < 16 \<Longrightarrow> c < 16 \<Longrightarrow> d < 16 \<Longrightarrow>
   get_u4 (hex_digit a # hex_digit b # hex_digit c # hex_digit d # t) = Some (((a * 16 + b) * 16 + c) * 16 + d, t)"
  by (simp add: hex_value_digit)

lemma four_digits:
  assumes "r < 65536"
  shows "((r div 4096 mod 16 * 16 + r div 256 mod 16) * 16 + r div 16 mod 16) * 16 + r mod 16 = (r::nat)"
proof -
  define a where "a = r div 16"
  define b where "b = a div 16"
  define c where "c = b div 16"
  have "r div 256 = b" "r div 4096 = c" by (simp_all add: a_def b_def c_def div_mult2_eq [symmetric])
  moreover have "c < 16" using assms by (simp add: a_def b_def c_def)
  moreover have "c * 16 + b mod 16 = b" "b * 16 + a mod 16 = a" "a * 16 + r mod 16 = r"
    by (simp_all add: a_def b_def c_def)
  ultimately show ?thesis by (simp add: a_def [symmetric])
qed

lemma scan_u_escape:
  assumes "r < 65536" "\<not> is_surrogate r"
  shows "scan_string (u_escape r @ t) = map_option (\<lambda>(x, y). (encode_rune r @ x, y)) (scan_string t)"
proof -
  define v where "v = [hex_digit (r div 4096 mod 16), hex_digit (r div 256 mod 16),
     hex_digit (r div 16 mod 16), hex_digit (r mod 16)]"
  have "get_u4 (v @ t) = Some (r, t)"
    using get_u4_digits [of "r div 4096 mod 16" "r div 256 mod 16" "r div 16 mod 16" "r mod 16" t] four_digits [OF assms(1)]
    by (simp only: v_def append.simps)
  then have "unquote_u (v @ t) = Some (r, t)" using assms(2) by (simp add: unquote_u_def)
  moreover have "u_escape r @ t = CHR 92 # CHR ''u'' # (v @ t)" by (simp add: u_escape_def v_def)
  ultimately show ?thesis by (simp add: scan_string.simps [of "CHR 92 # CHR ''u'' # (v @ t)"])
qed

lemma scan_plain:
  assumes "decode_rune s = (r, w)" "s \<noteq> []" "(r, w) \<noteq> (rune_error, 1)" "hd s \<noteq> CHR 34" "hd s \<noteq> CHR 92" "32 \<le> byte (hd s)"
  shows "scan_string (take w s @ t) = map_option (\<lambda>(x, y). (take w s @ x, y)) (scan_string t)"
proof -
  note read = decode_rune_read [OF assms(1-3)]
  have w: "0 < w" using decode_rune_width_pos [OF assms(2)] assms(1) by simp
  then obtain c u where c: "take w s @ t = c # u" "c = hd s" using assms(2) by (cases s; cases w) auto
  have "scan_string (take w s @ t) = map_option (\<lambda>(x, y). (encode_rune r @ x, y)) (scan_string (drop w (take w s @ t)))"
    using assms(4-6) read [of t] unfolding c(1) by (subst scan_string.simps) (simp add: c(2))
  then show ?thesis using read [of t] by simp
qed

lemma scan_short_escape:
  "simple_escape e = Some d \<Longrightarrow>
   scan_string (CHR 92 # e # t) = map_option (\<lambda>(x, y). (d # x, y)) (scan_string t)"
  by (subst scan_string.simps) (auto simp: simple_escape_def split: if_splits)

lemma short_escapes:
  "list_all (\<lambda>c. \<exists>e. quote_ascii c = [CHR 92, e] \<and> simple_escape e = Some c)
     [CHR 34, CHR 92, CHR 8, CHR 12, CHR 10, CHR 13, CHR 9]"
  by (simp add: quote_ascii_def html_safe_def simple_escape_def)

lemma scan_quoted_ascii:
  assumes "byte c < 128"
  shows "scan_string (quote_ascii c @ t) = map_option (\<lambda>(x, y). (c # x, y)) (scan_string t)"
proof -
  let ?short = "[CHR 34, CHR 92, CHR 8, CHR 12, CHR 10, CHR 13, CHR 9]"
  have "{34, 92, 8, 12, 10, 13, 9} = byte ` set ?short" by simp
  then have "c \<in> set ?short" if "byte c \<in> {34, 92, 8, 12, 10, 13, 9}"
    using that by (simp only: inj_image_mem_iff [OF inj_of_char])
  then consider "html_safe (byte c)" | "c \<in> set ?short"
    | "\<not> html_safe (byte c)" "byte c \<notin> {34, 92, 8, 12, 10, 13, 9}" by blast
  then show ?thesis
  proof cases
    case 1
    then have "scan_string (take 1 (c # t) @ t) = map_option (\<lambda>(x, y). (take 1 (c # t) @ x, y)) (scan_string t)"
      using assms by (intro scan_plain [where r = "byte c"]) (auto simp: html_safe_def rune_error_def)
    then show ?thesis using 1 by (simp add: quote_ascii_def)
  next
    case 2
    then obtain e where "quote_ascii c = [CHR 92, e]" "simple_escape e = Some c"
      using short_escapes by (auto simp: list_all_iff)
    then show ?thesis by (simp add: scan_short_escape)
  next
    case 3
    then have "quote_ascii c = u_escape (byte c)" by (simp add: quote_ascii_def)
    moreover have "encode_rune (byte c) = [c]" using assms by (rule encode_rune_ascii)
    ultimately show ?thesis using assms by (simp add: scan_u_escape is_surrogate_def)
  qed
qed

text \<open>What the encoder writes between the quotes of a valid string, the decoder reads back.\<close>

lemma scan_quote_body: "valid_utf8 s \<Longrightarrow> scan_string (quote_body s @ CHR 34 # t) = Some (s, t)"
proof (induction s rule: quote_body.induct)
  case (1 s)
  show ?case
  proof (cases "s = []")
    case True
    then show ?thesis by (simp add: quote_body.simps [of "[]"] scan_string.simps [of "CHR 34 # t"])
  next
    case False
    obtain r w where rw: "decode_rune s = (r, w)" by fastforce
    have ok: "(r, w) \<noteq> (rune_error, 1)" and rest: "valid_utf8 (drop w s)"
      using 1(2) False rw by (simp_all add: valid_utf8.simps [of s] split: if_splits)
    have ih: "scan_string (quote_body (drop w s) @ CHR 34 # t) = Some (drop w s, t)"
      using 1(1) [OF False] rw rest by simp
    note read = decode_rune_read [OF rw False ok]
    consider "byte (hd s) < 128" | "128 \<le> byte (hd s)" "r = 8232 \<or> r = 8233" | "128 \<le> byte (hd s)" "r \<noteq> 8232" "r \<noteq> 8233"
      by linarith
    then show ?thesis
    proof cases
      case 1
      then have w: "w = 1" using rw False by (cases s) auto
      then have "quote_body s = quote_ascii (hd s) @ quote_body (drop w s)"
        using 1 False rw by (simp add: quote_body.simps [of s] Let_def)
      then show ?thesis using scan_quoted_ascii [OF 1] ih w False by (cases s) simp_all
    next
      case 2
      then have "quote_body s = u_escape r @ quote_body (drop w s)"
        using ok False rw by (auto simp: quote_body.simps [of s] Let_def rune_error_def)
      moreover have "r < 65536" "\<not> is_surrogate r" using 2 by (auto simp: is_surrogate_def)
      ultimately show ?thesis using ih read [of "[]"] by (simp add: scan_u_escape)
    next
      case 3
      then have "quote_body s = take w s @ quote_body (drop w s)"
        using ok False rw by (auto simp: quote_body.simps [of s] Let_def)
      moreover have "hd s \<noteq> CHR 34" "hd s \<noteq> CHR 92" "32 \<le> byte (hd s)" using 3 by auto
      ultimately show ?thesis using ih by (simp add: scan_plain [OF rw False ok])
    qed
  qed
qed

subsection \<open>Numbers\<close>

text \<open>Text that may follow a number literal.\<close>

definition number_stop :: "string \<Rightarrow> bool" where
  "number_stop t \<longleftrightarrow> t = [] \<or> (\<not> is_digit (hd t) \<and> hd t \<notin> {CHR ''.'', CHR ''e'', CHR ''E'', CHR ''+'', CHR ''-''})"

definition number_literal :: "string \<Rightarrow> bool" where
  "number_literal n \<longleftrightarrow> scan_number n = Some (n, [])"

lemma span_digits_append:
  "snd (span_digits s) \<noteq> [] \<or> number_stop t \<Longrightarrow> span_digits (s @ t) = (fst (span_digits s), snd (span_digits s) @ t)"
  by (induction s) (auto simp: span_digits_def number_stop_def takeWhile_eq_Nil_iff dropWhile_eq_self_iff)

lemma scan_int_append:
  "scan_int s = Some (i, r) \<Longrightarrow> r \<noteq> [] \<or> number_stop t \<Longrightarrow> scan_int (s @ t) = Some (i, r @ t)"
  using span_digits_append [of s t] by (auto simp: scan_int_def split: list.splits if_splits)

lemma scan_frac_append:
  "scan_frac s = Some (f, r) \<Longrightarrow> r \<noteq> [] \<or> number_stop t \<Longrightarrow> scan_frac (s @ t) = Some (f, r @ t)"
  using span_digits_append [of "tl s" t]
  by (cases s; cases t) (auto simp: scan_frac_def number_stop_def split: if_splits)

lemma scan_exp_append:
  assumes "scan_exp s = Some (e, r)" "r \<noteq> [] \<or> number_stop t"
  shows "scan_exp (s @ t) = Some (e, r @ t)"
proof (cases s)
  case Nil
  then show ?thesis using assms by (cases t) (auto simp: scan_exp_def number_stop_def)
next
  case (Cons c u)
  obtain sg v where sg: "scan_sign u = (sg, v)" by fastforce
  show ?thesis
  proof (cases "c = CHR ''e'' \<or> c = CHR ''E''")
    case False
    then show ?thesis using assms Cons by (auto simp: scan_exp_def)
  next
    case True
    then have r: "e = c # sg @ fst (span_digits v)" "r = snd (span_digits v)" "fst (span_digits v) \<noteq> []"
      using assms(1) Cons sg by (auto simp: scan_exp_def Let_def split: prod.splits if_splits)
    then have "v \<noteq> []" by (auto simp: span_digits_def)
    then have "scan_sign (u @ t) = (sg, v @ t)"
      using sg by (auto simp: scan_sign_def split: list.splits if_splits)
    moreover have "span_digits (v @ t) = (fst (span_digits v), r @ t)"
      using span_digits_append [of v t] assms(2) r(2) by simp
    ultimately show ?thesis using True r Cons by (simp add: scan_exp_def)
  qed
qed

lemma scan_number_append:
  assumes "number_literal n" "number_stop t"
  shows "scan_number (n @ t) = Some (n, t)"
proof -
  obtain neg s0 where neg: "(case n of [] \<Rightarrow> ([], n) | c # t \<Rightarrow> if c = CHR ''-'' then ([c], t) else ([], n)) = (neg, s0)"
    by fastforce
  obtain i s1 f s2 e where parts: "scan_int s0 = Some (i, s1)" "scan_frac s1 = Some (f, s2)" "scan_exp s2 = Some (e, [])"
    "n = neg @ i @ f @ e"
    using assms(1) neg unfolding number_literal_def scan_number_def
    by (auto split: option.splits prod.splits)
  have "s0 \<noteq> []" using parts(1) by (auto simp: scan_int_def)
  then have head: "(case n @ t of [] \<Rightarrow> ([], n @ t) | c # t' \<Rightarrow> if c = CHR ''-'' then ([c], t') else ([], n @ t)) = (neg, s0 @ t)"
    using neg by (auto split: list.splits if_splits)
  show ?thesis unfolding scan_number_def head
    using scan_int_append [OF parts(1), of t] scan_frac_append [OF parts(2), of t] scan_exp_append [OF parts(3), of t]
      assms(2) parts(4)
    by simp
qed

lemma number_literal_first:
  assumes "number_literal n"
  obtains c s where "n = c # s" "c = CHR ''-'' \<or> is_digit c"
proof (cases n)
  case Nil
  then show ?thesis using assms by (simp add: number_literal_def scan_number_def scan_int_def)
next
  case (Cons c s)
  then show ?thesis using assms that
    by (auto simp: number_literal_def scan_number_def scan_int_def is_digit_def split: if_splits)
qed

subsection \<open>Values\<close>

fun json_wf :: "json \<Rightarrow> bool" where
  "json_wf (JNum n) = number_literal n"
| "json_wf (JStr s) = valid_utf8 s"
| "json_wf (JArr xs) = (\<forall>x \<in> set xs. json_wf x)"
| "json_wf (JObj m) = (\<forall>p \<in> set m. case p of (k, v) \<Rightarrow> valid_utf8 k \<and> json_wf v)"
| "json_wf v = True"

text \<open>At most \<open>d\<close> containers around each other.\<close>

fun nested_within :: "int \<Rightarrow> json \<Rightarrow> bool" where
  "nested_within d (JArr xs) = (0 < d \<and> (\<forall>x \<in> set xs. nested_within (d - 1) x))"
| "nested_within d (JObj m) = (0 < d \<and> (\<forall>p \<in> set m. case p of (k, v) \<Rightarrow> nested_within (d - 1) v))"
| "nested_within d v = True"

lemma encode_first:
  assumes "json_wf v"
  obtains c s where "json_encode v = c # s" "\<not> is_ws c" "c \<noteq> CHR '']''" "c \<noteq> CHR ''}''"
proof (cases v)
  case (JNum n)
  then obtain c s where "n = c # s" "c = CHR ''-'' \<or> is_digit c" using assms number_literal_first by auto
  moreover from this have "c \<noteq> CHR '']''" "c \<noteq> CHR ''}''" by (auto simp: is_digit_def)
  ultimately show ?thesis using JNum that by (auto simp: is_ws_def is_digit_def)
next
  case (JBool b)
  then show ?thesis using that by (cases b) (auto simp: is_ws_def)
qed (use that in \<open>auto simp: is_ws_def json_quote_def\<close>)

lemma skip_ws_Cons [simp]: "\<not> is_ws c \<Longrightarrow> skip_ws (c # s) = c # s"
  by (simp add: skip_ws_def)

lemma ws_delimiters [simp]: "\<not> is_ws (CHR '','')" "\<not> is_ws (CHR '':'')" "\<not> is_ws (CHR '']'')" "\<not> is_ws (CHR ''}'')"
  "\<not> is_ws (CHR ''['')" "\<not> is_ws (CHR ''{'')" "\<not> is_ws (CHR 34)"
  by (simp_all add: is_ws_def)

lemma stop_delimiters [simp]: "number_stop (CHR '','' # t)" "number_stop (CHR '']'' # t)" "number_stop (CHR ''}'' # t)"
  "number_stop []"
  by (simp_all add: number_stop_def is_digit_def)

text \<open>What is claimed of one value, for every depth, fuel and following text.\<close>

definition reads_back :: "json \<Rightarrow> bool" where
  "reads_back v \<longleftrightarrow> (\<forall>n d t. json_wf v \<longrightarrow> nested_within d v \<longrightarrow> 2 * length (json_encode v) \<le> n \<longrightarrow> number_stop t \<longrightarrow>
     parse_value n d (json_encode v @ t) = Some (v, t))"

lemma reads_backD:
  "reads_back v \<Longrightarrow> json_wf v \<Longrightarrow> nested_within d v \<Longrightarrow> 2 * length (json_encode v) \<le> n \<Longrightarrow> number_stop t \<Longrightarrow>
   parse_value n d (json_encode v @ t) = Some (v, t)"
  by (simp add: reads_back_def)

lemma reads_backI:
  assumes "\<And>m d t. json_wf v \<Longrightarrow> nested_within d v \<Longrightarrow> 2 * length (json_encode v) \<le> Suc m \<Longrightarrow> number_stop t \<Longrightarrow>
    parse_value (Suc m) d (json_encode v @ t) = Some (v, t)"
  shows "reads_back v"
  unfolding reads_back_def
proof (intro allI impI)
  fix n d t
  assume a: "json_wf v" "nested_within d v" "2 * length (json_encode v) \<le> n" "number_stop t"
  obtain c s where "json_encode v = c # s" using a(1) by (rule encode_first)
  then obtain m where "n = Suc m" using a(3) by (cases n) auto
  then show "parse_value n d (json_encode v @ t) = Some (v, t)" using assms a by simp
qed

lemma elems_read_back:
  assumes "xs \<noteq> []" "\<forall>x \<in> set xs. reads_back x \<and> json_wf x \<and> nested_within d x"
    and "2 * length (join_char (CHR '','') (map json_encode xs)) + 1 \<le> n"
  shows "parse_elems n d (join_char (CHR '','') (map json_encode xs) @ CHR '']'' # t) = Some (xs, t)"
  using assms
proof (induction xs arbitrary: n)
  case (Cons x xs)
  then obtain m where n: "n = Suc m" by (cases n) auto
  show ?case
  proof (cases "xs = []")
    case True
    then have "parse_value m d (json_encode x @ CHR '']'' # t) = Some (x, CHR '']'' # t)"
      using Cons.prems n by (intro reads_backD) auto
    then show ?thesis using True by (simp add: n)
  next
    case False
    let ?rest = "join_char (CHR '','') (map json_encode xs) @ CHR '']'' # t"
    have join: "join_char (CHR '','') (map json_encode (x # xs)) @ CHR '']'' # t = json_encode x @ CHR '','' # ?rest"
      using False by (cases xs) simp_all
    have len: "2 * length (json_encode x) + 2 + 2 * length (join_char (CHR '','') (map json_encode xs)) \<le> m"
      using Cons.prems(3) False by (cases xs) (simp_all add: n)
    then have "parse_value m d (json_encode x @ CHR '','' # ?rest) = Some (x, CHR '','' # ?rest)"
      using Cons.prems by (intro reads_backD) auto
    moreover have "parse_elems m d ?rest = Some (xs, t)"
      using Cons.prems(2) False len by (intro Cons.IH) auto
    ultimately show ?thesis unfolding n join by simp
  qed
qed simp

lemma members_read_back:
  assumes "m \<noteq> []" "\<forall>(k, v) \<in> set m. valid_utf8 k \<and> reads_back v \<and> json_wf v \<and> nested_within d v"
    and "2 * length (join_char (CHR '','') (map (\<lambda>kv. json_quote (fst kv) @ CHR '':'' # json_encode (snd kv)) m)) + 1 \<le> n"
  shows "parse_members n d (join_char (CHR '','') (map (\<lambda>kv. json_quote (fst kv) @ CHR '':'' # json_encode (snd kv)) m) @
    CHR ''}'' # t) = Some (m, t)"
  using assms
proof (induction m arbitrary: n)
  case (Cons kv m)
  let ?f = "\<lambda>kv. json_quote (fst kv) @ CHR '':'' # json_encode (snd kv)"
  obtain k v where kv: "kv = (k, v)" by fastforce
  obtain n' where n: "n = Suc n'" using Cons.prems(3) by (cases n) auto
  have v: "valid_utf8 k" "reads_back v" "json_wf v" "nested_within d v" using Cons.prems(2) kv by auto
  show ?case
  proof (cases "m = []")
    case True
    then have "parse_value n' d (json_encode v @ CHR ''}'' # t) = Some (v, CHR ''}'' # t)"
      using Cons.prems(3) v by (intro reads_backD) (auto simp: n kv)
    then show ?thesis using True v(1) by (simp add: n kv json_quote_def scan_quote_body)
  next
    case False
    let ?rest = "join_char (CHR '','') (map ?f m) @ CHR ''}'' # t"
    have join: "join_char (CHR '','') (map ?f (kv # m)) @ CHR ''}'' # t = ?f kv @ CHR '','' # ?rest"
      using False by (cases m) simp_all
    have len: "2 * length (json_encode v) + 2 + 2 * length (join_char (CHR '','') (map ?f m)) \<le> n'"
      using Cons.prems(3) False by (cases m) (simp_all add: n kv)
    then have "parse_value n' d (json_encode v @ CHR '','' # ?rest) = Some (v, CHR '','' # ?rest)"
      using v by (intro reads_backD) auto
    moreover have "parse_members n' d ?rest = Some (m, t)"
      using Cons.prems(2) False len by (intro Cons.IH) auto
    ultimately show ?thesis unfolding n join using v(1) by (simp add: kv json_quote_def scan_quote_body)
  qed
qed simp

lemma value_reads_back: "reads_back v"
proof (induction v)
  case (JNum x)
  show ?case
  proof (rule reads_backI)
    fix m d t
    assume a: "json_wf (JNum x)" "number_stop t"
    then obtain c s where x: "x = c # s" "c = CHR ''-'' \<or> is_digit c" using number_literal_first [of x] by auto
    then have "\<not> is_ws c" "c \<noteq> CHR 34" "c \<noteq> CHR ''{''" "c \<noteq> CHR ''[''" "c \<noteq> CHR ''t''" "c \<noteq> CHR ''f''" "c \<noteq> CHR ''n''"
      by (auto simp: is_ws_def is_digit_def)
    then show "parse_value (Suc m) d (json_encode (JNum x) @ t) = Some (JNum x, t)"
      using a scan_number_append [of x t] x(1) by (simp add: has_prefix_def)
  qed
next
  case (JArr xs)
  show ?case
  proof (rule reads_backI)
    fix m d t
    assume a: "json_wf (JArr xs)" "nested_within d (JArr xs)" "2 * length (json_encode (JArr xs)) \<le> Suc m"
    show "parse_value (Suc m) d (json_encode (JArr xs) @ t) = Some (JArr xs, t)"
    proof (cases xs)
      case Nil
      then show ?thesis using a(2) by (simp add: has_prefix_def)
    next
      case (Cons x ys)
      then have "json_wf x" using a(1) by simp
      then obtain c s where "json_encode x = c # s" "\<not> is_ws c" "c \<noteq> CHR '']''" by (rule encode_first)
      then have "\<not> has_prefix (skip_ws (join_char (CHR '','') (map json_encode xs) @ CHR '']'' # t)) '']''"
        using Cons by (cases ys) (simp_all add: has_prefix_def)
      moreover have "parse_elems m (d - 1) (join_char (CHR '','') (map json_encode xs) @ CHR '']'' # t) = Some (xs, t)"
        using a JArr.IH Cons by (intro elems_read_back) auto
      ultimately show ?thesis using a(2) by simp
    qed
  qed
next
  case (JObj ms)
  let ?f = "\<lambda>kv. json_quote (fst kv) @ CHR '':'' # json_encode (snd kv)"
  show ?case
  proof (rule reads_backI)
    fix m d t
    assume a: "json_wf (JObj ms)" "nested_within d (JObj ms)" "2 * length (json_encode (JObj ms)) \<le> Suc m"
    show "parse_value (Suc m) d (json_encode (JObj ms) @ t) = Some (JObj ms, t)"
    proof (cases ms)
      case Nil
      then show ?thesis using a(2) by (simp add: has_prefix_def)
    next
      case (Cons x ys)
      have "\<not> has_prefix (skip_ws (join_char (CHR '','') (map ?f ms) @ CHR ''}'' # t)) ''}''"
        using Cons by (cases ys) (simp_all add: has_prefix_def json_quote_def)
      moreover have "parse_members m (d - 1) (join_char (CHR '','') (map ?f ms) @ CHR ''}'' # t) = Some (ms, t)"
        using a JObj.IH Cons by (intro members_read_back) fastforce+
      ultimately show ?thesis using a(2) by simp
    qed
  qed
qed (auto intro!: reads_backI simp: json_quote_def scan_quote_body has_prefix_def is_ws_def)

theorem json_roundtrip:
  assumes "json_wf v" "nested_within max_nesting_depth v"
  shows "json_parse (json_encode v) = Some v"
  using reads_backD [OF value_reads_back assms, of "2 * length (json_encode v) + 2" "[]"]
  by (simp add: json_parse_def skip_ws_def)

text \<open>An object whose numbers are in range is decoded into the map with its members.\<close>

lemma unmarshal_map_encode:
  assumes "json_wf (JObj m)" "nested_within max_nesting_depth (JObj m)" "numbers_in_range (JObj m)"
  shows "unmarshal_map (json_encode (JObj m)) = Some (go_map (map (\<lambda>(k, v). (k, json_go v)) m))"
  using json_roundtrip [OF assms(1,2)] assms(3) by (simp add: unmarshal_map_def del: json_encode.simps)

end
