(* ===== verification/FloatLiteral.thy ===== *)
theory FloatLiteral
  imports JsonRoundtrip Strconv
begin

text \<open>
  The numbers that \<^verbatim>\<open>encoding/json\<close> prints for \<^verbatim>\<open>float64\<close> values are number literals that its decoder accepts:
  well formed, and within the range of \<^verbatim>\<open>float64\<close>. With the strings and the nesting of whatever the decoder returns, this
  makes every decoded value one that can be stored and read back.
\<close>

subsection \<open>The largest number\<close>

lemma pow10_pos [simp]: "0 < pow10 k" "pow10 k \<noteq> 0"
  by (simp_all add: pow10_def)

lemma pow10_powi: "pow10 k = 10 powi k"
  by (simp add: pow10_def power_int_def inverse_eq_divide power_one_over)

lemma pow10_add: "pow10 (a + b) = pow10 a * pow10 b"
  by (simp add: pow10_powi power_int_add)

lemma pow10_nat: "pow10 (int n) = 10 ^ n"
  by (simp add: pow10_def)

text \<open>The unit of the numbers in the last binade; the largest number has 53 bits of it.\<close>

definition top_unit :: rat where "top_unit = pow2 971"

lemma top_unit_pos [simp]: "0 < top_unit" "top_unit \<noteq> 0" "0 \<le> top_unit"
  by (simp_all add: top_unit_def)

lemma top_powers: "pow2 1023 = 2 ^ 52 * top_unit" "pow2 1024 = 2 ^ 53 * top_unit"
  using pow2_add_nat [of 971 52] pow2_add_nat [of 971 53] by (simp_all add: top_unit_def)

lemma limit_units: "of_nat float64_limit = (2 ^ 53 - 1 / 2) * top_unit"
  by (simp add: float64_limit_def top_unit_def pow2_def)

lemma top_exponent:
  assumes "2 ^ 52 * top_unit \<le> x" "x < 2 ^ 53 * top_unit"
  shows "round64 x = of_int (round_even (x / top_unit)) * top_unit"
proof -
  have "ilog2 x = 1023" using assms by (intro ilog2_eq) (simp_all add: top_powers [simplified])
  moreover have "0 < x" using assms(1) by (rule less_le_trans [rotated]) simp
  ultimately show ?thesis by (simp add: round64_pos unit_exponent_def top_unit_def)
qed

lemma round64_limit: "round64 (of_nat float64_limit) = 2 ^ 53 * top_unit"
proof -
  have "(of_nat float64_limit :: rat) / top_unit = 18014398509481983 / 2" by (simp add: limit_units)
  moreover have "round_even (18014398509481983 / 2) = 2 ^ 53"
  proof -
    have "\<lfloor>18014398509481983 / 2 :: rat\<rfloor> = 9007199254740991" by (simp add: floor_eq_iff)
    then show ?thesis by (simp add: round_even_def Let_def)
  qed
  ultimately show ?thesis by (subst top_exponent) (simp_all add: limit_units)
qed

lemma round64_below:
  assumes "x < of_nat float64_limit"
  shows "round64 x \<le> (2 ^ 53 - 1) * top_unit"
proof (cases "2 ^ 52 * top_unit \<le> x")
  case True
  have "x / top_unit < 2 ^ 53 - 1 / 2" using assms by (simp add: limit_units divide_less_eq)
  then have "(of_int (round_even (x / top_unit)) :: rat) < 2 ^ 53"
    using round_even_near [of "x / top_unit"] unfolding abs_le_iff by linarith
  then have "of_int (round_even (x / top_unit)) < (of_int (2 ^ 53) :: rat)" by simp
  then have "round_even (x / top_unit) \<le> 2 ^ 53 - 1" by (simp only: of_int_less_iff)
  then have "(of_int (round_even (x / top_unit)) :: rat) \<le> of_int (2 ^ 53 - 1)" by (simp only: of_int_le_iff)
  then have "of_int (round_even (x / top_unit)) * top_unit \<le> (2 ^ 53 - 1) * top_unit" by (intro mult_right_mono) simp_all
  moreover have "x < 2 ^ 53 * top_unit" using assms by (rule less_le_trans) (simp add: limit_units)
  ultimately show ?thesis using True by (simp add: top_exponent)
next
  case False
  then have "round64 x \<le> round64 (2 ^ 52 * top_unit)" by (intro round64_mono) simp
  also have "round64 (2 ^ 52 * top_unit) = 2 ^ 52 * top_unit"
  proof -
    have "round_even (of_int (2 ^ 52)) = 2 ^ 52" by (rule round_even_int)
    then show ?thesis by (subst top_exponent) simp_all
  qed
  also have "\<dots> \<le> (2 ^ 53 - 1) * top_unit" by simp
  finally show ?thesis .
qed

lemma rounds_below_limit: "round64 y \<le> (2 ^ 53 - 1) * top_unit \<Longrightarrow> y < of_nat float64_limit"
  using round64_mono [of "of_nat float64_limit" y] top_unit_pos(1) by (force simp: round64_limit)

lemma round64_least: "0 < round64 q \<Longrightarrow> 1 / 2 ^ 1074 \<le> round64 q"
proof -
  assume r: "0 < round64 q"
  have "0 < q" using r round64_nonneg [of "- q"] by (cases "0 < q") (simp_all add: round64_minus)
  then have q: "round64 q = of_int (round_even (q / pow2 (unit_exponent q))) * pow2 (unit_exponent q)" by (rule round64_pos)
  then have "0 < round_even (q / pow2 (unit_exponent q))"
    using r pow2_pos(3) [of "unit_exponent q"] by (auto simp: zero_less_mult_iff simp del: pow2_pos(3))
  then have "1 \<le> (of_int (round_even (q / pow2 (unit_exponent q))) :: rat)" by simp
  then have "1 * pow2 (unit_exponent q) \<le> round64 q" unfolding q by (intro mult_right_mono) simp_all
  moreover have "pow2 (- 1074) \<le> pow2 (unit_exponent q)" by (intro pow2_mono) (simp add: unit_exponent_def)
  ultimately show ?thesis by (simp add: pow2_def [of "- 1074"])
qed

subsection \<open>The shortest digits\<close>

lemma pow10_least: "pow10 (- 330) \<le> 1 / 2 ^ 1074"
  by (simp add: pow10_def)

lemma floor_log10_le:
  assumes "1 / 2 ^ 1074 \<le> v"
  shows "pow10 (floor_log10 v) \<le> v"
proof -
  define ks :: "int list" where "ks = rev [- 330..309]"
  have "- 330 \<in> set ks" unfolding ks_def set_rev set_upto by simp
  moreover have "pow10 (- 330) \<le> v" using pow10_least assms by (rule order_trans)
  ultimately obtain k where k: "find (\<lambda>k. pow10 k \<le> v) ks = Some k"
    by (cases "find (\<lambda>k. pow10 k \<le> v) ks") (auto simp: find_None_iff)
  then have "pow10 k \<le> v" by (auto simp: find_Some_iff)
  then show ?thesis unfolding floor_log10_def ks_def [symmetric] k by simp
qed

lemma digits_rounding_sound: "digits_rounding v k n = Some m \<Longrightarrow> round64 (of_nat m * pow10 (k - int n + 1)) = v"
  by (auto simp: digits_rounding_def Let_def split: if_splits)

text \<open>A \<^verbatim>\<open>float64\<close> has at most 53 significant bits, and everything within half a unit of one rounds to it.\<close>

lemma round_even_close: "\<bar>q - of_int n\<bar> < 1 / 2 \<Longrightarrow> round_even q = n"
proof -
  assume q: "\<bar>q - of_int n\<bar> < 1 / 2"
  have "\<bar>of_int (round_even q - n)\<bar> < (1 :: rat)" using round_even_near [of q] q unfolding of_int_diff by linarith
  then show ?thesis by (simp add: abs_less_iff)
qed

lemma below_units: "0 < y \<Longrightarrow> y < 2 ^ 53 * pow2 (unit_exponent y)"
proof -
  assume "0 < y"
  then have "y < pow2 (ilog2 y + 1)" by (rule ilog2_bounds)
  also have "\<dots> \<le> pow2 (unit_exponent y + int 53)" by (intro pow2_mono) (simp add: unit_exponent_def)
  finally show ?thesis using pow2_add_nat [of "unit_exponent y" 53] by simp
qed

lemma round64_form:
  assumes "0 < round64 y"
  obtains n E where "round64 y = of_int n * pow2 E" "0 < n" "n < 2 ^ 53" "- 1074 \<le> E"
proof -
  have y: "0 < y" using assms round64_nonneg [of "- y"] by (cases "0 < y") (simp_all add: round64_minus)
  define E where "E = unit_exponent y"
  define n where "n = round_even (y / pow2 E)"
  have v: "round64 y = of_int n * pow2 E" using round64_pos [OF y] by (simp add: n_def E_def)
  have n0: "0 < n" using assms pow2_pos(1) [of E] unfolding v by (auto simp: zero_less_mult_iff)
  have "y / pow2 E \<le> of_int (2 ^ 53)" using below_units [OF y] by (simp add: E_def divide_le_eq)
  then have "n \<le> 2 ^ 53" unfolding n_def using round_even_mono round_even_int by metis
  moreover have "- 1074 \<le> E" by (simp add: E_def unit_exponent_def)
  moreover have "round64 y = of_int (2 ^ 52) * pow2 (E + 1)" if "n = 2 ^ 53" using v that by (simp add: pow2_Suc)
  ultimately show ?thesis using that [of n E] that [of "2 ^ 52" "E + 1"] v n0 by (cases "n = 2 ^ 53") auto
qed

lemma round64_close:
  assumes "v = of_int n * pow2 E" "0 < n" "n < 2 ^ 53" "- 1074 \<le> E" "\<bar>x - v\<bar> * 2 ^ 54 < v"
  shows "round64 x = v"
proof -
  have v: "0 < v" using assms(1,2) by simp
  have x: "0 < x" "x * 2 ^ 54 < v * (2 ^ 54 + 1)" using assms(5) v by (simp_all add: abs_if split: if_splits)
  define e where "e = unit_exponent x"
  have "(of_int n :: rat) \<le> of_int (2 ^ 53 - 1)" using assms(3) by (simp only: of_int_le_iff)
  then have "v \<le> (2 ^ 53 - 1) * pow2 E" unfolding assms(1) by (intro mult_right_mono) simp_all
  then have "x < 2 ^ 53 * pow2 E" using x(2) pow2_pos(1) [of E] by (simp del: pow2_pos)
  then have "x < pow2 (E + 53)" using pow2_add_nat [of E 53] by simp
  then have "pow2 (ilog2 x) < pow2 (E + 53)" using ilog2_bounds(1) [OF x(1)] by linarith
  then have e: "e \<le> E" using pow2_less_cancel assms(4) by (fastforce simp: e_def unit_exponent_def)
  define M where "M = n * 2 ^ nat (E - e)"
  have vM: "v = of_int M * pow2 e" using pow2_add_nat [of e "nat (E - e)"] e by (simp add: M_def assms(1))
  have xe: "x < 2 ^ 53 * pow2 e" unfolding e_def using x(1) by (rule below_units)
  have "v * (2 ^ 54 - 1) < x * 2 ^ 54" using assms(5) by (simp add: abs_if split: if_splits)
  with xe have "v < (2 ^ 53 + 1) * pow2 e" using pow2_pos(1) [of e] by (simp del: pow2_pos)
  then have "of_int M < (of_int (2 ^ 53 + 1) :: rat)" unfolding vM by simp
  then have "M \<le> 2 ^ 53" by (simp only: of_int_less_iff)
  then have "(of_int M :: rat) \<le> of_int (2 ^ 53)" by (simp only: of_int_le_iff)
  then have "v \<le> 2 ^ 53 * pow2 e" unfolding vM by (intro mult_right_mono) simp_all
  then have "\<bar>x - v\<bar> * 2 < pow2 e" using assms(5) by simp
  then have "\<bar>x / pow2 e - of_int M\<bar> < 1 / 2"
    using vM by (simp add: abs_less_iff field_simps)
  then show ?thesis using round64_pos [OF x(1)] vM round_even_close by (simp add: e_def)
qed

text \<open>Seventeen digits are enough, so the digits that are printed read back as the number.\<close>

lemma seventeen_digits:
  assumes "v = round64 x" "0 < v" "pow10 k \<le> v"
  shows "digits_rounding v k 17 \<noteq> None"
proof -
  define u where "u = pow10 (k - 16)"
  have u: "0 < u" "u * 10 ^ 16 \<le> v" using assms(3) pow10_add [of "k - 16" 16] by (simp_all add: u_def pow10_def [of 16])
  define lo where "lo = nat \<lfloor>v / u\<rfloor>"
  define m where "m = (if v / u - of_nat lo \<le> 1 / 2 then lo else lo + 1)"
  have "of_nat lo \<le> v / u" "v / u < of_nat lo + 1"
    using assms(2) u(1) floor_correct [of "v / u"] by (simp_all add: lo_def)
  then have "\<bar>of_nat m - v / u\<bar> \<le> 1 / 2" by (auto simp: m_def abs_if)
  then have "\<bar>of_nat m - v / u\<bar> * u \<le> 1 / 2 * u" using u(1) by (intro mult_right_mono) simp_all
  moreover have "\<bar>of_nat m - v / u\<bar> * u = \<bar>of_nat m * u - v\<bar>" using u(1) by (simp add: abs_if field_simps)
  ultimately have "\<bar>of_nat m * u - v\<bar> * 2 ^ 54 < v" using u assms(2) by simp
  moreover obtain n E where "v = of_int n * pow2 E" "0 < n" "n < 2 ^ 53" "- 1074 \<le> E"
    using assms(1,2) round64_form [of x] by metis
  ultimately have "round64 (of_nat m * u) = v" by (intro round64_close)
  then show ?thesis by (auto simp: digits_rounding_def Let_def u_def m_def lo_def)
qed

lemma shortest_digits_value:
  assumes "v = round64 x" "0 < v" "shortest_digits v = (m, e)"
  shows "round64 (of_nat m * pow10 e) = v"
proof -
  define k where "k = floor_log10 v"
  have k: "pow10 k \<le> v" using floor_log10_le round64_least [of x] assms(1,2) by (simp add: k_def)
  have "17 \<in> set [1..<18::nat]" by simp
  then obtain n where n: "find (\<lambda>n. digits_rounding v k n \<noteq> None) [1..<18] = Some n"
    using seventeen_digits [OF assms(1,2) k] by (cases "find (\<lambda>n. digits_rounding v k n \<noteq> None) [1..<18]")
      (auto simp: find_None_iff simp del: not_None_eq)
  then obtain m' where "digits_rounding v k n = Some m'" by (auto simp: find_Some_iff)
  then show ?thesis using digits_rounding_sound assms(3) n by (auto simp: shortest_digits_def Let_def k_def [symmetric])
qed

text \<open>The digits that are printed make a number that is not zero and is not past the largest one.\<close>

lemma shortest_digits_bounds:
  assumes "v = round64 x" "0 < v" "v \<le> (2 ^ 53 - 1) * top_unit" "shortest_digits v = (m, e)"
  shows "0 < m" "of_nat m * pow10 e < of_nat float64_limit"
  using shortest_digits_value [OF assms(1,2,4)] assms(2,3) rounds_below_limit by (cases m; auto)+

subsection \<open>The forms of a literal\<close>

lemma is_digit_decimal: "is_digit = decimal_digit"
  by (simp add: fun_eq_iff is_digit_def decimal_digit_def)

lemma digits_value_append: "digits_value (s @ t) a = digits_value t (digits_value s a)"
  by (induction s arbitrary: a) simp_all

lemma digits_value_zeros [simp]: "digits_value (replicate n (CHR ''0'')) a = a * 10 ^ n"
  by (induction n arbitrary: a) (simp_all add: algebra_simps)

lemma digits_value_decimal: "digits_value s a = decimal_value s a"
  by (induction s arbitrary: a) simp_all

lemma nat_digits_value [simp]: "digits_value (nat_digits n) 0 = n"
  by (simp add: digits_value_decimal decimal_value_digits)

definition digits :: "string \<Rightarrow> bool" where "digits s \<longleftrightarrow> list_all is_digit s"

lemma digits_simps [simp]:
  "digits []" "digits (c # s) \<longleftrightarrow> is_digit c \<and> digits s" "digits (s @ t) \<longleftrightarrow> digits s \<and> digits t"
  "digits (rev s) \<longleftrightarrow> digits s" "digits (replicate n (CHR ''0''))"
  by (auto simp: digits_def list_all_iff is_digit_def)

lemma digits_nat_digits [simp]: "digits (nat_digits n)"
  using nat_digits_digits by (simp add: digits_def is_digit_decimal)

lemma digits_parts: "digits s \<Longrightarrow> digits (take n s)" "digits s \<Longrightarrow> digits (drop n s)" "digits s \<Longrightarrow> digits (tl s)"
  "digits s \<Longrightarrow> digits (dropWhile P s)"
  by (auto simp: digits_def list_all_iff dest: in_set_takeD in_set_dropD list.set_sel(2) set_dropWhileD)
    (cases s; simp)

definition fraction :: "string \<Rightarrow> string" where
  "fraction f = (if f = [] then [] else CHR ''.'' # f)"

lemma digits_take: "digits s \<Longrightarrow> takeWhile is_digit s = s" "digits s \<Longrightarrow> dropWhile is_digit s = []"
  "digits s \<Longrightarrow> filter is_digit s = s"
  by (auto simp: digits_def list_all_iff)

lemma digit_other [simp]: "\<not> is_digit (CHR ''.'')" "\<not> is_digit (CHR ''e'')" "\<not> is_digit (CHR ''+'')" "\<not> is_digit (CHR ''-'')"
  by (simp_all add: is_digit_def)

lemma digits_span: "digits s \<Longrightarrow> t = [] \<or> \<not> is_digit (hd t) \<Longrightarrow> span_digits (s @ t) = (s, t)"
  by (cases t) (auto simp: span_digits_def digits_def list_all_iff)

lemma fraction_span: "digits s \<Longrightarrow> span_digits (s @ fraction f) = (s, fraction f)"
  "digits s \<Longrightarrow> span_digits (s @ fraction f @ CHR ''e'' # t) = (s, fraction f @ CHR ''e'' # t)"
  using digits_span [of s "[]"] by (auto simp: fraction_def intro!: digits_span)

text \<open>An integral part as a literal may have it.\<close>

definition integral :: "string \<Rightarrow> bool" where
  "integral i \<longleftrightarrow> digits i \<and> i \<noteq> [] \<and> (i = ''0'' \<or> hd i \<noteq> CHR ''0'')"

lemma scan_integral:
  "integral i \<Longrightarrow> scan_int (i @ fraction f) = Some (i, fraction f)"
  "integral i \<Longrightarrow> scan_int (i @ fraction f @ CHR ''e'' # t) = Some (i, fraction f @ CHR ''e'' # t)"
  using fraction_span [of i f] fraction_span(2) [of i f t] by (cases i; auto simp: integral_def scan_int_def)+

lemma scan_fraction:
  "digits f \<Longrightarrow> scan_frac (fraction f) = Some (fraction f, [])"
  "digits f \<Longrightarrow> scan_frac (fraction f @ CHR ''e'' # t) = Some (fraction f, CHR ''e'' # t)"
  using digits_span [of f "[]"] digits_span [of f "CHR ''e'' # t"] by (auto simp: fraction_def scan_frac_def)

definition sign :: "char \<Rightarrow> bool" where "sign c \<longleftrightarrow> c = CHR ''+'' \<or> c = CHR ''-''"

lemma scan_exponent:
  "digits x \<Longrightarrow> x \<noteq> [] \<Longrightarrow> sign c \<Longrightarrow> scan_exp (CHR ''e'' # c # x) = Some (CHR ''e'' # c # x, [])"
  using digits_span [of x "[]"] by (auto simp: scan_exp_def scan_sign_def sign_def)

lemma integral_first: "integral i \<Longrightarrow> \<exists>c t. i = c # t \<and> c \<noteq> CHR ''-'' \<and> is_digit c"
  by (cases i) (auto simp: integral_def)

lemma plain_literal: "integral i \<Longrightarrow> digits f \<Longrightarrow> number_literal (i @ fraction f)"
  using integral_first [of i] scan_integral(1) [of i f]
  by (auto simp: number_literal_def scan_number_def scan_fraction scan_exp_def)

lemma exponent_literal:
  "integral i \<Longrightarrow> digits f \<Longrightarrow> digits x \<Longrightarrow> x \<noteq> [] \<Longrightarrow> sign c \<Longrightarrow> number_literal (i @ fraction f @ CHR ''e'' # c # x)"
  using integral_first [of i] scan_integral(2) [of i f "c # x"]
  by (auto simp: number_literal_def scan_number_def scan_fraction scan_exponent)

lemma negative_literal:
  assumes "number_literal s" "\<not> has_prefix s ''-''"
  shows "number_literal (CHR ''-'' # s)"
proof -
  obtain c t where s: "s = c # t" using number_literal_first [OF assms(1)] by metis
  then have "c \<noteq> CHR ''-''" using assms(2) by (auto simp: has_prefix_def)
  then show ?thesis using assms(1) s by (auto simp: number_literal_def scan_number_def split: option.splits)
qed

subsection \<open>The magnitude of a literal\<close>

lemma not_negative: "integral i \<Longrightarrow> \<not> has_prefix (i @ t) ''-''"
  using integral_first [of i] by (auto simp: has_prefix_def)

lemma mantissa_chars: "digits i \<Longrightarrow> digits f \<Longrightarrow> c \<in> set (i @ fraction f) \<Longrightarrow> c \<noteq> CHR ''e'' \<and> c \<noteq> CHR ''E''"
  by (auto simp: digits_def list_all_iff fraction_def is_digit_def split: if_splits)

lemma mantissa:
  assumes "digits i" "digits f" "t = [] \<or> hd t = CHR ''e''"
  shows "takeWhile (\<lambda>c. c \<noteq> CHR ''e'' \<and> c \<noteq> CHR ''E'') (i @ fraction f @ t) = i @ fraction f"
    and "dropWhile (\<lambda>c. c \<noteq> CHR ''e'' \<and> c \<noteq> CHR ''E'') (i @ fraction f @ t) = t"
proof -
  let ?P = "\<lambda>c. c \<noteq> CHR ''e'' \<and> c \<noteq> CHR ''E''"
  have "\<forall>c \<in> set (i @ fraction f). ?P c" using mantissa_chars assms(1,2) by blast
  moreover have "takeWhile ?P t = []" "dropWhile ?P t = t" using assms(3) by (cases t; auto)+
  ultimately show "takeWhile ?P (i @ fraction f @ t) = i @ fraction f" "dropWhile ?P (i @ fraction f @ t) = t"
    using takeWhile_append2 [of "i @ fraction f" ?P t] dropWhile_append2 [of "i @ fraction f" ?P t] by simp_all
qed

lemma mantissa_digits:
  assumes "digits i" "digits f"
  shows "filter is_digit (i @ fraction f) = i @ f" "filter is_digit (dropWhile is_digit (i @ fraction f)) = f"
proof -
  have "dropWhile is_digit (i @ fraction f) = fraction f"
    using fraction_span(1) [OF assms(1), of f] by (simp add: span_digits_def)
  then show "filter is_digit (dropWhile is_digit (i @ fraction f)) = f"
    using assms(2) by (simp add: fraction_def digits_take)
qed (use assms in \<open>simp add: fraction_def digits_take\<close>)

lemma magnitude_parts:
  assumes "integral i" "digits f" "t = [] \<or> hd t = CHR ''e''"
  shows "literal_magnitude (i @ fraction f @ t) = of_nat (digits_value (i @ f) 0) *
    pow10 ((if has_prefix (tl t) ''-'' then - int (digits_value (filter is_digit (tl t)) 0)
      else int (digits_value (filter is_digit (tl t)) 0)) - int (length f))"
proof -
  have i: "digits i" using assms(1) by (simp add: integral_def)
  show ?thesis
    unfolding literal_magnitude_def Let_def
    by (simp only: not_negative [OF assms(1)] if_False mantissa [OF i assms(2,3)] mantissa_digits [OF i assms(2)])
qed

lemma plain_magnitude:
  "integral i \<Longrightarrow> digits f \<Longrightarrow>
   literal_magnitude (i @ fraction f) = of_nat (digits_value (i @ f) 0) * pow10 (- int (length f))"
  using magnitude_parts [of i f "[]"] by simp

lemma exponent_magnitude:
  "integral i \<Longrightarrow> digits f \<Longrightarrow> digits x \<Longrightarrow> sign c \<Longrightarrow>
   literal_magnitude (i @ fraction f @ CHR ''e'' # c # x) = of_nat (digits_value (i @ f) 0) *
    pow10 ((if c = CHR ''-'' then - int (digits_value x 0) else int (digits_value x 0)) - int (length f))"
  using magnitude_parts [of i f "CHR ''e'' # c # x"] by (auto simp: sign_def digits_take has_prefix_def)

lemma negative_magnitude: "\<not> has_prefix s ''-'' \<Longrightarrow> literal_magnitude (CHR ''-'' # s) = literal_magnitude s"
  by (simp add: literal_magnitude_def has_prefix_def)

text \<open>A literal is in range when its magnitude is.\<close>

lemma in_range_magnitude: "number_in_range s \<longleftrightarrow> literal_magnitude s < of_nat float64_limit"
proof -
  have scale: "(if 0 \<le> e then m * 10 ^ nat e < l else m < l * 10 ^ nat (- e)) \<longleftrightarrow> of_nat m * pow10 e < (of_nat l :: rat)" for m l e
  proof -
    have "(of_nat m * 10 ^ k < (of_nat l :: rat)) = (m * 10 ^ k < l)" for k
      using of_nat_less_iff [of "m * 10 ^ k" l, where ?'a = rat] by simp
    moreover have "(of_nat m < (of_nat l * 10 ^ k :: rat)) = (m < l * 10 ^ k)" for k
      using of_nat_less_iff [of m "l * 10 ^ k", where ?'a = rat] by simp
    ultimately show ?thesis by (simp add: pow10_def divide_less_eq)
  qed
  show ?thesis unfolding number_in_range_def literal_magnitude_def Let_def scale ..
qed

subsection \<open>What is printed\<close>

lemma strip_zeros_split: "\<exists>n. s = strip_zeros s @ replicate n (CHR ''0'')"
proof -
  let ?z = "takeWhile (\<lambda>c. c = CHR ''0'') (rev s)"
  have "?z = replicate (length ?z) (CHR ''0'')" by (rule replicate_eqI) (auto dest: set_takeWhileD)
  moreover have "s = strip_zeros s @ rev ?z"
    by (metis strip_zeros_def rev_append rev_rev_ident takeWhile_dropWhile_id)
  ultimately show ?thesis by (metis rev_replicate)
qed

lemma digits_strip [simp]: "digits s \<Longrightarrow> digits (strip_zeros s)"
  by (simp add: strip_zeros_def digits_parts)

text \<open>Zeros at the end of a fraction do not count.\<close>

lemma strip_value:
  "of_nat (digits_value (i @ strip_zeros f) 0) * pow10 (x - int (length (strip_zeros f))) =
   of_nat (digits_value (i @ f) 0) * pow10 (x - int (length f))"
proof -
  obtain n where n: "f = strip_zeros f @ replicate n (CHR ''0'')" using strip_zeros_split by blast
  have v: "digits_value (i @ f) 0 = digits_value (i @ strip_zeros f) 0 * 10 ^ n"
    by (subst n) (simp add: digits_value_append)
  have "length f = length (strip_zeros f) + n" by (subst n) simp
  then have "pow10 (x - int (length (strip_zeros f))) = pow10 (x - int (length f) + int n)" by simp
  then show ?thesis unfolding v by (simp add: pow10_add pow10_nat)
qed

lemma integral_digits: "0 < m \<Longrightarrow> integral (nat_digits m)"
  using nat_digits_nonempty nat_digits_leading by (simp add: integral_def)

lemma exponent_decimal_form:
  assumes "0 < m"
  obtains i f c x where "exponent_decimal m e = i @ fraction f @ CHR ''e'' # c # x" "integral i" "digits f" "digits x" "x \<noteq> []"
    "sign c" "literal_magnitude (exponent_decimal m e) = of_nat m * pow10 e"
proof -
  obtain d s where ds: "nat_digits m = d # s" using nat_digits_nonempty by (cases "nat_digits m") auto
  define x where "x = e + int (length s)"
  define c where "c = (if x < 0 then CHR ''-'' else CHR ''+'')"
  define y where "y = (if x < 0 then itoa (- x) else (if x < 10 then ''0'' else []) @ itoa x)"
  have form: "exponent_decimal m e = [d] @ fraction (strip_zeros s) @ CHR ''e'' # c # y"
    by (simp add: exponent_decimal_def ds x_def c_def y_def fraction_def Let_def)
  have d: "is_digit d" "digits s" using digits_nat_digits [of m] by (simp_all add: ds)
  then have i: "integral [d]" using nat_digits_leading [of m] assms by (simp add: integral_def ds)
  have y: "digits y" "y \<noteq> []" "digits_value y 0 = nat \<bar>x\<bar>" "sign c"
    by (simp_all add: y_def c_def itoa_def nat_digits_nonempty sign_def is_digit_def)
  have "literal_magnitude (exponent_decimal m e) =
      of_nat (digits_value ([d] @ strip_zeros s) 0) * pow10 (x - int (length (strip_zeros s)))"
    unfolding form using exponent_magnitude [OF i _ y(1,4)] d(2) y(3) by (simp add: c_def)
  also have "\<dots> = of_nat m * pow10 e"
    using nat_digits_value [of m] unfolding strip_value by (simp add: x_def ds)
  finally show ?thesis using that [OF form i _ y(1,2,4)] d(2) by simp
qed

lemma plain_decimal_form:
  assumes "0 < m"
  obtains i f where "plain_decimal m e = i @ fraction f" "integral i" "digits f"
    "literal_magnitude (plain_decimal m e) = of_nat m * pow10 e"
proof (cases "0 \<le> e")
  case True
  define i where "i = nat_digits m @ replicate (nat e) (CHR ''0'')"
  have "integral i" using integral_digits [OF assms] assms nat_digits_leading [of m]
    by (cases "nat_digits m") (auto simp: i_def integral_def)
  moreover have "plain_decimal m e = i @ fraction []" using True by (simp add: plain_decimal_def i_def fraction_def)
  moreover have "digits_value i 0 = m * 10 ^ nat e" by (simp add: i_def digits_value_append)
  ultimately show ?thesis using that [of i "[]"] True plain_magnitude [of i "[]"] by (simp add: pow10_def)
next
  case False
  define f where "f = nat (- e)"
  define p where "p = replicate (f + 1 - length (nat_digits m)) (CHR ''0'') @ nat_digits m"
  define i where "i = take (length p - f) p"
  define r where "r = drop (length p - f) p"
  have p: "digits p" "f < length p" "digits_value p 0 = m" by (auto simp: p_def digits_value_append)
  have "integral i"
  proof (cases "f < length (nat_digits m)")
    case True
    then show ?thesis using integral_digits [OF assms]
      by (cases "nat_digits m") (auto simp: i_def p_def integral_def digits_parts take_Cons split: nat.splits)
  next
    case False
    then have "length p - f = 1" "p \<noteq> []" "hd p = CHR ''0''" by (auto simp: p_def hd_append)
    then have "i = ''0''" by (cases p) (auto simp: i_def)
    then show ?thesis by (simp add: integral_def is_digit_def)
  qed
  moreover have "plain_decimal m e = i @ fraction (strip_zeros r)"
    using False by (simp add: plain_decimal_def Let_def f_def p_def i_def r_def fraction_def)
  moreover have "digits (strip_zeros r)" using p(1) by (simp add: r_def digits_parts)
  moreover have "of_nat (digits_value (i @ strip_zeros r) 0) * pow10 (- int (length (strip_zeros r))) = of_nat m * pow10 e"
    using strip_value [of i r 0] p(2,3) False by (simp add: i_def r_def f_def)
  ultimately show ?thesis using that plain_magnitude by metis
qed

text \<open>A finite \<^verbatim>\<open>float64\<close> prints as a literal that the decoder accepts.\<close>

lemma unsigned_text:
  assumes "v = round64 x" "0 < v" "v \<le> (2 ^ 53 - 1) * top_unit"
  shows "number_literal (float_text False v)" "number_in_range (float_text False v)" "\<not> has_prefix (float_text False v) ''-''"
    and "round64 (literal_magnitude (float_text False v)) = v"
proof -
  obtain m e where me: "shortest_digits v = (m, e)" by fastforce
  note bounds = shortest_digits_bounds [OF assms me]
  have forms: "float_text False v = exponent_decimal m e \<or> float_text False v = plain_decimal m e"
    using assms(2) by (simp add: float_text_def me)
  obtain i f c y where ex: "exponent_decimal m e = i @ fraction f @ CHR ''e'' # c # y" "integral i" "digits f" "digits y"
    "y \<noteq> []" "sign c" "literal_magnitude (exponent_decimal m e) = of_nat m * pow10 e"
    using bounds(1) by (rule exponent_decimal_form)
  obtain j g where pl: "plain_decimal m e = j @ fraction g" "integral j" "digits g"
    "literal_magnitude (plain_decimal m e) = of_nat m * pow10 e"
    using bounds(1) by (rule plain_decimal_form)
  show "number_literal (float_text False v)"
    using forms exponent_literal [OF ex(2-6)] plain_literal [OF pl(2,3)] by (auto simp: ex(1) pl(1))
  show "number_in_range (float_text False v)" using forms ex(7) pl(4) bounds(2) by (auto simp: in_range_magnitude)
  show "round64 (literal_magnitude (float_text False v)) = v"
    using forms ex(7) pl(4) shortest_digits_value [OF assms(1,2) me] by auto
  show "\<not> has_prefix (float_text False v) ''-''"
    using forms not_negative [OF ex(2)] not_negative [OF pl(2)] by (auto simp: ex(1) pl(1))
qed

lemma zero_text: "number_literal (float_text False 0)" "number_in_range (float_text False 0)" "\<not> has_prefix (float_text False 0) ''-''"
  "round64 (literal_magnitude (float_text False 0)) = 0"
  by (simp_all add: float_text_def literal_magnitude_def number_literal_def scan_number_def scan_int_def scan_frac_def scan_exp_def
      number_in_range_def has_prefix_def float64_limit_def)

lemma literal_magnitude_nonneg: "0 \<le> literal_magnitude s"
  by (simp add: literal_magnitude_def Let_def less_imp_le)

lemma normal_literal_parts:
  assumes "number_in_range s"
  shows "number_literal (normal_literal s)" "number_in_range (normal_literal s)"
    and "has_prefix (normal_literal s) ''-'' \<longleftrightarrow> has_prefix s ''-''"
    and "round64 (literal_magnitude (normal_literal s)) = round64 (literal_magnitude s)"
proof -
  define v where "v = round64 (literal_magnitude s)"
  have v: "0 \<le> v" "v \<le> (2 ^ 53 - 1) * top_unit"
    using round64_nonneg literal_magnitude_nonneg round64_below assms by (simp_all add: v_def in_range_magnitude)
  have t: "number_literal (float_text False v)" "number_in_range (float_text False v)" "\<not> has_prefix (float_text False v) ''-''"
    "round64 (literal_magnitude (float_text False v)) = v"
    using unsigned_text [OF v_def _ v(2)] zero_text v(1) by (cases "v = 0"; simp)+
  have neg: "float_text True v = CHR ''-'' # float_text False v" by (simp add: float_text_def)
  have "number_literal (float_text b v) \<and> number_in_range (float_text b v) \<and> (has_prefix (float_text b v) ''-'' \<longleftrightarrow> b) \<and>
      round64 (literal_magnitude (float_text b v)) = v" for b
    using t negative_literal [OF t(1,3)] negative_magnitude [OF t(3)]
    by (cases b) (simp_all add: neg in_range_magnitude has_prefix_def)
  then show "number_literal (normal_literal s)" "number_in_range (normal_literal s)"
    "has_prefix (normal_literal s) ''-'' \<longleftrightarrow> has_prefix s ''-''"
    "round64 (literal_magnitude (normal_literal s)) = round64 (literal_magnitude s)"
    by (simp_all add: normal_literal_def v_def)
qed

text \<open>Reading a printed number again gives the same \<^verbatim>\<open>float64\<close>, which prints the same.\<close>

theorem normal_literal_idem: "number_in_range s \<Longrightarrow> normal_literal (normal_literal s) = normal_literal s"
  using normal_literal_parts(3,4) by (simp add: normal_literal_def [of "normal_literal s"]) (simp add: normal_literal_def)

end
