(* ===== verification/DecodedJson.thy ===== *)
theory DecodedJson
  imports FloatLiteral RequestJson
begin

text \<open>
  What the decoder of request bodies can return: its strings are valid UTF-8, whatever bytes were sent, its values are
  nested within the decoder's limit, and its numbers print as literals the decoder accepts. A document made of a decoded request
  can therefore be stored and read back.
\<close>

subsection \<open>Decoded strings\<close>

lemma byte_of [simp]: "n < 256 \<Longrightarrow> byte (char_of n) = n"
  by simp

lemma decode_encoded:
  "\<exists>r'. decode_rune (encode_rune r @ t) = (r', length (encode_rune r)) \<and> (r', length (encode_rune r)) \<noteq> (rune_error, 1)"
proof -
  consider "r < 128" | "128 \<le> r" "r < 2048" | "55296 \<le> r \<and> r \<le> 57343 \<or> 1114111 < r"
    | "2048 \<le> r" "r < 65536" "\<not> (55296 \<le> r \<and> r \<le> 57343)" | "65536 \<le> r" "r \<le> 1114111" by linarith
  then show ?thesis
  proof cases
    case 1
    then show ?thesis by (simp add: encode_rune.simps rune_error_def)
  next
    case 2
    then have "2 \<le> r div 64" "r div 64 < 32" by simp_all
    then show ?thesis using 2 by (simp add: encode_rune.simps Let_def continuation_def)
  next
    case 3
    then show ?thesis by (auto simp: encode_rune.simps Let_def continuation_def second_lo_def second_hi_def)
  next
    case 4
    define x y where "x = r div 4096" and "y = r div 64 mod 64"
    have "r div 64 = x * 64 + y"
      using div_mult_mod_eq [of "r div 64" 64] by (simp add: x_def y_def div_mult2_eq [symmetric])
    then have "x < 16" "y < 64" "x = 0 \<longrightarrow> 32 \<le> y" "x = 13 \<longrightarrow> y < 32" using 4 by (auto simp: x_def y_def)
    moreover have "encode_rune r = [char_of (224 + x), char_of (128 + y), char_of (128 + r mod 64)]"
      using 4 by (auto simp: encode_rune.simps x_def y_def)
    moreover have "r mod 64 < 64" by simp
    ultimately show ?thesis by (auto simp: Let_def continuation_def second_lo_def second_hi_def)
  next
    case 5
    define x y where "x = r div 262144" and "y = r div 4096 mod 64"
    have "r div 4096 = x * 64 + y"
      using div_mult_mod_eq [of "r div 4096" 64] by (simp add: x_def y_def div_mult2_eq [symmetric])
    then have "x \<le> 4" "y < 64" "x = 0 \<longrightarrow> 16 \<le> y" "x = 4 \<longrightarrow> y < 16" using 5 by (auto simp: x_def y_def)
    moreover have "encode_rune r = [char_of (240 + x), char_of (128 + y), char_of (128 + r div 64 mod 64), char_of (128 + r mod 64)]"
      using 5 by (simp add: encode_rune.simps x_def y_def)
    moreover have "r mod 64 < 64" "r div 64 mod 64 < 64" by simp_all
    ultimately show ?thesis by (auto simp: Let_def continuation_def second_lo_def second_hi_def)
  qed
qed

lemma encoded_valid: "valid_utf8 t \<Longrightarrow> valid_utf8 (encode_rune r @ t)"
proof -
  assume t: "valid_utf8 t"
  have "encode_rune r \<noteq> []" by (simp add: encode_rune.simps)
  then show ?thesis using decode_encoded [of r t] t by (auto simp: valid_utf8.simps [of "encode_rune r @ t"])
qed

lemma ascii_valid: "byte c < 128 \<Longrightarrow> valid_utf8 t \<Longrightarrow> valid_utf8 (c # t)"
  using encoded_valid [of t "byte c"] by (simp add: encode_rune_ascii)

lemma simple_escape_ascii: "simple_escape e = Some d \<Longrightarrow> byte d < 128"
  by (auto simp: simple_escape_def split: if_splits)

lemma scan_string_valid: "scan_string s = Some (x, r) \<Longrightarrow> valid_utf8 x"
proof (induction s arbitrary: x r rule: scan_string.induct)
  case (1 s)
  note ih = 1(1-3)
  show ?case using 1(4) unfolding scan_string.simps [of s]
    by (auto split: list.splits if_splits option.splits intro!: encoded_valid ascii_valid
        intro: ih simple_escape_ascii simp: valid_utf8.simps [of "[]"])
qed

subsection \<open>Decoded values\<close>

fun texts_valid :: "json \<Rightarrow> bool" where
  "texts_valid (JStr s) = valid_utf8 s"
| "texts_valid (JArr xs) = (\<forall>x \<in> set xs. texts_valid x)"
| "texts_valid (JObj m) = (\<forall>p \<in> set m. case p of (k, v) \<Rightarrow> valid_utf8 k \<and> texts_valid v)"
| "texts_valid v = True"

definition decoded :: "int \<Rightarrow> json \<Rightarrow> bool" where
  "decoded d v \<longleftrightarrow> texts_valid v \<and> nested_within d v"

lemma decoded_simps [simp]:
  "decoded d JNull" "decoded d (JBool b)" "decoded d (JNum n)" "decoded d (JStr s) \<longleftrightarrow> valid_utf8 s"
  "decoded d (JArr xs) \<longleftrightarrow> 0 < d \<and> (\<forall>x \<in> set xs. decoded (d - 1) x)"
  "decoded d (JObj m) \<longleftrightarrow> 0 < d \<and> (\<forall>p \<in> set m. valid_utf8 (fst p) \<and> decoded (d - 1) (snd p))"
  by (auto simp: decoded_def)

lemma parsed:
  "(\<forall>d s v r. parse_value n d s = Some (v, r) \<longrightarrow> 0 \<le> d \<longrightarrow> decoded d v) \<and>
   (\<forall>d s vs r. parse_elems n d s = Some (vs, r) \<longrightarrow> 0 \<le> d \<longrightarrow> (\<forall>v \<in> set vs. decoded d v)) \<and>
   (\<forall>d s m r. parse_members n d s = Some (m, r) \<longrightarrow> 0 \<le> d \<longrightarrow> (\<forall>p \<in> set m. valid_utf8 (fst p) \<and> decoded d (snd p)))"
proof (induction n)
  case (Suc n)
  note ih = Suc.IH [THEN conjunct1, rule_format] Suc.IH [THEN conjunct2, THEN conjunct1, rule_format]
    Suc.IH [THEN conjunct2, THEN conjunct2, rule_format]
  have one: "decoded d v" if p: "parse_value (Suc n) d s = Some (v, r)" and d: "0 \<le> d" for d s v r
  proof -
    have "decoded d (JArr xs)" if "parse_elems n (d - 1) t = Some (xs, u)" "d \<noteq> 0" for xs t u
      using ih(2) [OF that(1)] d that(2) by simp
    moreover have "decoded d (JObj m)" if "parse_members n (d - 1) t = Some (m, u)" "d \<noteq> 0" for m t u
      using ih(3) [OF that(1)] d that(2) by simp
    moreover have "decoded d (JArr []) \<and> decoded d (JObj [])" if "d \<noteq> 0" using d that by simp
    ultimately show ?thesis
      using p d by (auto split: list.splits if_splits dest: scan_string_valid simp del: decoded_simps(5,6)) 
  qed
  have "\<forall>v \<in> set vs. decoded d v" if "parse_elems (Suc n) d s = Some (vs, r)" "0 \<le> d" for d s vs r
    using that ih(1,2) [where d = d] by (auto split: list.splits if_splits option.splits; blast)
  moreover have "\<forall>p \<in> set m. valid_utf8 (fst p) \<and> decoded d (snd p)"
    if "parse_members (Suc n) d s = Some (m, r)" "0 \<le> d" for d s m r
    using that ih(1,3) [where d = d] by (fastforce split: list.splits if_splits option.splits dest: scan_string_valid)
  ultimately show ?case using one by blast
qed simp

lemma parsed_value: "parse_value n d s = Some (v, r) \<Longrightarrow> 0 \<le> d \<Longrightarrow> decoded d v"
  using parsed [of n] by blast

subsection \<open>Decoded requests\<close>

text \<open>A value that can be put in a document: what is stored and later parsed again.\<close>

definition storable :: "int \<Rightarrow> json \<Rightarrow> bool" where
  "storable d v \<longleftrightarrow> json_wf v \<and> nested_within d v \<and> numbers_in_range v"

lemma storable_simps [simp]:
  "storable d JNull" "storable d (JBool b)" "storable d (JNum n) \<longleftrightarrow> number_literal n \<and> number_in_range n"
  "storable d (JStr s) \<longleftrightarrow> valid_utf8 s"
  "storable d (JArr xs) \<longleftrightarrow> 0 < d \<and> (\<forall>x \<in> set xs. storable (d - 1) x)"
  "storable d (JObj m) \<longleftrightarrow> 0 < d \<and> (\<forall>p \<in> set m. valid_utf8 (fst p) \<and> storable (d - 1) (snd p))"
  by (auto simp: storable_def)

lemma go_map_subset: "set (go_map m) \<subseteq> set m"
  by (induction m rule: go_map.induct) auto

lemma decoded_storable:
  "decoded d v \<Longrightarrow> numbers_in_range v \<Longrightarrow> storable d (json_numbers (json_go v))"
proof (induction v arbitrary: d rule: json_go.induct)
  case (2 m)
  have "storable (d - 1) (json_numbers w) \<and> valid_utf8 k"
    if "(k, w) \<in> set (go_map (map (\<lambda>(k, v). (k, json_go v)) m))" for k w
    using 2 that go_map_subset [of "map (\<lambda>(k, v). (k, json_go v)) m"] by fastforce
  then show ?case using 2(2) by auto
qed (auto simp: normal_literal_parts)

text \<open>A Go map has each key once, and numbers that were decoded print as they did before.\<close>

fun distinct_keys :: "json \<Rightarrow> bool" where
  "distinct_keys (JArr xs) = (\<forall>x \<in> set xs. distinct_keys x)"
| "distinct_keys (JObj m) = (distinct (map fst m) \<and> (\<forall>p \<in> set m. case p of (k, v) \<Rightarrow> distinct_keys v))"
| "distinct_keys v = True"

lemma keys_go_map: "set (map fst (go_map m)) = set (map fst m)"
  by (induction m rule: go_map.induct) auto

lemma distinct_go_map: "distinct (map fst (go_map m))"
proof (induction m rule: go_map.induct)
  case (2 k v m)
  then show ?case using keys_go_map [of m] by auto
qed simp

lemma go_map_distinct: "distinct (map fst m) \<Longrightarrow> go_map m = m"
  by (induction m rule: go_map.induct) auto

lemma fst_map_snd: "map fst (map (\<lambda>(k, v). (k, f v)) m) = map fst m"
  by (induction m) auto

lemma json_go_id: "distinct_keys v \<Longrightarrow> json_go v = v"
proof (induction v rule: json_go.induct)
  case (2 m)
  then have "map (\<lambda>(k, v). (k, json_go v)) m = m" by (intro map_idI) fastforce
  then show ?case using 2(2) by (simp add: go_map_distinct)
qed (auto intro: map_idI)

lemma json_go_distinct: "distinct_keys (json_go v)"
proof (induction v rule: json_go.induct)
  case (2 m)
  then show ?case using distinct_go_map go_map_subset [of "map (\<lambda>(k, v). (k, json_go v)) m"] by fastforce
qed auto

lemma json_numbers_distinct: "distinct_keys v \<Longrightarrow> distinct_keys (json_numbers v)"
  by (induction v rule: json_numbers.induct) (auto simp: comp_def case_prod_beta)

lemma json_numbers_idem: "numbers_in_range v \<Longrightarrow> json_numbers (json_numbers v) = json_numbers v"
  by (induction v rule: json_numbers.induct) (auto simp: normal_literal_idem)

lemma json_go_numbers: "numbers_in_range v \<Longrightarrow> numbers_in_range (json_go v)"
proof (induction v rule: json_go.induct)
  case (2 m)
  then show ?case using go_map_subset [of "map (\<lambda>(k, v). (k, json_go v)) m"] by fastforce
qed auto

definition storable_metadata :: "json option \<Rightarrow> bool" where
  "storable_metadata m \<longleftrightarrow> (case m of None \<Rightarrow> True | Some v \<Rightarrow> storable (max_nesting_depth - 1) v \<and> distinct_keys v \<and> json_numbers v = v)"

definition decoded_request :: "create_paste_request \<Rightarrow> bool" where
  "decoded_request r \<longleftrightarrow> valid_utf8 (ciphertext r) \<and> valid_utf8 (plaintext r) \<and> valid_utf8 (turnstile_token r) \<and>
     storable_metadata (metadata r)"

lemma any_field_storable: "any_field v = Some m \<Longrightarrow> decoded (max_nesting_depth - 1) v \<Longrightarrow> storable_metadata m"
  using decoded_storable json_go_distinct json_numbers_distinct json_numbers_idem json_go_numbers
  by (auto simp: any_field_def storable_metadata_def split: if_splits)

lemma string_field_valid: "string_field v s = Some t \<Longrightarrow> decoded d v \<Longrightarrow> valid_utf8 s \<Longrightarrow> valid_utf8 t"
  by (auto simp: string_field_def split: json.splits)

lemma set_create_field_decoded:
  "set_create_field kv r = Some r' \<Longrightarrow> decoded (max_nesting_depth - 1) (snd kv) \<Longrightarrow> decoded_request r \<Longrightarrow> decoded_request r'"
  by (auto simp: set_create_field_def decoded_request_def Let_def dest: any_field_storable string_field_valid split: if_splits)

lemma set_create_fields_decoded:
  "set_create_fields m r = Some r' \<Longrightarrow> \<forall>p \<in> set m. decoded (max_nesting_depth - 1) (snd p) \<Longrightarrow> decoded_request r \<Longrightarrow>
   decoded_request r'"
  by (induction m arbitrary: r) (auto dest: set_create_field_decoded split: option.splits)

theorem decode_create_request_decoded:
  assumes "decode_create_request body = Some r"
  shows "decoded_request r"
proof -
  obtain m where m: "body_members body = Some m" "set_create_fields m empty_create_request = Some r"
    using assms by (auto simp: decode_create_request_def split: option.splits)
  then have "\<forall>p \<in> set m. decoded (max_nesting_depth - 1) (snd p)"
    using parsed_value [of "2 * length body + 2" max_nesting_depth body]
    by (fastforce simp: body_members_def max_nesting_depth_def simp del: parse_value.simps split: option.splits json.splits)
  moreover have "decoded_request empty_create_request"
    by (simp add: decoded_request_def empty_create_request_def storable_metadata_def valid_utf8.simps [of "[]"])
  ultimately show ?thesis using m(2) set_create_fields_decoded by blast
qed

end
