(* ===== verification/PlainDocument.thy ===== *)
theory PlainDocument
  imports DecodedJson Handlers
begin

text \<open>
  The document that \<^verbatim>\<open>CreatePaste\<close> makes of a plaintext request (\<^verbatim>\<open>src/handlers_paste.go\<close>), and that the backends and
  the readers take apart again: it parses, and holds the text and the metadata that were decoded from the request.
\<close>

text \<open>Sorting the keys, which the encoder does, keeps what was decoded.\<close>

lemma json_sorted_wf: "json_wf v \<Longrightarrow> json_wf (json_sorted v)"
  by (induction v rule: json_sorted.induct) fastforce+

lemma json_sorted_nested: "nested_within d v \<Longrightarrow> nested_within d (json_sorted v)"
  by (induction v arbitrary: d rule: json_sorted.induct) fastforce+

lemma json_sorted_numbers: "numbers_in_range v \<Longrightarrow> numbers_in_range (json_sorted v)"
  by (induction v rule: json_sorted.induct) fastforce+

lemma json_sorted_storable: "storable d v \<Longrightarrow> storable d (json_sorted v)"
  by (simp add: storable_def json_sorted_wf json_sorted_nested json_sorted_numbers)

lemma mset_insert_key: "mset (insert_key p m) = add_mset p (mset m)"
  by (induction m) auto

lemma mset_sorted_keys: "mset (foldr insert_key m []) = mset m"
  by (induction m) (auto simp: mset_insert_key)

lemma distinct_sorted_keys: "distinct (map fst (foldr insert_key m [])) \<longleftrightarrow> distinct (map fst m)"
  by (metis mset_sorted_keys mset_map mset_eq_imp_distinct_iff)

lemma json_sorted_distinct: "distinct_keys v \<Longrightarrow> distinct_keys (json_sorted v)"
proof (induction v rule: json_sorted.induct)
  case (2 m)
  then have "\<forall>p \<in> set m. distinct_keys (json_sorted (snd p))" by fastforce
  then show ?case using 2(2) by (auto simp: distinct_sorted_keys comp_def case_prod_unfold)
qed auto

lemma insert_key_map:
  "insert_key (k, f v) (map (\<lambda>(k, v). (k, f v)) m) = map (\<lambda>(k, v). (k, f v)) (insert_key (k, v) m)"
  by (induction m) auto

lemma sorted_keys_map:
  "foldr insert_key (map (\<lambda>(k, v). (k, f v)) m) [] = map (\<lambda>(k, v). (k, f v)) (foldr insert_key m [])"
  by (induction m) (auto simp: insert_key_map)

lemma json_numbers_sorted: "json_numbers (json_sorted v) = json_sorted (json_numbers v)"
proof (induction v rule: json_sorted.induct)
  case (2 m)
  have "map (\<lambda>(k, v). (k, json_numbers (json_sorted v))) m = map (\<lambda>(k, v). (k, json_sorted (json_numbers v))) m"
    using 2 by (intro map_cong) auto
  moreover have "map (\<lambda>(k, v). (k, json_numbers v)) (foldr insert_key (map (\<lambda>(k, v). (k, json_sorted v)) m) []) =
      foldr insert_key (map (\<lambda>(k, v). (k, json_numbers (json_sorted v))) m) []"
    unfolding sorted_keys_map [symmetric] by (simp add: comp_def case_prod_unfold)
  ultimately show ?case by (simp add: comp_def case_prod_unfold cong: map_cong)
qed simp_all

definition document_metadata :: "create_paste_request \<Rightarrow> json" where
  "document_metadata r = (case metadata r of None \<Rightarrow> JNull | Some v \<Rightarrow> json_sorted v)"

lemma document_text:
  "plaintext_json r = json_encode (JObj [(''content'', JStr (plaintext r)), (''metadata'', document_metadata r),
     (''version'', JStr ''2.0'')])"
  by (simp add: plaintext_json_def json_marshal_def document_metadata_def split: option.split)

lemma document_parts:
  assumes "decoded_request r"
  shows "storable (max_nesting_depth - 1) (document_metadata r)" "json_go (document_metadata r) = document_metadata r"
    "json_numbers (document_metadata r) = document_metadata r"
  using assms
  by (auto simp: decoded_request_def storable_metadata_def document_metadata_def json_sorted_storable json_go_id
      json_sorted_distinct json_numbers_sorted split: option.splits)

lemma document_unmarshal:
  assumes "decoded_request r"
  shows "unmarshal_map (plaintext_json r) = Some [(''content'', JStr (plaintext r)), (''metadata'', document_metadata r),
     (''version'', JStr ''2.0'')]"
proof -
  let ?m = "[(''content'', JStr (plaintext r)), (''metadata'', document_metadata r), (''version'', JStr ''2.0'')]"
  have names: "valid_utf8 ''content''" "valid_utf8 ''metadata''" "valid_utf8 ''version''" "valid_utf8 ''2.0''"
    by (simp_all add: valid_utf8.simps rune_error_def)
  have "storable max_nesting_depth (JObj ?m)"
    using document_parts(1) [OF assms] assms names by (simp add: decoded_request_def max_nesting_depth_def)
  then have "unmarshal_map (json_encode (JObj ?m)) = Some (go_map (map (\<lambda>(k, v). (k, json_go v)) ?m))"
    unfolding storable_def by (intro unmarshal_map_encode) blast+
  moreover have "go_map (map (\<lambda>(k, v). (k, json_go v)) ?m) = ?m" by (simp add: document_parts(2) [OF assms])
  ultimately show ?thesis unfolding document_text by simp
qed

text \<open>The backends find the content in the document that the handler stores, and hash it.\<close>

lemma document_hash: "decoded_request r \<Longrightarrow> plaintext_hash_of (plaintext_json r) = sha256_hex (plaintext r)"
  by (simp add: plaintext_hash_of_def document_unmarshal)

text \<open>Nothing of a plaintext request is lost on the way into the store. For every body that decodes to a
  plaintext request, the content that \<^verbatim>\<open>CreatePaste\<close> hands to the storage is base64 of a document that parses
  as JSON, whose three members are the text, byte for byte, the metadata with the same numbers, in the encoder's order of
  keys, and the version; the hash by which plaintext is banned is the hash of exactly that text.\<close>

theorem plaintext_document_reads_back:
  assumes "decode_create_request body = Some r" "prepare_content r = Inr (c, True)"
  shows "\<exists>d. b64_decode StdEncoding c = Some d \<and> plaintext_hash_of d = sha256_hex (plaintext r) \<and>
    unmarshal_map d = Some [(''content'', JStr (plaintext r)), (''metadata'', document_metadata r), (''version'', JStr ''2.0'')] \<and>
    json_numbers (document_metadata r) = document_metadata r"
proof -
  have r: "decoded_request r" using assms(1) by (rule decode_create_request_decoded)
  have "c = b64_encode StdEncoding (plaintext_json r)"
    using assms(2) by (auto simp: prepare_content_def split: if_splits option.splits)
  then have "b64_decode StdEncoding c = Some (plaintext_json r)" using b64_roundtrip by simp
  then show ?thesis using document_unmarshal [OF r] document_hash [OF r] document_parts(3) [OF r] by blast
qed

definition note_body :: string where
  "note_body = ''{\"plaintext\":\"hi\",\"metadata\":{\"b\":0.0,\"a\":[null]},\"expiry_seconds\":60}''"

lemma note_decode: "decode_create_request note_body = Some \<lparr>ciphertext = [], plaintext = ''hi'',
    metadata = Some (JObj [(''b'', JNum ''0''), (''a'', JArr [JNull])]), expiry_seconds = 60, burn_after_read = False,
    turnstile_token = []\<rparr>"
  by code_simp

theorem plaintext_document_reads_back_witness:
  "\<exists>r c d. decode_create_request note_body = Some r \<and> prepare_content r = Inr (c, True) \<and>
     b64_decode StdEncoding c = Some d \<and>
     unmarshal_map d = Some [(''content'', JStr ''hi''), (''metadata'', JObj [(''a'', JArr [JNull]), (''b'', JNum ''0'')]),
       (''version'', JStr ''2.0'')]"
proof -
  obtain r where r: "decode_create_request note_body = Some r" "ciphertext r = []" "plaintext r = ''hi''"
    "metadata r = Some (JObj [(''b'', JNum ''0''), (''a'', JArr [JNull])])" using note_decode by simp
  have md: "document_metadata r = JObj [(''a'', JArr [JNull]), (''b'', JNum ''0'')]"
    by (simp add: document_metadata_def r(4))
  have c: "prepare_content r = Inr (b64_encode StdEncoding (plaintext_json r), True)"
    by (simp add: prepare_content_def r(2,3) MaxCiphertextSizeUnencrypted_def)
  from plaintext_document_reads_back [OF r(1) c] show ?thesis using r(1,3) c by (auto simp: md)
qed

end
