(* ===== verification/Tools.thy ===== *)
theory Tools
  imports GcsBurn PlainDocument Secrets
begin

text \<open>
  The command-line tools \<^verbatim>\<open>src/cmd/banhash/main.go\<close> and \<^verbatim>\<open>src/cmd/banplaintext/main.go\<close>, which ban content in a Cloud
  Storage bucket, and what becomes of it: the bucket keeps the ban through every later operation, and a server on the
  bucket refuses the content. The tools end with an exit status; what they print is left out.
\<close>

subsection \<open>The tools\<close>

text \<open>The flags, empty when not given, and the buckets of the project by name.\<close>

record ban_flags =
  bf_hash :: string
  bf_content :: string
  bf_file :: string
  bf_reason :: string
  bf_bucket :: string

record 'b project =
  pj_buckets :: "string \<Rightarrow> 'b"
  pj_env :: "string \<Rightarrow> 'b gcs_env" \<comment> \<open>the calls of the client of each bucket\<close>
  pj_client :: bool \<comment> \<open>the client of Cloud Storage can be created\<close>
  pj_secret_client :: bool \<comment> \<open>the client of Secret Manager can be created\<close>

definition ban_bucket :: "secret_manager \<Rightarrow> bool \<Rightarrow> string \<Rightarrow> config_state \<Rightarrow> string" where
  "ban_bucket access secret_client bucket s =
     (if bucket \<noteq> [] then bucket
      else fst (GetSecretOrDefault access ''BUCKET_NAME'' [] (Initialize (Some secret_client) s)))"

text \<open>From the name of the bucket on: the exit status and the project.\<close>

definition run_ban ::
  "('b gcs_env \<Rightarrow> 'b \<Rightarrow> unit result \<times> 'b) \<Rightarrow> string \<Rightarrow> 'b project \<Rightarrow> int \<times> 'b project" where
  "run_ban ban name p =
     (if name = [] then (1, p)
      else if \<not> pj_client p then (1, p)
      else (case ban (pj_env p name) (pj_buckets p name) of
              (Inl x, b) \<Rightarrow> (1, p\<lparr>pj_buckets := (pj_buckets p)(name := b)\<rparr>)
            | (Inr x, b) \<Rightarrow> (0, p\<lparr>pj_buckets := (pj_buckets p)(name := b)\<rparr>)))"

definition banhash :: "secret_manager \<Rightarrow> config_state \<Rightarrow> ban_flags \<Rightarrow> 'b project \<Rightarrow> int \<times> 'b project" where
  "banhash access s f p =
     (if bf_hash f = [] then (1, p)
      else if bf_reason f = [] then (1, p)
      else run_ban (\<lambda>e b. gcs_BanContentHash e b (bf_hash f) (bf_reason f))
             (ban_bucket access (pj_secret_client p) (bf_bucket f) s) p)"

text \<open>The hash to ban: as given, of the file (\<^const>\<open>None\<close> when it cannot be read), or of the content.\<close>

definition plaintext_hash :: "(string \<Rightarrow> string option) \<Rightarrow> ban_flags \<Rightarrow> string option" where
  "plaintext_hash read_file f =
     (if bf_hash f \<noteq> [] then Some (bf_hash f)
      else if bf_file f \<noteq> [] then map_option sha256_hex (read_file (bf_file f))
      else Some (sha256_hex (bf_content f)))"

definition banplaintext ::
  "secret_manager \<Rightarrow> (string \<Rightarrow> string option) \<Rightarrow> config_state \<Rightarrow> ban_flags \<Rightarrow> 'b project \<Rightarrow> int \<times> 'b project" where
  "banplaintext access read_file s f p =
     (if bf_content f = [] \<and> bf_file f = [] \<and> bf_hash f = [] then (1, p)
      else if bf_reason f = [] then (1, p)
      else (case plaintext_hash read_file f of
              None \<Rightarrow> (1, p)
            | Some h \<Rightarrow> run_ban (\<lambda>e b. gcs_BanPlaintextHash e b h (bf_reason f))
                (ban_bucket access (pj_secret_client p) (bf_bucket f) s) p))"

subsection \<open>A ban in the bucket stays\<close>

text \<open>What a read may do to the bucket: nothing, drop an expired paste, or write a burn marker.\<close>

lemma map_sum_pair: "map_sum id (Pair n) x = Inr (a, c) \<Longrightarrow> a = n"
  by (cases x) auto

lemma get_effect:
  "snd (gcs_GetPaste e b i) = b \<or>
   (\<exists>j. snd (gcs_GetPaste e b i) =
      snd (b_delete (ge_bucket e) (snd (b_delete (ge_bucket e) b (pasteObjectName j))) (burnObjectName i))) \<or>
   snd (gcs_GetPaste e b i) =
      snd (b_write (ge_bucket e) b (burnObjectName i) True (marker_metadata e i) (format_rfc3339 (ge_stamp e)))"
proof -
  obtain r b1 where w: "b_write (ge_bucket e) b (burnObjectName i) True (marker_metadata e i) (format_rfc3339 (ge_stamp e)) = (r, b1)"
    by fastforce
  show ?thesis
    unfolding gcs_GetPaste_def Let_def w
    by (auto split: sum.splits option.splits gcs_error.splits if_splits dest!: map_sum_pair)
qed

context object_store
begin

lemma write_keeps: "b_write k b n cond m c = (r, b') \<Longrightarrow> view b n' \<noteq> None \<Longrightarrow> view b' n' \<noteq> None"
  using write_done [of b n cond m c b'] write_failed [of b n cond m c _ b']
  by (cases r; cases "n' = n") (auto simp: written_def)

lemma delete_keeps: "b_delete k b n = (r, b') \<Longrightarrow> n' \<noteq> n \<Longrightarrow> view b n' \<noteq> None \<Longrightarrow> view b' n' \<noteq> None"
  using delete_view by auto

lemma delete_keeps_snd: "n' \<noteq> n \<Longrightarrow> view b n' \<noteq> None \<Longrightarrow> view (snd (b_delete k b n)) n' \<noteq> None"
  using delete_keeps [of b n _ _ n'] by (metis prod.collapse)

lemma write_keeps_snd: "view b n' \<noteq> None \<Longrightarrow> view (snd (b_write k b n cond m c)) n' \<noteq> None"
  using write_keeps [of b n cond m c _ _ n'] by (metis prod.collapse)

text \<open>No operation of the backend removes an object that is neither a paste nor a burn marker.\<close>

lemma operation_keeps:
  assumes "ge_bucket e = k" "\<forall>i. n \<noteq> pasteObjectName i \<and> n \<noteq> burnObjectName i" "view b n \<noteq> None"
  shows "view (snd (store_step (gcs_backend e) x b)) n \<noteq> None"
proof (cases x)
  case (OpSave i c s burn plain)
  then show ?thesis
    using assms(1,3) write_keeps write_keeps_snd
    by (fastforce simp: gcs_backend_def gcs_SavePaste_def createReferencePaste_def createHashIndex_def Let_def
        split: prod.splits sum.splits option.splits gcs_error.splits if_splits)
next
  case (OpGet i)
  have "view (snd (gcs_GetPaste e b i)) n \<noteq> None"
    using get_effect [of e b i] assms write_keeps_snd delete_keeps_snd by metis
  then show ?thesis using OpGet by (cases "gcs_GetPaste e b i") (simp add: gcs_backend_def)
next
  case (OpMarkBurned i)
  then show ?thesis
    using assms write_keeps
    by (fastforce simp: gcs_backend_def gcs_MarkBurned_def split: prod.splits sum.splits option.splits)
next
  case (OpDelete i)
  then show ?thesis
    using assms delete_keeps delete_keeps_snd
    by (fastforce simp: gcs_backend_def gcs_DeletePaste_def split: prod.splits option.splits gcs_error.splits)
next
  case (OpBanContent h r)
  then show ?thesis
    using assms write_keeps
    by (fastforce simp: gcs_backend_def gcs_BanContentHash_def gcs_ban_def split: prod.splits option.splits)
next
  case (OpBanPlaintext h r)
  then show ?thesis
    using assms write_keeps
    by (fastforce simp: gcs_backend_def gcs_BanPlaintextHash_def gcs_ban_def split: prod.splits option.splits)
qed

end

lemma run_keeps:
  "list_all (\<lambda>a. object_store (ge_bucket (fst a)) view latest) xs \<Longrightarrow>
   \<forall>i. n \<noteq> pasteObjectName i \<and> n \<noteq> burnObjectName i \<Longrightarrow> view b n \<noteq> None \<Longrightarrow>
   view (snd (store_run gcs_backend xs b)) n \<noteq> None"
proof (induction xs arbitrary: b)
  case (Cons a xs)
  obtain e x where a: "a = (e, x)" by fastforce
  have "view (snd (store_step (gcs_backend e) x b)) n \<noteq> None"
    using Cons.prems object_store.operation_keeps [of "ge_bucket e" view latest e n b x] by (auto simp: a)
  then show ?case
    using Cons.IH [of "snd (store_step (gcs_backend e) x b)"] Cons.prems(1,2)
    by (simp add: a split: prod.splits) (metis snd_conv)
qed simp

subsection \<open>A ban is effective\<close>

lemma banned_names: "bannedPlaintextHashObjectName h \<noteq> pasteObjectName i \<and> bannedPlaintextHashObjectName h \<noteq> burnObjectName i"
  by (simp add: object_names)

lemma banplaintext_bans:
  assumes "banplaintext access read_file s f p = (0, p')" "plaintext_hash read_file f = Some h"
    and "name = ban_bucket access (pj_secret_client p) (bf_bucket f) s" "object_store (ge_bucket (pj_env p name)) view latest"
  shows "view (pj_buckets p' name) (bannedPlaintextHashObjectName h) \<noteq> None"
proof -
  obtain b where ban: "gcs_BanPlaintextHash (pj_env p name) (pj_buckets p name) h (bf_reason f) = (Inr (), b)"
    and p': "pj_buckets p' name = b"
    using assms(1,2) unfolding assms(3)
    by (auto simp: banplaintext_def run_ban_def split: if_splits sum.splits prod.splits)
  then have "written view latest (pj_buckets p name) (bannedPlaintextHashObjectName h)
      [''banned-at'' \<mapsto> unix_text (ge_stamp (pj_env p name)), ''reason'' \<mapsto> bf_reason f, ''type'' \<mapsto> ''plaintext''] [] b"
    using object_store.write_done [OF assms(4)]
    by (auto simp: gcs_BanPlaintextHash_def gcs_ban_def split: prod.splits option.splits)
  then show ?thesis by (simp add: p' written_def)
qed

lemma banned_document_refused:
  assumes "object_store (ge_bucket e) view latest" "view b (bannedPlaintextHashObjectName (plaintext_hash_of d)) \<noteq> None"
    and "b64_decode StdEncoding c = Some d" "plaintext_hash_of d \<noteq> []"
  shows "\<exists>x. gcs_SavePaste e b i c n burn True = (Inl x, b)"
proof -
  let ?name = "bannedPlaintextHashObjectName (plaintext_hash_of d)"
  have "b_attrs (ge_bucket e) b ?name \<noteq> Inl ObjectNotExist"
    using object_store.attrs_absent [OF assms(1), of b ?name] assms(2) by auto
  then have "gcs_isPlaintextHashBanned (ge_bucket e) b (plaintext_hash_of d) \<noteq> Inr False"
    by (auto simp: gcs_isPlaintextHashBanned_def exists_object_def split: sum.split gcs_error.split)
  then show ?thesis
    using assms(3,4)
    by (auto simp: gcs_SavePaste_def gcs_hashes_def Let_def split: sum.splits bool.splits)
qed

lemma CreatePaste_refused:
  assumes "decode_create_request body = Some r"
    and "\<And>c plain i. prepare_content r = Inr (c, plain) \<Longrightarrow>
      \<exists>x. SavePaste k (srv_store srv) i c (free_tier_expiry (expiry_seconds r)) (burn_after_read r) plain = (Inl x, srv_store srv)"
  shows "http_status (fst (CreatePaste k random body srv)) \<noteq> 200 \<and> srv_store (snd (CreatePaste k random body srv)) = srv_store srv"
proof -
  have err: "http_status e \<noteq> 200" if "prepare_content r = Inl e" for e
    using that by (auto simp: prepare_content_def WriteSimpleError_def json_response_def split: if_splits option.splits)
  have simple: "http_status (WriteSimpleError m st) = st" "http_status (WriteValidationError es) = 400" for m st es
    by (simp_all add: WriteSimpleError_def WriteValidationError_def json_response_def)
  show ?thesis
  proof (cases "prepare_content r")
    case (Inl e)
    then show ?thesis using err assms(1) by (simp add: CreatePaste_def simple Let_def)
  next
    case (Inr a)
    obtain c plain where a: "a = (c, plain)" by fastforce
    show ?thesis
    proof (cases "GenerateID random")
      case (Some i)
      then show ?thesis using assms(2) [of c plain i] Inr a assms(1) by (auto simp: CreatePaste_def simple Let_def split: if_splits)
    qed (use Inr a assms(1) in \<open>simp add: CreatePaste_def simple Let_def\<close>)
  qed
qed

text \<open>C34: Banned plaintext stays out. When \<^verbatim>\<open>banplaintext\<close> has ended with status 0, for a text given as content, in a file or
  by its hash, then after any later operations on that bucket, by servers whose calls may fail, every
  request to create a paste with that text, whatever its metadata, is refused by a server on the bucket and leaves the
  bucket as it is.\<close>

theorem banned_plaintext_refused:
  assumes "banplaintext access read_file s f p = (0, p')" "plaintext_hash read_file f = Some (sha256_hex (plaintext r))"
    and "name = ban_bucket access (pj_secret_client p) (bf_bucket f) s"
    and "list_all (\<lambda>e. object_store (ge_bucket e) view latest) (pj_env p name # e # map fst xs)"
    and "decode_create_request body = Some r" "ciphertext r = []"
    and "srv_store srv = snd (store_run gcs_backend xs (pj_buckets p' name))"
  shows "http_status (fst (CreatePaste (gcs_backend e) random body srv)) \<noteq> 200 \<and>
    srv_store (snd (CreatePaste (gcs_backend e) random body srv)) = srv_store srv"
proof (rule CreatePaste_refused [OF assms(5)])
  fix c plain i
  assume "prepare_content r = Inr (c, plain)"
  then have c: "c = b64_encode StdEncoding (plaintext_json r)" "plain"
    using assms(6) by (auto simp: prepare_content_def split: if_splits)
  have hash: "plaintext_hash_of (plaintext_json r) = sha256_hex (plaintext r)"
    using decode_create_request_decoded [OF assms(5)] by (rule document_hash)
  have "view (pj_buckets p' name) (bannedPlaintextHashObjectName (sha256_hex (plaintext r))) \<noteq> None"
    using banplaintext_bans [OF assms(1-3), of view latest] assms(4) by simp
  moreover have "list_all (\<lambda>a. object_store (ge_bucket (fst a)) view latest) xs"
    using assms(4) by (simp add: list.pred_map comp_def)
  ultimately have "view (srv_store srv) (bannedPlaintextHashObjectName (sha256_hex (plaintext r))) \<noteq> None"
    unfolding assms(7) using banned_names
    by (intro run_keeps [of view latest xs "bannedPlaintextHashObjectName (sha256_hex (plaintext r))"]) auto
  then show "\<exists>x. SavePaste (gcs_backend e) (srv_store srv) i c (free_tier_expiry (expiry_seconds r))
      (burn_after_read r) plain = (Inl x, srv_store srv)"
    using banned_document_refused [of e view latest "srv_store srv" "plaintext_json r" c] assms(4) c hash b64_roundtrip
    by (simp add: gcs_backend_def)
qed

definition unset_config :: config_state where
  "unset_config = \<lparr>cs_environ = Map.empty, cs_files = (\<lambda>_. Missing), cs_provider = None\<rparr>"

definition spam_flags :: ban_flags where
  "spam_flags = \<lparr>bf_hash = [], bf_content = ''spam'', bf_file = [], bf_reason = ''abuse'', bf_bucket = ''pastes''\<rparr>"

definition spam_project :: "mem_store project" where
  "spam_project = \<lparr>pj_buckets = (\<lambda>_. empty_mem), pj_env = (\<lambda>_. mem_env), pj_client = True, pj_secret_client = False\<rparr>"

definition spam_body :: string where
  "spam_body = ''{\"plaintext\":\"spam\",\"expiry_seconds\":60}''"

definition spam_request :: create_paste_request where
  "spam_request = \<lparr>ciphertext = [], plaintext = ''spam'', metadata = None,
     expiry_seconds = 60, burn_after_read = False, turnstile_token = []\<rparr>"

lemma spam_decode: "decode_create_request spam_body = Some spam_request"
  by code_simp

theorem banned_plaintext_refused_witness:
  "\<exists>p'. banplaintext (\<lambda>_. None) (\<lambda>_. None) unset_config spam_flags spam_project = (0, p') \<and>
     http_status (fst (CreatePaste (gcs_backend mem_env) (Some sample_random) spam_body
       \<lparr>srv_queue = NewDeletionQueue (snd (store_run gcs_backend [(mem_env, OpDelete ''x'')] (pj_buckets p' ''pastes''))) 1,
        srv_metrics = \<lparr>pastesCreated = 0, pastesViewed = 0, pastesBurned = 0\<rparr>\<rparr>)) \<noteq> 200"
proof -
  obtain p' where p': "banplaintext (\<lambda>_. None) (\<lambda>_. None) unset_config spam_flags spam_project = (0, p')"
    by (simp add: banplaintext_def spam_flags_def spam_project_def plaintext_hash_def run_ban_def ban_bucket_def
        gcs_BanPlaintextHash_def gcs_ban_def mem_calls)
  have "plaintext_hash (\<lambda>_. None) spam_flags = Some (sha256_hex (plaintext spam_request))"
    by (simp add: plaintext_hash_def spam_flags_def spam_request_def)
  moreover have "ban_bucket (\<lambda>_. None) (pj_secret_client spam_project) (bf_bucket spam_flags) unset_config = ''pastes''"
    by (simp add: ban_bucket_def spam_flags_def)
  moreover have "ciphertext spam_request = []" by (simp add: spam_request_def)
  ultimately show ?thesis
    using banned_plaintext_refused [OF p', of spam_request _ mem_view ms_latest mem_env "[(mem_env, OpDelete ''x'')]" spam_body]
      spam_decode p' by (simp add: spam_project_def srv_store_def NewDeletionQueue_def)
qed

end
