(* ===== verification/Logger.thy ===== *)
theory Logger
  imports Middleware "HOL-Library.AList"
begin

text \<open>
  \<^verbatim>\<open>src/logger/logger.go\<close> and \<^verbatim>\<open>src/logger/audit.go\<close>: what is written for a log call and for an audit event. Fields are
  association lists with distinct keys, which the encoder sorts; a logger is its level, its fields and its
  mutex. A call appends text to the output; clocks and the caller are arguments. The last part runs
  calls concurrently, write by write.
\<close>

subsection \<open>Levels\<close>

datatype log_level = DEBUG | INFO | WARN | ERROR | AUDIT

primrec level_number :: "log_level \<Rightarrow> nat" where
  "level_number DEBUG = 0"
| "level_number INFO = 1"
| "level_number WARN = 2"
| "level_number ERROR = 3"
| "level_number AUDIT = 4"

instantiation log_level :: linorder
begin

definition less_eq_log_level :: "log_level \<Rightarrow> log_level \<Rightarrow> bool" where
  "less_eq_log_level a b = (level_number a \<le> level_number b)"

definition less_log_level :: "log_level \<Rightarrow> log_level \<Rightarrow> bool" where
  "less_log_level a b = (level_number a < level_number b)"

instance
proof
  fix a b :: log_level
  show "a \<le> b \<Longrightarrow> b \<le> a \<Longrightarrow> a = b" by (cases a; cases b) (simp_all add: less_eq_log_level_def)
qed (auto simp: less_eq_log_level_def less_log_level_def)

end

lemma audit_highest: "(a :: log_level) \<le> AUDIT"
  by (cases a) (simp_all add: less_eq_log_level_def)

primrec level_string :: "log_level \<Rightarrow> string" where
  "level_string DEBUG = ''DEBUG''"
| "level_string INFO = ''INFO''"
| "level_string WARN = ''WARN''"
| "level_string ERROR = ''ERROR''"
| "level_string AUDIT = ''AUDIT''"

subsection \<open>Fields and entries\<close>

text \<open>The types of values that the sources log. An error has no exported fields, so the encoder prints \<^verbatim>\<open>{}\<close> for it.\<close>

datatype log_value =
    VText string
  | VInt int
  | VFloat bool rat
  | VBool bool
  | VTime gotime
  | VError string
  | VJson json

type_synonym log_fields = "(string \<times> log_value) list"

fun value_json :: "log_value \<Rightarrow> json option" where
  "value_json (VText s) = Some (JStr s)"
| "value_json (VInt n) = Some (JNum (itoa n))"
| "value_json (VFloat neg v) = Some (JNum (float_text neg v))"
| "value_json (VBool b) = Some (JBool b)"
| "value_json (VTime t) = (if time_marshal_json t = None then None else Some (JStr (format_rfc3339_nano t)))"
| "value_json (VError e) = Some (JObj [])"
| "value_json (VJson j) = Some (json_sorted j)"

fun fields_json :: "log_fields \<Rightarrow> (string \<times> json) list option" where
  "fields_json [] = Some []"
| "fields_json ((k, v) # fs) =
     (case (value_json v, fields_json fs) of
        (Some j, Some m) \<Rightarrow> Some (insert_key (k, j) m) | _ \<Rightarrow> None)"

record log_entry =
  en_timestamp :: gotime
  en_level :: string
  en_message :: string
  en_fields :: log_fields
  en_caller :: string
  en_request_id :: string
  en_trace_id :: string
  en_span_id :: string
  en_stack_trace :: string

definition omit_empty :: "string \<Rightarrow> string \<Rightarrow> (string \<times> json) list" where
  "omit_empty name s = (if s = [] then [] else [(name, JStr s)])"

text \<open>\<^verbatim>\<open>json.Marshal\<close> of an entry: the members in the order of the struct, empty ones left out.\<close>

definition entry_json :: "log_entry \<Rightarrow> json option" where
  "entry_json e =
     (case (value_json (VTime (en_timestamp e)), fields_json (en_fields e)) of
        (Some t, Some fs) \<Rightarrow> Some (JObj (
          [(''timestamp'', t), (''level'', JStr (en_level e)), (''message'', JStr (en_message e))] @
          (if fs = [] then [] else [(''fields'', JObj fs)]) @
          omit_empty ''caller'' (en_caller e) @ omit_empty ''request_id'' (en_request_id e) @
          omit_empty ''trace_id'' (en_trace_id e) @ omit_empty ''span_id'' (en_span_id e) @
          omit_empty ''stack_trace'' (en_stack_trace e)))
      | _ \<Rightarrow> None)"

subsection \<open>Loggers\<close>

record logger =
  lg_level :: log_level
  lg_fields :: log_fields
  lg_with_caller :: bool
  lg_mutex :: nat

definition NewLogger :: "nat \<Rightarrow> log_level \<Rightarrow> bool \<Rightarrow> logger" where
  "NewLogger mutex level with_caller =
     \<lparr>lg_level = level, lg_fields = [], lg_with_caller = with_caller, lg_mutex = mutex\<rparr>"

text \<open>The string values of a context, by key; \<^const>\<open>None\<close> is the nil context.\<close>

type_synonym context_values = "string \<rightharpoonup> string"

definition add_value :: "context_values \<Rightarrow> string \<Rightarrow> log_fields \<Rightarrow> log_fields" where
  "add_value ctx key fs = (case ctx key of None \<Rightarrow> fs | Some v \<Rightarrow> AList.update key (VText v) fs)"

definition WithContext :: "nat \<Rightarrow> context_values option \<Rightarrow> logger \<Rightarrow> logger" where
  "WithContext mutex ctx lg = lg\<lparr>lg_mutex := mutex, lg_fields :=
     (case ctx of None \<Rightarrow> lg_fields lg
      | Some c \<Rightarrow> fold (add_value c) [''request_id'', ''trace_id'', ''span_id'', ''user_id'', ''client_ip''] (lg_fields lg))\<rparr>"

definition WithFields :: "nat \<Rightarrow> log_fields \<Rightarrow> logger \<Rightarrow> logger" where
  "WithFields mutex given lg = lg\<lparr>lg_mutex := mutex, lg_fields := AList.merge (lg_fields lg) given\<rparr>"

subsection \<open>Writing an entry\<close>

definition take_text :: "string \<Rightarrow> log_fields \<Rightarrow> string \<times> log_fields" where
  "take_text key fs = (case map_of fs key of Some (VText s) \<Rightarrow> (s, AList.delete key fs) | _ \<Rightarrow> ([], fs))"

text \<open>What \<^verbatim>\<open>runtime.Caller\<close> answers: file, line and function.\<close>

definition caller_text :: "string \<times> int \<times> string \<Rightarrow> string" where
  "caller_text c = (case c of (file, line, fn) \<Rightarrow>
     (let parts = split_char (CHR ''/'') file;
          short = (if length parts > 2 then join_char (CHR ''/'') (drop (length parts - 2) parts) else file)
      in short @ '':'' @ itoa line @ '' '' @ fn))"

definition make_entry ::
  "logger \<Rightarrow> gotime \<Rightarrow> (string \<times> int \<times> string) option \<Rightarrow> log_level \<Rightarrow> string \<Rightarrow> log_fields \<Rightarrow> log_entry" where
  "make_entry lg t caller level msg given =
     (let fs0 = AList.merge (lg_fields lg) given;
          (request, fs1) = take_text ''request_id'' fs0;
          (trace, fs2) = take_text ''trace_id'' fs1;
          (span, fs3) = take_text ''span_id'' fs2;
          (stack, fs4) =
            (if level = ERROR then
               (case map_of given ''stack_trace'' of
                  Some (VText s) \<Rightarrow> (s, AList.delete ''stack_trace'' fs3)
                | _ \<Rightarrow> (case map_of given ''error'' of
                          Some (VError e) \<Rightarrow> ([], AList.update ''error'' (VText e) fs3)
                        | _ \<Rightarrow> ([], fs3)))
             else ([], fs3))
      in \<lparr>en_timestamp = t, en_level = level_string level, en_message = msg, en_fields = fs4,
          en_caller = (if lg_with_caller lg \<and> WARN \<le> level
                       then (case caller of None \<Rightarrow> [] | Some c \<Rightarrow> caller_text c) else []),
          en_request_id = request, en_trace_id = trace, en_span_id = span, en_stack_trace = stack\<rparr>)"

text \<open>The only values that the encoder refuses are times.\<close>

definition marshal_failure :: "gotime \<Rightarrow> string" where
  "marshal_failure t =
     ''{\"timestamp\":\"'' @ format_rfc3339 t @ ''\",\"level\":\"ERROR\",\"message\":\"Failed to marshal log entry\",\"error\":\"'' @
     ''json: error calling MarshalJSON for type time.Time: Time.MarshalJSON: year outside of range [0,9999]'' @ ''\"}''"

text \<open>The text of a call, without the newline; \<^const>\<open>None\<close> when the level is not logged.\<close>

definition log_text ::
  "logger \<Rightarrow> gotime \<times> gotime \<Rightarrow> (string \<times> int \<times> string) option \<Rightarrow> log_level \<Rightarrow> string \<Rightarrow> log_fields \<Rightarrow> string option" where
  "log_text lg clocks caller level msg given =
     (if level < lg_level lg then None
      else Some (case entry_json (make_entry lg (fst clocks) caller level msg given) of
             None \<Rightarrow> marshal_failure (snd clocks)
           | Some j \<Rightarrow> json_encode j))"

subsection \<open>One line for each entry\<close>

definition one_line :: "string \<Rightarrow> bool" where
  "one_line s \<longleftrightarrow> (\<forall>c \<in> set s. 32 \<le> byte c)"

lemma one_line_simps [simp]:
  "one_line []" "one_line (c # s) \<longleftrightarrow> 32 \<le> byte c \<and> one_line s" "one_line (s @ t) \<longleftrightarrow> one_line s \<and> one_line t"
  by (auto simp: one_line_def)

lemma one_line_subset: "one_line s \<Longrightarrow> set t \<subseteq> set s \<Longrightarrow> one_line t"
  by (auto simp: one_line_def)

lemma one_line_join: "(\<forall>s \<in> set ss. one_line s) \<Longrightarrow> one_line (join_char (CHR '','') ss)"
  by (induction "CHR '',''" ss rule: join_char.induct) simp_all

lemma one_line_parts [simp]:
  "one_line s \<Longrightarrow> one_line (strip_zeros s)" "one_line s \<Longrightarrow> one_line (trim_zeros s)" "one_line s \<Longrightarrow> one_line (take n s)"
  "one_line s \<Longrightarrow> one_line (drop n s)" "one_line s \<Longrightarrow> one_line (tl s)"
  by (auto simp: one_line_def strip_zeros_def trim_zeros_def
      dest: set_dropWhileD in_set_takeD in_set_dropD list.set_sel(2) [rotated] split: list.splits)
    (metis list.sel(2) list.set_sel(2))

lemma char_of_int: "char_of (int k) = (char_of k :: char)"
  by (simp add: char_of_eq_iff of_char_of flip: of_nat_of_char take_bit_of_nat)

lemma one_line_digit [simp]: "32 \<le> byte (char_of (48 + n mod 10 :: nat))" "32 \<le> byte (char_of (48 + m mod 10 :: int))"
proof -
  have 1: "32 \<le> byte (char_of (48 + n mod 10 :: nat))" for n :: nat
    using mod_less_divisor [of 10 n] by simp
  then show "32 \<le> byte (char_of (48 + n mod 10 :: nat))" .
  have "48 + m mod 10 = int (48 + nat (m mod 10) mod 10)" by simp
  then show "32 \<le> byte (char_of (48 + m mod 10 :: int))" using 1 [of "nat (m mod 10)"] by (simp only: char_of_int)
qed

lemma one_line_nat_digits [simp]: "one_line (nat_digits n)"
  using nat_digits_digits [of n] by (auto simp: one_line_def decimal_digit_def list_all_iff)

lemma one_line_numbers [simp]: "one_line (itoa n)" "one_line (pad_digits k n)" "one_line (replicate m (CHR ''0''))"
  by (simp add: itoa_def, induction k arbitrary: n, simp_all add: one_line_def)

lemma one_line_float [simp]: "one_line (float_text neg v)"
  by (simp add: float_text_def plain_decimal_def exponent_decimal_def Let_def split: prod.split)

lemma one_line_time [simp]: "one_line (format_rfc3339 t)" "one_line (format_rfc3339_nano t)"
  by (simp_all add: format_rfc3339_def format_rfc3339_nano_def date_clock_def Let_def)

lemma one_line_escape: "one_line (u_escape r)"
proof -
  have "32 \<le> byte (hex_digit n)" if "n < 16" for n
  proof -
    have "list_all (\<lambda>n. 32 \<le> byte (hex_digit n)) [0..<16]" by (simp add: upt_rec hex_digit_def)
    then show ?thesis using that by (auto simp: list_all_iff)
  qed
  then show ?thesis by (simp add: u_escape_def)
qed

text \<open>A rune outside ASCII has no byte in ASCII.\<close>

lemma wide_rune_bytes:
  "decode_rune s = (r, w) \<Longrightarrow> s \<noteq> [] \<Longrightarrow> 128 \<le> byte (hd s) \<Longrightarrow> (r, w) \<noteq> (rune_error, 1) \<Longrightarrow> one_line (take w s)"
  by (cases s)
    (auto simp: Let_def continuation_def second_lo_def rune_error_def split: if_splits list.splits)

lemma one_line_quote_body: "one_line (quote_body s)"
proof (induction s rule: quote_body.induct)
  case (1 s)
  show ?case
  proof (cases "s = []")
    case False
    obtain r w where rw: "decode_rune s = (r, w)" by fastforce
    have "one_line (quote_ascii (hd s))" using one_line_escape [of "byte (hd s)"]
      by (auto simp: quote_ascii_def html_safe_def Let_def)
    then show ?thesis
      using 1 [OF False] rw False wide_rune_bytes [OF rw False] one_line_escape
      by (subst quote_body.simps) (auto simp: Let_def)
  qed (simp add: quote_body.simps)
qed

text \<open>Number literals inside a value that was decoded before.\<close>

fun clean_numbers :: "json \<Rightarrow> bool" where
  "clean_numbers (JNum s) = one_line s"
| "clean_numbers (JArr xs) = (\<forall>x \<in> set xs. clean_numbers x)"
| "clean_numbers (JObj m) = (\<forall>p \<in> set m. case p of (k, v) \<Rightarrow> clean_numbers v)"
| "clean_numbers v = True"

lemma one_line_quote [simp]: "one_line (json_quote s)"
  by (simp add: json_quote_def one_line_quote_body)

lemma one_line_encode: "clean_numbers j \<Longrightarrow> one_line (json_encode j)"
proof (induction j)
  case (JArr xs)
  then show ?case by (auto intro!: one_line_join)
next
  case (JObj m)
  then show ?case by (fastforce intro!: one_line_join)
qed auto

lemma clean_numbers_sorted: "clean_numbers j \<Longrightarrow> clean_numbers (json_sorted j)"
proof (induction j rule: json_sorted.induct)
  case (2 m)
  then show ?case using 2 by fastforce
qed auto

fun clean_value :: "log_value \<Rightarrow> bool" where
  "clean_value (VJson j) = clean_numbers j"
| "clean_value v = True"

definition clean_fields :: "log_fields \<Rightarrow> bool" where
  "clean_fields fs \<longleftrightarrow> (\<forall>p \<in> set fs. clean_value (snd p))"

lemma value_json_clean: "clean_value v \<Longrightarrow> value_json v = Some j \<Longrightarrow> clean_numbers j"
  by (cases v) (auto simp: clean_numbers_sorted split: if_splits)

lemma fields_json_clean: "clean_fields fs \<Longrightarrow> fields_json fs = Some m \<Longrightarrow> clean_numbers (JObj m)"
proof (induction fs arbitrary: m)
  case (Cons p fs)
  obtain k v where p: "p = (k, v)" by fastforce
  then obtain j m' where "value_json v = Some j" "fields_json fs = Some m'" "m = insert_key (k, j) m'"
    using Cons.prems(2) by (auto split: option.splits)
  then show ?case
    using Cons p value_json_clean [of v j] by (auto simp: clean_fields_def)
qed simp

lemma clean_update: "clean_fields fs \<Longrightarrow> clean_value v \<Longrightarrow> clean_fields (AList.update k v fs)"
  by (induction fs) (auto simp: clean_fields_def)

lemma clean_delete: "clean_fields fs \<Longrightarrow> clean_fields (AList.delete k fs)"
  by (auto simp: clean_fields_def AList.delete_eq)

lemma clean_merge: "clean_fields fs \<Longrightarrow> clean_fields gs \<Longrightarrow> clean_fields (AList.merge fs gs)"
proof (induction gs)
  case (Cons p gs)
  obtain k v where p: "p = (k, v)" by fastforce
  have "AList.merge fs (p # gs) = AList.update k v (AList.merge fs gs)" by (simp add: AList.merge_def p)
  moreover have "clean_value v" "clean_fields gs" using Cons.prems(2) by (simp_all add: clean_fields_def p)
  ultimately show ?case using Cons by (simp add: clean_update)
qed (simp add: AList.merge_def)

lemma clean_take: "clean_fields fs \<Longrightarrow> clean_fields (snd (take_text key fs))"
  by (auto simp: take_text_def clean_delete split: option.split log_value.split)

lemma make_entry_clean:
  assumes "clean_fields (lg_fields lg)" "clean_fields given"
  shows "clean_fields (en_fields (make_entry lg t caller level msg given))"
proof -
  define fs3 where "fs3 = snd (take_text ''span_id'' (snd (take_text ''trace_id'' (snd (take_text ''request_id''
    (AList.merge (lg_fields lg) given))))))"
  have "clean_fields fs3" unfolding fs3_def using assms by (intro clean_take clean_merge)
  moreover have "en_fields (make_entry lg t caller level msg given) \<in>
      {fs3, AList.delete ''stack_trace'' fs3} \<union> range (\<lambda>e. AList.update ''error'' (VText e) fs3)"
    by (simp add: make_entry_def Let_def case_prod_beta fs3_def [symmetric] split: option.split log_value.split)
  ultimately show ?thesis by (auto simp: clean_update clean_delete)
qed

lemma entry_json_clean:
  assumes "clean_fields (en_fields e)" "entry_json e = Some j"
  shows "clean_numbers j"
proof -
  obtain fs where "fields_json (en_fields e) = Some fs"
    using assms(2) by (auto simp: entry_json_def split: option.splits)
  then show ?thesis
    using assms fields_json_clean [of "en_fields e" fs]
    by (auto simp: entry_json_def omit_empty_def split: if_splits)
qed

text \<open>C38: Log lines cannot be forged. A call of the logger writes nothing when its level is below that of the logger,
  and otherwise one line: whatever bytes the message, the field names and the field values hold, and
  also when the entry cannot be encoded, the text has no control character in it. Audit events are
  written at every level.\<close>

theorem log_line_single:
  assumes "clean_fields (lg_fields lg)" "clean_fields given"
  shows "(log_text lg clocks caller level msg given = None \<longleftrightarrow> level < lg_level lg) \<and>
    (\<forall>s. log_text lg clocks caller level msg given = Some s \<longrightarrow> one_line s) \<and>
    log_text lg clocks caller AUDIT msg given \<noteq> None"
proof -
  have "one_line (marshal_failure t)" for t by (simp add: marshal_failure_def)
  moreover have "one_line (json_encode j)" if "entry_json (make_entry lg t caller level msg given) = Some j" for t j
    using entry_json_clean [OF make_entry_clean [OF assms] that] by (rule one_line_encode)
  moreover have "\<not> AUDIT < lg_level lg" using audit_highest [of "lg_level lg"] by simp
  ultimately show ?thesis by (auto simp: log_text_def split: option.splits)
qed

theorem log_line_single_witness:
  "\<exists>s. log_text (NewLogger 0 INFO True) (0, 0) (Some (''/app/src/handlers.go'', 31, ''CreatePaste'')) WARN ''invalid\<newline>request''
     [(''user_agent'', VText (''x'' @ [CHR 10] @ ''{}'')), (''status'', VInt 400)] = Some s \<and> one_line s"
proof -
  have "\<not> WARN < lg_level (NewLogger 0 INFO True)" by (simp add: NewLogger_def less_log_level_def)
  then show ?thesis
    using log_line_single [of "NewLogger 0 INFO True" "[(''user_agent'', VText (''x'' @ [CHR 10] @ ''{}'')), (''status'', VInt 400)]"
        "(0, 0)" "Some (''/app/src/handlers.go'', 31, ''CreatePaste'')" WARN "''invalid\<newline>request''"]
    by (auto simp: NewLogger_def clean_fields_def)
qed

end
