(* ===== verification/AuditLog.thy ===== *)
theory AuditLog
  imports Logger "HOL-Library.Multiset"
begin

text \<open>
  \<^verbatim>\<open>src/logger/audit.go\<close>: the audit events, each a call of \<^verbatim>\<open>LogEvent\<close> with its fields, and what a context does to them.
  A call that slices a content hash shorter than sixteen characters is a panic, \<^const>\<open>None\<close>. The last part
  runs log calls concurrently, one write at a time.
\<close>

subsection \<open>Events\<close>

definition HashPasteID :: "string \<Rightarrow> string" where
  "HashPasteID i = hex_encode (take 8 (sha256 i))"

definition truncateSignature :: "string \<Rightarrow> string" where
  "truncateSignature sig = (if length sig > 8 then take 8 sig @ ''...'' else sig)"

definition determineWebhookAction :: "bool \<Rightarrow> string" where
  "determineWebhookAction valid = (if valid then ''processed'' else ''rejected'')"

definition sensitive_config_words :: "string list" where
  "sensitive_config_words = [''key'', ''secret'', ''password'', ''token'', ''apikey'', ''api_key'',
     ''private'', ''credential'', ''auth'', ''btcpay_apikey'', ''webhook_secret'']"

definition isSensitiveConfigKey :: "string \<Rightarrow> bool" where
  "isSensitiveConfigKey key = list_ex (contains_sub (to_lower key)) sensitive_config_words"

definition sanitized_config :: "(string \<times> json) list \<Rightarrow> (string \<times> json) list" where
  "sanitized_config config = map (\<lambda>(k, v). (k, if isSensitiveConfigKey k then JStr ''<redacted>'' else v)) config"

text \<open>\<^verbatim>\<open>contentHash[:16]\<close>.\<close>

definition hash_prefix :: "string \<Rightarrow> string option" where
  "hash_prefix h = (if 16 \<le> length h then Some (take 16 h) else None)"

datatype audit_call =
    PasteCreated string int int bool string
  | PasteDeduplicated string string string string int
  | HashBanned string string string gotime
  | BannedContentAttempt string string gotime
  | PasteViewed string string bool
  | PasteBurned string string
  | RateLimitHit string string int string
  | InvalidRequest string string string string
  | CSPViolation json string
  | InvoiceCreated string "bool \<times> rat" string string
  | PaymentReceived string string "bool \<times> rat" string
  | WebhookReceived string bool string string
  | SystemStart string "(string \<times> json) list"

fun audit_event :: "audit_call \<Rightarrow> (string \<times> log_fields) option" where
  "audit_event (PasteCreated i bytes expiry burn ip) = Some (''PASTE_CREATED'',
     [(''paste_id_hash'', VText (HashPasteID i)), (''size_bytes'', VInt bytes), (''expiry_seconds'', VInt expiry),
      (''burn_after_read'', VBool burn), (''client_ip'', VText ip)])"
| "audit_event (PasteDeduplicated i ref h ip saved) = (case hash_prefix h of None \<Rightarrow> None | Some p \<Rightarrow> Some (''PASTE_DEDUPLICATED'',
     [(''paste_id_hash'', VText (HashPasteID i)), (''references_id_hash'', VText (HashPasteID ref)),
      (''content_hash_prefix'', VText p), (''client_ip'', VText ip), (''saved_bytes'', VInt saved),
      (''dedup_efficiency'', VText ''100%'')]))"
| "audit_event (HashBanned h reason admin t) = (case hash_prefix h of None \<Rightarrow> None | Some p \<Rightarrow> Some (''HASH_BANNED'',
     [(''content_hash_prefix'', VText p), (''reason'', VText reason), (''admin_id'', VText admin), (''timestamp'', VTime t)]))"
| "audit_event (BannedContentAttempt h ip t) = (case hash_prefix h of None \<Rightarrow> None | Some p \<Rightarrow> Some (''BANNED_CONTENT_ATTEMPT'',
     [(''content_hash_prefix'', VText p), (''client_ip'', VText ip), (''action'', VText ''rejected''), (''timestamp'', VTime t)]))"
| "audit_event (PasteViewed i ip burn) = Some (''PASTE_VIEWED'',
     [(''paste_id_hash'', VText (HashPasteID i)), (''client_ip'', VText ip), (''burn_after_read'', VBool burn)])"
| "audit_event (PasteBurned i ip) = Some (''PASTE_BURNED'',
     [(''paste_id_hash'', VText (HashPasteID i)), (''client_ip'', VText ip), (''action'', VText ''burned_after_read'')])"
| "audit_event (RateLimitHit ip endpoint limit window) = Some (''RATE_LIMIT_HIT'',
     [(''client_ip'', VText ip), (''endpoint'', VText endpoint), (''limit'', VInt limit), (''window'', VText window),
      (''action'', VText ''blocked'')])"
| "audit_event (InvalidRequest ip endpoint reason agent) = Some (''INVALID_REQUEST'',
     [(''client_ip'', VText ip), (''endpoint'', VText endpoint), (''reason'', VText reason), (''user_agent'', VText agent),
      (''action'', VText ''rejected'')])"
| "audit_event (CSPViolation report ip) = Some (''CSP_VIOLATION'',
     [(''client_ip'', VText ip), (''violation'', VJson report), (''action'', VText ''reported'')])"
| "audit_event (InvoiceCreated invoice amount currency ip) = Some (''INVOICE_CREATED'',
     [(''invoice_id'', VText invoice), (''amount'', VFloat (fst amount) (snd amount)), (''currency'', VText currency),
      (''client_ip'', VText ip)])"
| "audit_event (PaymentReceived invoice i amount currency) = Some (''PAYMENT_RECEIVED'',
     [(''invoice_id'', VText invoice), (''paste_id_hash'', VText (HashPasteID i)),
      (''amount'', VFloat (fst amount) (snd amount)), (''currency'', VText currency), (''status'', VText ''completed'')])"
| "audit_event (WebhookReceived type valid ip sig) = Some (if valid then ''WEBHOOK_RECEIVED'' else ''WEBHOOK_INVALID'',
     [(''webhook_type'', VText type), (''signature_valid'', VBool valid), (''client_ip'', VText ip),
      (''signature_prefix'', VText (truncateSignature sig)), (''action'', VText (determineWebhookAction valid))])"
| "audit_event (SystemStart version config) = Some (''SYSTEM_START'',
     [(''version'', VText version), (''config'', VJson (JObj (sanitized_config config)))])"

text \<open>The fields of an event: those of the call replace the first two, and those of the context replace both.\<close>

definition event_fields :: "gotime \<Rightarrow> context_values option \<Rightarrow> string \<Rightarrow> log_fields \<Rightarrow> log_fields" where
  "event_fields t ctx event given =
     (let fs = AList.merge [(''event_type'', VText event), (''timestamp'', VText (format_rfc3339 t))] given
      in case ctx of None \<Rightarrow> fs
         | Some c \<Rightarrow> fold (add_value c) [''request_id'', ''client_ip'', ''user_agent''] fs)"

definition LogEvent ::
  "nat \<Rightarrow> logger \<Rightarrow> gotime \<times> gotime \<times> gotime \<Rightarrow> (string \<times> int \<times> string) option \<Rightarrow> context_values option \<Rightarrow>
   string \<times> log_fields \<Rightarrow> string option" where
  "LogEvent mutex lg clocks caller ctx ev =
     log_text (WithContext mutex ctx lg) (snd clocks) caller AUDIT (fst ev) (event_fields (fst clocks) ctx (fst ev) (snd ev))"

text \<open>The context that \<^verbatim>\<open>Logging\<close> passes on.\<close>

definition context_of :: "log_context \<Rightarrow> context_values" where
  "context_of lc = (\<lambda>key.
     if key = ''request_id'' then Some (lc_request_id lc)
     else if key = ''client_ip'' then Some (lc_client_ip lc)
     else if key = ''user_agent'' then Some (lc_user_agent lc)
     else if key = ''trace_id'' \<and> lc_trace_id lc \<noteq> [] then Some (lc_trace_id lc)
     else if key = ''span_id'' \<and> lc_span_id lc \<noteq> [] then Some (lc_span_id lc)
     else None)"

lemma map_of_add_value: "map_of (add_value c key fs) k =
    (if k = key \<and> c key \<noteq> None then Some (VText (the (c key))) else map_of fs k)"
  by (simp add: add_value_def AList.update_conv' split: option.split)

lemma map_of_add_values: "map_of (fold (add_value c) keys fs) k =
    (if k \<in> set keys \<and> c k \<noteq> None then Some (VText (the (c k))) else map_of fs k)"
  by (induction keys arbitrary: fs) (auto simp: map_of_add_value)

lemma event_fields_context:
  "map_of (event_fields t (Some c) event given) k =
     (if k \<in> {''request_id'', ''client_ip'', ''user_agent''} \<and> c k \<noteq> None then Some (VText (the (c k)))
      else (map_of [(''event_type'', VText event), (''timestamp'', VText (format_rfc3339 t))] ++ map_of given) k)"
  unfolding event_fields_def Let_def option.case map_of_add_values AList.merge_conv' by simp

lemma take_text_map: "map_of (snd (take_text key fs)) k =
    (if k = key \<and> (\<exists>s. map_of fs key = Some (VText s)) then None else map_of fs k)"
  by (auto simp: take_text_def AList.delete_conv' split: option.split log_value.split)

lemma audit_entry_fields:
  fixes lg t caller ev given
  defines "e \<equiv> make_entry lg t caller AUDIT ev given"
  shows "en_request_id e = fst (take_text ''request_id'' (AList.merge (lg_fields lg) given))"
    and "k \<notin> {''request_id'', ''trace_id'', ''span_id''} \<Longrightarrow> map_of (en_fields e) k = (map_of (lg_fields lg) ++ map_of given) k"
  by (simp_all add: e_def make_entry_def Let_def case_prod_beta take_text_map AList.merge_conv')

text \<open>What an audit event of a request shows of its sender. In every audit event of a request that passed
  \<^verbatim>\<open>Logging\<close>, whichever address the handler resolved and passed on, the client address is that of the peer, so
  behind a load balancer it is the balancer's; the request identifier is the one in the
  response, and the user agent is that of the request.\<close>

lemma audit_shows_peer:
  fixes rq random lg t t' caller ev given m
  defines "ctx \<equiv> context_of (log_context_of random rq)"
  defines "e \<equiv> make_entry (WithContext m (Some ctx) lg) t caller AUDIT ev (event_fields t' (Some ctx) ev given)"
  shows "map_of (en_fields e) ''client_ip'' = Some (VText (parseIP (rq_remote rq))) \<and>
    en_request_id e = request_id random rq \<and>
    map_of (en_fields e) ''user_agent'' = Some (VText (header_value rq ''User-Agent''))"
proof -
  have c: "ctx ''client_ip'' = Some (parseIP (rq_remote rq))" "ctx ''request_id'' = Some (request_id random rq)"
    "ctx ''user_agent'' = Some (header_value rq ''User-Agent'')"
    by (simp_all add: ctx_def context_of_def log_context_of_def GetClientIP_def peer_of_def)
  then show ?thesis
    by (simp add: e_def audit_entry_fields event_fields_context take_text_def AList.merge_conv')
qed

text \<open>What an observer of the log is allowed to learn of a call, said without the functions of the code: of a paste
  identifier the first eight bytes of its SHA-256, of a content hash the first sixteen characters, of a
  webhook signature the first eight characters and whether there are more, and of a setting whose name contains
  one of seven words in any case only the name.\<close>

definition id_digest :: "string \<Rightarrow> string" where "id_digest i = take 8 (sha256 i)"

definition short_hash :: "string \<Rightarrow> string" where "short_hash h = (if length h < 16 then [] else take 16 h)"

definition short_signature :: "string \<Rightarrow> string" where
  "short_signature sig = (if length sig \<le> 8 then sig else take 8 sig @ ''...'')"

definition names_secret :: "string \<Rightarrow> bool" where
  "names_secret k \<longleftrightarrow> (\<exists>w \<in> {''key'', ''secret'', ''password'', ''token'', ''private'', ''credential'', ''auth''}.
     contains_sub (to_lower k) w)"

definition public_settings :: "(string \<times> json) list \<Rightarrow> (string \<times> json) list" where
  "public_settings config = map (\<lambda>(k, v). (k, if names_secret k then JNull else v)) config"

fun disclosed :: "audit_call \<Rightarrow> audit_call" where
  "disclosed (PasteCreated i bytes expiry burn ip) = PasteCreated (id_digest i) bytes expiry burn ip"
| "disclosed (PasteDeduplicated i ref h ip saved) = PasteDeduplicated (id_digest i) (id_digest ref) (short_hash h) ip saved"
| "disclosed (HashBanned h reason admin t) = HashBanned (short_hash h) reason admin t"
| "disclosed (BannedContentAttempt h ip t) = BannedContentAttempt (short_hash h) ip t"
| "disclosed (PasteViewed i ip burn) = PasteViewed (id_digest i) ip burn"
| "disclosed (PasteBurned i ip) = PasteBurned (id_digest i) ip"
| "disclosed (PaymentReceived invoice i amount currency) = PaymentReceived invoice (id_digest i) amount currency"
| "disclosed (WebhookReceived type valid ip sig) = WebhookReceived type valid ip (short_signature sig)"
| "disclosed (SystemStart version config) = SystemStart version (public_settings config)"
| "disclosed c = c"

lemma id_disclosed: "id_digest i = id_digest i' \<Longrightarrow> HashPasteID i = HashPasteID i'"
  by (simp add: id_digest_def HashPasteID_def)

lemma hash_disclosed: "short_hash h = short_hash h' \<Longrightarrow> hash_prefix h = hash_prefix h'"
  by (cases "16 \<le> length h"; cases "16 \<le> length h'") (auto simp: short_hash_def hash_prefix_def)

lemma signature_disclosed: "short_signature sig = short_signature sig' \<Longrightarrow> truncateSignature sig = truncateSignature sig'"
  by (simp add: short_signature_def truncateSignature_def not_less split: if_splits)

lemma names_secret_sensitive: "names_secret k \<Longrightarrow> isSensitiveConfigKey k"
  by (auto simp: names_secret_def isSensitiveConfigKey_def sensitive_config_words_def)

lemma settings_disclosed: "public_settings config = public_settings config' \<Longrightarrow> sanitized_config config = sanitized_config config'"
proof (induction config arbitrary: config')
  case (Cons p config)
  then obtain q rest where q: "config' = q # rest" by (auto simp: public_settings_def)
  with Cons.prems have "public_settings config = public_settings rest" "fst p = fst q" "snd p = snd q \<or> names_secret (fst q)"
    by (auto simp: public_settings_def split: prod.splits if_splits)
  with Cons.IH [of rest] show ?case
    using names_secret_sensitive [of "fst q"] by (cases p; cases q) (auto simp: sanitized_config_def q)
qed (simp add: sanitized_config_def public_settings_def)

text \<open>C39: The audit log conceals what must stay secret. Two calls that agree in what may be disclosed write the same line:
  it reveals a paste identifier only through eight bytes of its SHA-256, no more than sixteen characters of a
  content hash and eight of a webhook signature, and nothing of the values of settings whose names contain a
  sensitive word in any case.\<close>

theorem audit_conceals:
  assumes "disclosed c = disclosed c'"
  shows "map_option (LogEvent m lg clocks caller ctx) (audit_event c) = map_option (LogEvent m lg clocks caller ctx) (audit_event c')"
proof -
  have "audit_event c = audit_event c'"
    using assms by (cases c; cases c')
      (auto dest!: id_disclosed hash_disclosed signature_disclosed settings_disclosed cong: option.case_cong)
  then show ?thesis by simp
qed

text \<open>Two signatures that differ after the eighth character, and two values of a secret setting.\<close>

theorem audit_conceals_witness:
  "map_option (LogEvent 1 (NewLogger 0 INFO True) (0, 0, 0) None None)
     (audit_event (WebhookReceived ''payment'' True ''192.0.2.1'' ''sha256=ab12'')) =
   map_option (LogEvent 1 (NewLogger 0 INFO True) (0, 0, 0) None None)
     (audit_event (WebhookReceived ''payment'' True ''192.0.2.1'' ''sha256=acff'')) \<and>
   map_option (LogEvent 1 (NewLogger 0 INFO True) (0, 0, 0) None None)
     (audit_event (SystemStart ''dev'' [(''port'', JStr ''8080''), (''BTCPAY_ApiKey'', JStr ''k1'')])) =
   map_option (LogEvent 1 (NewLogger 0 INFO True) (0, 0, 0) None None)
     (audit_event (SystemStart ''dev'' [(''port'', JStr ''8080''), (''BTCPAY_ApiKey'', JStr ''k2'')]))"
proof (intro conjI audit_conceals)
  show "disclosed (WebhookReceived ''payment'' True ''192.0.2.1'' ''sha256=ab12'') =
      disclosed (WebhookReceived ''payment'' True ''192.0.2.1'' ''sha256=acff'')"
    by (simp add: short_signature_def)
  have "contains_sub (to_lower ''BTCPAY_ApiKey'') ''key''" by code_simp
  then have "names_secret ''BTCPAY_ApiKey''" by (auto simp: names_secret_def)
  then show "disclosed (SystemStart ''dev'' [(''port'', JStr ''8080''), (''BTCPAY_ApiKey'', JStr ''k1'')]) =
      disclosed (SystemStart ''dev'' [(''port'', JStr ''8080''), (''BTCPAY_ApiKey'', JStr ''k2'')])"
    by (simp add: public_settings_def)
qed

subsection \<open>Concurrent calls\<close>

text \<open>A call that writes holds the mutex of its logger around two writes, of the text and of the newline.\<close>

datatype write_pc = WaitLock | WriteText | WriteNewline | Written

record writer =
  wr_mutex :: nat
  wr_text :: string
  wr_pc :: write_pc

record log_system =
  ls_output :: string
  ls_locked :: "nat set"
  ls_writers :: "writer list"

definition writer_step :: "nat \<Rightarrow> log_system \<Rightarrow> log_system" where
  "writer_step j s =
     (if length (ls_writers s) \<le> j then s
      else (let w = ls_writers s ! j; go = (\<lambda>pc. (ls_writers s)[j := w\<lparr>wr_pc := pc\<rparr>]) in
        case wr_pc w of
          WaitLock \<Rightarrow> if wr_mutex w \<in> ls_locked s then s
            else s\<lparr>ls_locked := insert (wr_mutex w) (ls_locked s), ls_writers := go WriteText\<rparr>
        | WriteText \<Rightarrow> s\<lparr>ls_output := ls_output s @ wr_text w, ls_writers := go WriteNewline\<rparr>
        | WriteNewline \<Rightarrow> s\<lparr>ls_output := ls_output s @ [CHR 10], ls_locked := ls_locked s - {wr_mutex w},
            ls_writers := go Written\<rparr>
        | Written \<Rightarrow> s))"

definition log_run :: "nat list \<Rightarrow> log_system \<Rightarrow> log_system" where
  "log_run schedule s = fold writer_step schedule s"

definition start_calls :: "(logger \<times> string) list \<Rightarrow> log_system" where
  "start_calls calls = \<lparr>ls_output = [], ls_locked = {},
     ls_writers = map (\<lambda>(lg, s). \<lparr>wr_mutex = lg_mutex lg, wr_text = s, wr_pc = WaitLock\<rparr>) calls\<rparr>"

definition all_written :: "log_system \<Rightarrow> bool" where
  "all_written s \<longleftrightarrow> (\<forall>w \<in> set (ls_writers s). wr_pc w = Written)"

definition whole_lines :: "string list \<Rightarrow> string" where
  "whole_lines ls = concat (map (\<lambda>s. s @ [CHR 10]) ls)"

text \<open>With one logger, and so one mutex, the lines stay whole: at any time the output is some whole lines, those of
  the calls that have returned, and at most the text of the call that holds the mutex.\<close>

definition idle :: "writer \<Rightarrow> bool" where
  "idle w \<longleftrightarrow> wr_pc w = WaitLock \<or> wr_pc w = Written"

definition written_texts :: "writer list \<Rightarrow> string multiset" where
  "written_texts ws = image_mset wr_text (filter_mset (\<lambda>w. wr_pc w = Written) (mset ws))"

definition whole_inv :: "nat \<Rightarrow> log_system \<Rightarrow> bool" where
  "whole_inv m s \<longleftrightarrow> (\<forall>w \<in> set (ls_writers s). wr_mutex w = m) \<and>
     (\<exists>ls. mset ls = written_texts (ls_writers s) \<and>
       ((m \<notin> ls_locked s \<and> ls_output s = whole_lines ls \<and> list_all idle (ls_writers s)) \<or>
        (\<exists>j < length (ls_writers s). m \<in> ls_locked s \<and> (\<forall>i < length (ls_writers s). i \<noteq> j \<longrightarrow> idle (ls_writers s ! i)) \<and>
          ((wr_pc (ls_writers s ! j) = WriteText \<and> ls_output s = whole_lines ls) \<or>
           (wr_pc (ls_writers s ! j) = WriteNewline \<and> ls_output s = whole_lines ls @ wr_text (ls_writers s ! j))))))"

lemma whole_lines_snoc [simp]: "whole_lines (ls @ [s]) = whole_lines ls @ s @ [CHR 10]"
  by (simp add: whole_lines_def)

lemma written_update:
  "j < length ws \<Longrightarrow> wr_pc (ws ! j) \<noteq> Written \<Longrightarrow>
   written_texts (ws[j := w]) = (if wr_pc w = Written then add_mset (wr_text w) (written_texts ws) else written_texts ws)"
  by (simp add: written_texts_def mset_update)

lemma idle_step:
  assumes "list_all idle ws" "j < length ws" "wr_pc (ws ! j) = WaitLock" "i < length ws" "i \<noteq> j"
  shows "idle (ws[j := w] ! i)"
  using assms by (simp add: list_all_length)

lemma whole_step:
  assumes "whole_inv m s"
  shows "whole_inv m (writer_step j s)"
proof (cases "j < length (ls_writers s)")
  case False
  then show ?thesis using assms by (simp add: writer_step_def)
next
  case j: True
  define ws where "ws = ls_writers s"
  define w where "w = ws ! j"
  have mutex: "\<forall>w \<in> set ws. wr_mutex w = m" and wm: "wr_mutex w = m"
    using assms j by (auto simp: whole_inv_def ws_def w_def)
  have same: "\<forall>v \<in> set (ws[j := w\<lparr>wr_pc := pc\<rparr>]). wr_mutex v = m" for pc
    using mutex wm set_update_subset_insert [of ws j] by fastforce
  obtain ls where ls: "mset ls = written_texts ws" and
    out: "(m \<notin> ls_locked s \<and> ls_output s = whole_lines ls \<and> list_all idle ws) \<or>
      (\<exists>i < length ws. m \<in> ls_locked s \<and> (\<forall>k < length ws. k \<noteq> i \<longrightarrow> idle (ws ! k)) \<and>
        ((wr_pc (ws ! i) = WriteText \<and> ls_output s = whole_lines ls) \<or>
         (wr_pc (ws ! i) = WriteNewline \<and> ls_output s = whole_lines ls @ wr_text (ws ! i))))"
    using assms by (auto simp: whole_inv_def ws_def)
  have only: "ls_output s = (if wr_pc w = WriteText then whole_lines ls else whole_lines ls @ wr_text w) \<and>
      m \<in> ls_locked s \<and> (\<forall>k < length ws. k \<noteq> j \<longrightarrow> idle (ws ! k))" if "wr_pc w \<in> {WriteText, WriteNewline}"
  proof -
    have "\<not> idle (ws ! j)" using that by (auto simp: idle_def w_def)
    then show ?thesis using out that j by (auto simp: w_def ws_def list_all_length)
  qed
  have step: "writer_step j s = (case wr_pc w of
      WaitLock \<Rightarrow> if m \<in> ls_locked s then s
        else s\<lparr>ls_locked := insert m (ls_locked s), ls_writers := ws[j := w\<lparr>wr_pc := WriteText\<rparr>]\<rparr>
    | WriteText \<Rightarrow> s\<lparr>ls_output := ls_output s @ wr_text w, ls_writers := ws[j := w\<lparr>wr_pc := WriteNewline\<rparr>]\<rparr>
    | WriteNewline \<Rightarrow> s\<lparr>ls_output := ls_output s @ [CHR 10], ls_locked := ls_locked s - {m},
        ls_writers := ws[j := w\<lparr>wr_pc := Written\<rparr>]\<rparr>
    | Written \<Rightarrow> s)"
    using j wm unfolding w_def ws_def writer_step_def Let_def by (simp split: write_pc.split)
  have jw: "j < length ws" using j by (simp add: ws_def)
  show ?thesis
  proof (cases "wr_pc w")
    case WaitLock
    then have up: "written_texts (ws[j := w\<lparr>wr_pc := WriteText\<rparr>]) = written_texts ws"
      using written_update [OF jw] by (simp add: w_def)
    show ?thesis
    proof (cases "m \<in> ls_locked s")
      case False
      then have "ls_output s = whole_lines ls" "list_all idle ws" using out by auto
      then show ?thesis
        using WaitLock False same up ls jw idle_step [of ws j] unfolding step whole_inv_def
        by (auto simp: w_def intro!: exI [of _ ls] exI [of _ j])
    qed (use WaitLock assms in \<open>simp add: step\<close>)
  next
    case WriteText
    then have "written_texts (ws[j := w\<lparr>wr_pc := WriteNewline\<rparr>]) = written_texts ws"
      using written_update [OF jw] by (simp add: w_def)
    then show ?thesis
      using WriteText only same ls jw unfolding step whole_inv_def
      by (auto simp: idle_def intro!: exI [of _ ls] exI [of _ j])
  next
    case WriteNewline
    then have "written_texts (ws[j := w\<lparr>wr_pc := Written\<rparr>]) = add_mset (wr_text w) (written_texts ws)"
      using written_update [OF jw] by (simp add: w_def)
    moreover have "list_all idle (ws[j := w\<lparr>wr_pc := Written\<rparr>])"
      using only WriteNewline jw by (auto simp: list_all_length nth_list_update idle_def)
    ultimately show ?thesis
      using WriteNewline only same ls jw unfolding step whole_inv_def
      by (auto intro!: exI [of _ "ls @ [wr_text w]"])
  qed (use assms in \<open>simp add: step\<close>)
qed

theorem shared_logger_whole_lines:
  assumes "\<forall>c \<in> set calls. lg_mutex (fst c) = m" "all_written (log_run schedule (start_calls calls))"
  shows "\<exists>ls. ls_output (log_run schedule (start_calls calls)) = whole_lines ls \<and> mset ls = mset (map snd calls)"
proof -
  have start: "whole_inv m (start_calls calls)"
    using assms(1) by (auto simp: whole_inv_def start_calls_def written_texts_def whole_lines_def list_all_iff idle_def
        filter_mset_eq_conv intro!: exI [of _ "[]"])
  have "whole_inv m (log_run schedule s)" if "whole_inv m s" for s
    using that unfolding log_run_def by (induction schedule arbitrary: s) (simp_all add: whole_step)
  then have inv: "whole_inv m (log_run schedule (start_calls calls))" using start by blast
  have "map wr_text (ws[j := (ws ! j)\<lparr>wr_pc := pc\<rparr>]) = map wr_text ws" for ws :: "writer list" and j pc
    by (cases "j < length ws") (simp_all add: list_eq_iff_nth_eq nth_list_update)
  then have texts: "map wr_text (ls_writers (writer_step j s)) = map wr_text (ls_writers s)" for j s
    by (simp add: writer_step_def Let_def split: write_pc.split)
  have "map wr_text (ls_writers (log_run schedule s)) = map wr_text (ls_writers s)" for s
    unfolding log_run_def by (induction schedule arbitrary: s) (simp_all add: texts)
  then have all: "map wr_text (ls_writers (log_run schedule (start_calls calls))) = map snd calls"
    by (simp add: start_calls_def comp_def case_prod_beta)
  have "filter_mset (\<lambda>w. wr_pc w = Written) (mset (ls_writers (log_run schedule (start_calls calls)))) =
      mset (ls_writers (log_run schedule (start_calls calls)))"
    using assms(2) by (simp add: all_written_def filter_mset_eq_conv)
  then have "written_texts (ls_writers (log_run schedule (start_calls calls))) = mset (map snd calls)"
    unfolding written_texts_def all [symmetric] by simp
  then show ?thesis using inv assms(2) by (fastforce simp: whole_inv_def all_written_def)
qed

text \<open>Log lines of concurrent requests can be torn. Every request derives its own loggers with \<^verbatim>\<open>WithContext\<close>, and
  a derived logger has a mutex of its own, so two calls at the same time can write their texts next to each
  other and both newlines after them: the output is one line that is no entry, and an empty one.\<close>

theorem derived_loggers_tear_lines:
  "all_written (log_run [0, 1, 0, 1, 0, 1] (start_calls [(WithContext 1 ctx lg, s), (WithContext 2 ctx' lg, t)])) \<and>
   ls_output (log_run [0, 1, 0, 1, 0, 1] (start_calls [(WithContext 1 ctx lg, s), (WithContext 2 ctx' lg, t)])) =
     s @ t @ [CHR 10, CHR 10]"
  by (simp add: log_run_def start_calls_def writer_step_def WithContext_def all_written_def Let_def)

end
