(* ===== verification/Migrate.thy ===== *)
theory Migrate
  imports Prelude "HOL-Library.List_Lexorder" "HOL-Library.Char_ord"
begin

text \<open>
  \<^verbatim>\<open>migrations/migrate.go\<close>: the migration of the PostgreSQL schema. The database is the table of applied versions and the
  rest of the data, on which \<open>run_sql\<close> runs a script; every call of the driver may fail, and a commit or a table that is
  reported as an error may be there. What runs of the tool leave behind, over any number of failing
  runs, is the main result.
\<close>

record 'd migrated_db =
  md_versions :: "string list option" \<comment> \<open>\<^const>\<open>None\<close> before the table exists\<close>
  md_data :: 'd

datatype commit_fate = Committed | RolledBack | CommitReplyLost

record migrate_env =
  me_connect_fails :: bool
  me_table :: commit_fate
  me_check_fails :: "string \<Rightarrow> bool"
  me_begin_fails :: "string \<Rightarrow> bool"
  me_exec_fails :: "string \<Rightarrow> bool"
  me_record_fails :: "string \<Rightarrow> bool"
  me_commit :: "string \<Rightarrow> commit_fate"

definition ensureMigrationsTable :: "migrate_env \<Rightarrow> 'd migrated_db \<Rightarrow> string option \<times> 'd migrated_db" where
  "ensureMigrationsTable e db =
     (let db1 = db\<lparr>md_versions := Some (case md_versions db of None \<Rightarrow> [] | Some vs \<Rightarrow> vs)\<rparr>
      in case me_table e of
           Committed \<Rightarrow> (None, db1)
         | RolledBack \<Rightarrow> (Some ''create'', db)
         | CommitReplyLost \<Rightarrow> (Some ''create'', db1))"

text \<open>\<^verbatim>\<open>filepath.Ext\<close>: from the last dot of the last path element.\<close>

definition path_ext :: "string \<Rightarrow> string" where
  "path_ext s =
     (let r = takeWhile (\<lambda>c. c \<noteq> CHR ''.'' \<and> c \<noteq> CHR ''/'') (rev s); rest = drop (length r) (rev s)
      in if rest \<noteq> [] \<and> hd rest = CHR ''.'' then CHR ''.'' # rev r else [])"

definition trim_suffix :: "string \<Rightarrow> string \<Rightarrow> string" where
  "trim_suffix s t = (if has_suffix s t then take (length s - length t) s else s)"

definition version_of :: "string \<Rightarrow> string" where
  "version_of file = trim_suffix file (path_ext file)"

text \<open>One file: \<^verbatim>\<open>Some\<close> error ends the run. The embedded file system gives names with their contents.\<close>

definition migrate_file ::
  "migrate_env \<Rightarrow> (string \<Rightarrow> 'd \<Rightarrow> 'd option) \<Rightarrow> (string \<rightharpoonup> string) \<Rightarrow> string \<Rightarrow> 'd migrated_db \<Rightarrow> string option \<times> 'd migrated_db" where
  "migrate_file e run_sql fs file db =
     (let version = version_of file in
      case md_versions db of
        None \<Rightarrow> (Some ''failed to check migration status'', db)
      | Some vs \<Rightarrow>
          if me_check_fails e file then (Some ''failed to check migration status'', db)
          else if version \<in> set vs then (None, db)
          else (case fs file of
             None \<Rightarrow> (Some (''failed to read migration '' @ file), db)
           | Some content \<Rightarrow>
               if me_begin_fails e file then (Some ''failed to begin transaction'', db)
               else (case (if me_exec_fails e file then None else run_sql content (md_data db)) of
                  None \<Rightarrow> (Some (''failed to apply migration '' @ file), db)
                | Some d \<Rightarrow>
                    if me_record_fails e file then (Some ''failed to record migration'', db)
                    else (let db1 = db\<lparr>md_versions := Some (vs @ [version]), md_data := d\<rparr> in
                      case me_commit e file of
                        Committed \<Rightarrow> (None, db1)
                      | RolledBack \<Rightarrow> (Some ''failed to commit migration'', db)
                      | CommitReplyLost \<Rightarrow> (Some ''failed to commit migration'', db1)))))"

fun migrate_files ::
  "migrate_env \<Rightarrow> (string \<Rightarrow> 'd \<Rightarrow> 'd option) \<Rightarrow> (string \<rightharpoonup> string) \<Rightarrow> string list \<Rightarrow> 'd migrated_db \<Rightarrow> string option \<times> 'd migrated_db" where
  "migrate_files e run_sql fs [] db = (None, db)"
| "migrate_files e run_sql fs (file # files) db =
     (case migrate_file e run_sql fs file db of
        (Some err, db1) \<Rightarrow> (Some err, db1)
      | (None, db1) \<Rightarrow> migrate_files e run_sql fs files db1)"

definition sql_files :: "(string \<times> string) list \<Rightarrow> string list" where
  "sql_files dir = sort (filter (\<lambda>f. has_suffix f ''.sql'') (map fst dir))"

definition migrateUp ::
  "migrate_env \<Rightarrow> (string \<Rightarrow> 'd \<Rightarrow> 'd option) \<Rightarrow> (string \<times> string) list \<Rightarrow> 'd migrated_db \<Rightarrow> string option \<times> 'd migrated_db" where
  "migrateUp e run_sql dir db = migrate_files e run_sql (map_of dir) (sql_files dir) db"

text \<open>\<^verbatim>\<open>main\<close>: the exit status.\<close>

definition migrate_main ::
  "migrate_env \<Rightarrow> (string \<Rightarrow> 'd \<Rightarrow> 'd option) \<Rightarrow> (string \<times> string) list \<Rightarrow> string \<Rightarrow> string \<Rightarrow> 'd migrated_db \<Rightarrow> int \<times> 'd migrated_db" where
  "migrate_main e run_sql dir url direction db =
     (if url = [] then (1, db)
      else if me_connect_fails e then (1, db)
      else (case ensureMigrationsTable e db of
         (Some err, db1) \<Rightarrow> (1, db1)
       | (None, db1) \<Rightarrow>
           if direction = ''up'' then
             (case migrateUp e run_sql dir db1 of (Some err, db2) \<Rightarrow> (1, db2) | (None, db2) \<Rightarrow> (0, db2))
           else (0, db1)))"

subsection \<open>Every script once, in order\<close>

fun run_scripts :: "(string \<Rightarrow> 'd \<Rightarrow> 'd option) \<Rightarrow> string list \<Rightarrow> 'd \<Rightarrow> 'd option" where
  "run_scripts run_sql [] d = Some d"
| "run_scripts run_sql (c # cs) d = (case run_sql c d of None \<Rightarrow> None | Some d1 \<Rightarrow> run_scripts run_sql cs d1)"

lemma run_scripts_append:
  "run_scripts run_sql (cs @ [c]) d = (case run_scripts run_sql cs d of None \<Rightarrow> None | Some d1 \<Rightarrow> run_sql c d1)"
  by (induction cs arbitrary: d) (auto split: option.split)

definition script :: "(string \<times> string) list \<Rightarrow> string \<Rightarrow> string" where
  "script dir file = the (map_of dir file)"

text \<open>The first \<open>k\<close> files have been applied to the data \<open>d\<close>, each once, and are recorded.\<close>

definition migrated :: "(string \<Rightarrow> 'd \<Rightarrow> 'd option) \<Rightarrow> (string \<times> string) list \<Rightarrow> 'd \<Rightarrow> nat \<Rightarrow> 'd migrated_db \<Rightarrow> bool" where
  "migrated run_sql dir d k db \<longleftrightarrow> k \<le> length (sql_files dir) \<and>
     md_versions db = Some (map version_of (take k (sql_files dir))) \<and>
     run_scripts run_sql (map (script dir) (take k (sql_files dir))) d = Some (md_data db)"

lemma has_suffix_split: "has_suffix f t \<Longrightarrow> f = take (length f - length t) f @ t"
  by (metis has_suffix_def append_take_drop_id)

lemma ext_of_append: "path_ext (s @ ''.sql'') = ''.sql''"
  by (simp add: path_ext_def)

lemma ext_sql: "has_suffix f ''.sql'' \<Longrightarrow> path_ext f = ''.sql''"
  by (drule has_suffix_split) (metis (no_types, lifting) ext_of_append)

lemma version_of_sql: "has_suffix f ''.sql'' \<Longrightarrow> f = version_of f @ ''.sql''"
  using has_suffix_split [of f "''.sql''"] by (simp add: version_of_def ext_sql trim_suffix_def)

lemma sql_files_facts:
  assumes "distinct (map fst dir)"
  shows "distinct (map version_of (sql_files dir))" "f \<in> set (sql_files dir) \<Longrightarrow> map_of dir f \<noteq> None"
proof -
  have "inj_on version_of (set (sql_files dir))"
  proof (rule inj_onI)
    fix f g
    assume "f \<in> set (sql_files dir)" "g \<in> set (sql_files dir)" and eq: "version_of f = version_of g"
    then have "has_suffix f ''.sql''" "has_suffix g ''.sql''" by (simp_all add: sql_files_def)
    from this [THEN version_of_sql] show "f = g" using eq by metis
  qed
  then show "distinct (map version_of (sql_files dir))"
    using assms by (simp add: distinct_map sql_files_def distinct_filter)
  show "f \<in> set (sql_files dir) \<Longrightarrow> map_of dir f \<noteq> None"
    by (auto simp: sql_files_def map_of_eq_None_iff)
qed

lemma migrate_file_step:
  assumes "distinct (map fst dir)" "migrated run_sql dir d k db" "k < length (sql_files dir)"
    and "migrate_file e run_sql (map_of dir) (sql_files dir ! k) db = (r, db')"
  shows "migrated run_sql dir d k db' \<or> migrated run_sql dir d (Suc k) db'" "r = None \<Longrightarrow> migrated run_sql dir d (Suc k) db'"
proof -
  let ?fs = "sql_files dir"
  have vs: "md_versions db = Some (map version_of (take k ?fs))" using assms(2) by (simp add: migrated_def)
  have new: "version_of (?fs ! k) \<notin> set (map version_of (take k ?fs))"
  proof -
    have "distinct (map version_of (take (Suc k) ?fs))" using sql_files_facts(1) [OF assms(1)] by (simp add: take_map [symmetric])
    then show ?thesis using assms(3) by (simp add: take_Suc_conv_app_nth)
  qed
  obtain c where c: "map_of dir (?fs ! k) = Some c" using sql_files_facts(2) [OF assms(1), of "?fs ! k"] assms(3) by auto
  have done_step: "migrated run_sql dir d (Suc k) (db\<lparr>md_versions := Some (map version_of (take k ?fs) @ [version_of (?fs ! k)]), md_data := d'\<rparr>)"
    if "run_sql c (md_data db) = Some d'" for d'
    using assms(2,3) that c by (simp add: migrated_def take_Suc_conv_app_nth run_scripts_append script_def)
  show "migrated run_sql dir d k db' \<or> migrated run_sql dir d (Suc k) db'" "r = None \<Longrightarrow> migrated run_sql dir d (Suc k) db'"
    using assms(2,4) vs new c done_step
    by (auto simp: migrate_file_def Let_def split: if_splits option.splits commit_fate.splits)
qed

subsection \<open>Runs of the tool\<close>

text \<open>A pass over the files from the \<open>j\<close>th, of which \<open>k\<close> have been applied before: those are skipped.\<close>

lemma migrate_file_skips:
  assumes "migrated run_sql dir d k db" "j < k"
  shows "migrate_file e run_sql (map_of dir) (sql_files dir ! j) db =
    (if me_check_fails e (sql_files dir ! j) then Some ''failed to check migration status'' else None, db)"
proof -
  have "sql_files dir ! j \<in> set (take k (sql_files dir))"
    using assms by (auto simp: migrated_def in_set_conv_nth intro!: exI [of _ j])
  then show ?thesis using assms by (simp add: migrate_file_def migrated_def)
qed

definition quiet_env :: "migrate_env \<Rightarrow> bool" where
  "quiet_env e \<longleftrightarrow> \<not> me_connect_fails e \<and> me_table e = Committed \<and> (\<forall>f. \<not> me_check_fails e f \<and> \<not> me_begin_fails e f \<and>
     \<not> me_exec_fails e f \<and> \<not> me_record_fails e f \<and> me_commit e f = Committed)"

lemma migrate_file_quiet:
  assumes "distinct (map fst dir)" "migrated run_sql dir d k db" "k < length (sql_files dir)" "quiet_env e"
    and "run_sql (script dir (sql_files dir ! k)) (md_data db) \<noteq> None"
  shows "fst (migrate_file e run_sql (map_of dir) (sql_files dir ! k) db) = None"
proof -
  obtain c where "map_of dir (sql_files dir ! k) = Some c"
    using sql_files_facts(2) [OF assms(1), of "sql_files dir ! k"] assms(3) by auto
  then show ?thesis using assms(2-5) by (auto simp: migrate_file_def Let_def migrated_def quiet_env_def script_def)
qed

lemma run_scripts_prefix: "run_scripts run_sql (cs @ cs') d \<noteq> None \<Longrightarrow> run_scripts run_sql cs d \<noteq> None"
  by (induction cs arbitrary: d) (auto split: option.splits)

lemma next_script_runs:
  assumes "migrated run_sql dir d k db" "k < length (sql_files dir)" "run_scripts run_sql (map (script dir) (sql_files dir)) d \<noteq> None"
  shows "run_sql (script dir (sql_files dir ! k)) (md_data db) \<noteq> None"
proof -
  have "sql_files dir = take (Suc k) (sql_files dir) @ drop (Suc k) (sql_files dir)" by simp
  then have "run_scripts run_sql (map (script dir) (take (Suc k) (sql_files dir))) d \<noteq> None"
    using assms(3) run_scripts_prefix by (metis map_append)
  then show ?thesis using assms(1,2) by (auto simp: take_Suc_conv_app_nth run_scripts_append migrated_def)
qed

lemma migrate_files_from:
  assumes "distinct (map fst dir)" "migrated run_sql dir d k db" "j \<le> k"
    and "migrate_files e run_sql (map_of dir) (drop j (sql_files dir)) db = (r, db')"
  shows "\<exists>k' \<ge> k. migrated run_sql dir d k' db' \<and> (r = None \<longrightarrow> k' = length (sql_files dir)) \<and>
    (quiet_env e \<and> run_scripts run_sql (map (script dir) (sql_files dir)) d \<noteq> None \<longrightarrow> r = None)"
  using assms(2-4)
proof (induction "length (sql_files dir) - j" arbitrary: j k db)
  case 0
  then have "k = length (sql_files dir)" "r = None" "db' = db" by (simp_all add: migrated_def)
  then show ?case using 0 by auto
next
  case (Suc n)
  let ?fs = "sql_files dir"
  obtain r1 db1 where step: "migrate_file e run_sql (map_of dir) (?fs ! j) db = (r1, db1)" by fastforce
  have "drop j ?fs = ?fs ! j # drop (Suc j) ?fs" using Suc.hyps(2) by (simp add: Cons_nth_drop_Suc)
  then have rest: "(case r1 of None \<Rightarrow> migrate_files e run_sql (map_of dir) (drop (Suc j) ?fs) db1 | Some err \<Rightarrow> (Some err, db1)) = (r, db')"
    using Suc.prems(3) step by (auto split: option.splits)
  have n: "n = length ?fs - Suc j" using Suc.hyps(2) by simp
  show ?case
  proof (cases "j < k")
    case True
    then have "db1 = db" and r1: "r1 = None \<or> me_check_fails e (?fs ! j)"
      using migrate_file_skips [OF Suc.prems(1) True, of e] step by (auto split: if_splits)
    then show ?thesis
      using Suc.hyps(1) [OF n Suc.prems(1)] rest True Suc.prems(1)
      by (cases r1) (auto simp: quiet_env_def)
  next
    case False
    then have j: "j = k" "k < length ?fs" using Suc.prems(2) Suc.hyps(2) by simp_all
    note m = migrate_file_step [OF assms(1) Suc.prems(1) j(2) step [unfolded j(1)]]
    show ?thesis
    proof (cases r1)
      case None
      have "Suc j \<le> Suc k" "migrate_files e run_sql (map_of dir) (drop (Suc j) ?fs) db1 = (r, db')" using rest None j(1) by simp_all
      from Suc.hyps(1) [OF n m(2) [OF None] this] show ?thesis using Suc_leD by blast
    next
      case (Some err)
      then have "\<not> (quiet_env e \<and> run_scripts run_sql (map (script dir) ?fs) d \<noteq> None)"
        using migrate_file_quiet [OF assms(1) Suc.prems(1) j(2)] next_script_runs [OF Suc.prems(1) j(2)] step j(1) by fastforce
      moreover have "r = Some err" "db' = db1" using rest Some by simp_all
      ultimately show ?thesis using m(1) by (metis le_Suc_eq le_refl option.distinct(1))
    qed
  qed
qed

text \<open>One run: the environment, the value of \<^verbatim>\<open>-db\<close> and the direction.\<close>

type_synonym migrate_run = "migrate_env \<times> string \<times> string"

fun migrate_runs :: "(string \<Rightarrow> 'd \<Rightarrow> 'd option) \<Rightarrow> (string \<times> string) list \<Rightarrow> migrate_run list \<Rightarrow> 'd migrated_db \<Rightarrow> 'd migrated_db" where
  "migrate_runs run_sql dir [] db = db"
| "migrate_runs run_sql dir ((e, url, direction) # xs) db =
     migrate_runs run_sql dir xs (snd (migrate_main e run_sql dir url direction db))"

text \<open>The data \<open>d\<close> was there before the first run, and the table of versions was not.\<close>

definition under_migration :: "(string \<Rightarrow> 'd \<Rightarrow> 'd option) \<Rightarrow> (string \<times> string) list \<Rightarrow> 'd \<Rightarrow> nat \<Rightarrow> 'd migrated_db \<Rightarrow> bool" where
  "under_migration run_sql dir d k db \<longleftrightarrow>
     migrated run_sql dir d k db \<or> k = 0 \<and> db = \<lparr>md_versions = None, md_data = d\<rparr>"

lemma ensured:
  assumes "under_migration run_sql dir d k db" "ensureMigrationsTable e db = (r, db1)"
  shows "r = None \<Longrightarrow> migrated run_sql dir d k db1" "under_migration run_sql dir d k db1"
  using assms by (auto simp: under_migration_def ensureMigrationsTable_def migrated_def Let_def split: commit_fate.splits)

lemma migrate_main_step:
  assumes "distinct (map fst dir)" "under_migration run_sql dir d k db" "migrate_main e run_sql dir url direction db = (code, db')"
  shows "\<exists>k' \<ge> k. under_migration run_sql dir d k' db' \<and> (code = 0 \<and> direction = ''up'' \<longrightarrow> k' = length (sql_files dir)) \<and>
    (quiet_env e \<and> url \<noteq> [] \<and> run_scripts run_sql (map (script dir) (sql_files dir)) d \<noteq> None \<longrightarrow> code = 0)"
proof (cases "url = [] \<or> me_connect_fails e \<or> me_table e \<noteq> Committed")
  case True
  then show ?thesis
    using assms(2,3) ensured(2) [OF assms(2), of e "Some ''create''" db']
    by (cases "me_table e") (auto simp: migrate_main_def ensureMigrationsTable_def quiet_env_def Let_def split: if_splits)
next
  case False
  define db1 where "db1 = snd (ensureMigrationsTable e db)"
  have e: "ensureMigrationsTable e db = (None, db1)" using False by (simp add: db1_def ensureMigrationsTable_def)
  note m = ensured(1) [OF assms(2) e refl]
  obtain r db2 where up: "migrateUp e run_sql dir db1 = (r, db2)" by fastforce
  then have "migrate_files e run_sql (map_of dir) (drop 0 (sql_files dir)) db1 = (r, db2)" by (simp add: migrateUp_def)
  from migrate_files_from [OF assms(1) m _ this] show ?thesis
    using assms(3) False e up m by (auto simp: migrate_main_def under_migration_def split: if_splits option.splits)
qed

lemma migrate_main_migrates:
  assumes "distinct (map fst dir)" "under_migration run_sql dir d k db" "migrate_main e run_sql dir url ''up'' db = (0, db')"
  shows "migrated run_sql dir d (length (sql_files dir)) db'"
proof -
  have "md_versions db' \<noteq> None"
  proof -
    obtain db1 where db1: "ensureMigrationsTable e db = (None, db1)" "migrateUp e run_sql dir db1 = (None, db')"
      using assms(3) by (auto simp: migrate_main_def split: if_splits prod.splits option.splits)
    then have "migrate_files e run_sql (map_of dir) (drop 0 (sql_files dir)) db1 = (None, db')" by (simp add: migrateUp_def)
    from migrate_files_from [OF assms(1) ensured(1) [OF assms(2) db1(1) refl] _ this] show ?thesis by (auto simp: migrated_def)
  qed
  then show ?thesis using migrate_main_step [OF assms] by (auto simp: under_migration_def)
qed

lemma migrate_runs_step:
  assumes "distinct (map fst dir)" "under_migration run_sql dir d k db"
  shows "\<exists>k' \<ge> k. under_migration run_sql dir d k' (migrate_runs run_sql dir xs db)"
  using assms(2)
proof (induction xs arbitrary: k db)
  case (Cons x xs)
  obtain e url direction where x: "x = (e, url, direction)" by (cases x)
  obtain k1 where "k1 \<ge> k" "under_migration run_sql dir d k1 (snd (migrate_main e run_sql dir url direction db))"
    using migrate_main_step [OF assms(1) Cons.prems, of e url direction] by (metis prod.collapse)
  from Cons.IH [OF this(2)] show ?case using \<open>k1 \<ge> k\<close> by (auto simp: x intro: order_trans)
qed auto

text \<open>C35: Migrations are applied once, in order, and completely in the end. After any number of runs on a database without
  the table of versions, whichever calls of the driver failed, and also when the reply to a commit was lost, the
  data are those to which the scripts of the first \<open>k\<close> files in the order of their names have been applied, each once, and
  exactly these are recorded. If the next run upwards ends with status 0, all files have been applied;
  and it does so when nothing fails in it and no script fails in its turn.\<close>

theorem migrations_applied_once:
  assumes "distinct (map fst dir)"
    and "migrate_main e run_sql dir url ''up'' (migrate_runs run_sql dir xs \<lparr>md_versions = None, md_data = d\<rparr>) = (code, db)"
  shows "\<exists>k. (migrated run_sql dir d k db \<or> db = \<lparr>md_versions = None, md_data = d\<rparr>) \<and>
    (code = 0 \<longrightarrow> migrated run_sql dir d (length (sql_files dir)) db) \<and>
    (quiet_env e \<and> url \<noteq> [] \<and> run_scripts run_sql (map (script dir) (sql_files dir)) d \<noteq> None \<longrightarrow> code = 0)"
proof -
  have "under_migration run_sql dir d 0 \<lparr>md_versions = None, md_data = d\<rparr>" by (simp add: under_migration_def)
  then obtain k where k: "under_migration run_sql dir d k (migrate_runs run_sql dir xs \<lparr>md_versions = None, md_data = d\<rparr>)"
    using migrate_runs_step [OF assms(1)] by metis
  have "migrated run_sql dir d (length (sql_files dir)) db" if "code = 0"
    using assms(2) that migrate_main_migrates [OF assms(1) k] by auto
  then show ?thesis
    using migrate_main_step [OF assms(1) k assms(2)] by (auto simp: under_migration_def)
qed

text \<open>Two scripts; the reply to the first commit is lost in the first run, and the second run completes.\<close>

definition append_script :: "string \<Rightarrow> string list \<Rightarrow> string list option" where
  "append_script c d = Some (d @ [c])"

definition sample_migrate_env :: "commit_fate \<Rightarrow> migrate_env" where
  "sample_migrate_env c = \<lparr>me_connect_fails = False, me_table = Committed, me_check_fails = (\<lambda>_. False), me_begin_fails = (\<lambda>_. False),
     me_exec_fails = (\<lambda>_. False), me_record_fails = (\<lambda>_. False), me_commit = (\<lambda>_. c)\<rparr>"

lemma run_append_scripts: "run_scripts append_script cs d = Some (d @ cs)"
  by (induction cs arbitrary: d) (simp_all add: append_script_def)

definition sample_scripts :: "(string \<times> string) list" where
  "sample_scripts = [(''002_bans.sql'', ''B''), (''001_initial_schema.sql'', ''A''), (''migrate.go'', [])]"

theorem migrations_applied_once_witness:
  "\<exists>db. migrate_main (sample_migrate_env Committed) append_script sample_scripts ''postgres://db'' ''up''
      (migrate_runs append_script sample_scripts [(sample_migrate_env CommitReplyLost, ''postgres://db'', ''up'')]
        \<lparr>md_versions = None, md_data = []\<rparr>) = (0, db) \<and>
    migrated append_script sample_scripts [] 2 db"
proof -
  obtain code db where run: "migrate_main (sample_migrate_env Committed) append_script sample_scripts ''postgres://db'' ''up''
      (migrate_runs append_script sample_scripts [(sample_migrate_env CommitReplyLost, ''postgres://db'', ''up'')]
        \<lparr>md_versions = None, md_data = []\<rparr>) = (code, db)" by fastforce
  have "distinct (map fst sample_scripts)" "length (sql_files sample_scripts) = 2"
    by (simp_all add: sample_scripts_def sql_files_def has_suffix_def)
  moreover have "quiet_env (sample_migrate_env Committed)" by (simp add: quiet_env_def sample_migrate_env_def)
  ultimately show ?thesis
    using migrations_applied_once [OF _ run] run by (auto simp: run_append_scripts)
qed

end
