(* ===== verification/Lifecycle.thy ===== *)
theory Lifecycle
  imports DeletionQueue RateLimit
begin

text \<open>
  \<^verbatim>\<open>Shutdown\<close> in \<^verbatim>\<open>src/server.go\<close> against everything that runs beside it: requests, the workers of the deletion queue and the
  clean-up goroutine of the limiter. Each statement of \<^verbatim>\<open>Shutdown\<close> that can wait is one operation, enabled when the wait is
  over; a run interleaves these operations with the rest. The operations of a storage that has been closed
  are those of an environment in which the calls fail.
\<close>

subsection \<open>The server\<close>

text \<open>\<^verbatim>\<open>httpServer\<close> is nil until \<^verbatim>\<open>Start\<close> has set it; a server that is shutting down has closed its listener and waits for
  its connections, on which requests may still arrive.\<close>

datatype http_server = NotStarted | Listening | Draining | HttpClosed

text \<open>Where \<^verbatim>\<open>Shutdown\<close> stands, and what it has returned.\<close>

datatype shutdown_pc =
    NotCalled | WaitHttp | CloseQueue | WaitQueue | StopLimiter | WaitLimiter | CloseStorage | Returned "string option"

record 'db server_state =
  sv_http :: http_server
  sv_requests :: nat
  sv_queue :: "'db dqueue"
  sv_limiter :: "stop_state option" \<comment> \<open>\<^const>\<open>None\<close> for the shared limiters, whose \<^verbatim>\<open>Stop\<close> only closes a client\<close>
  sv_storage_open :: bool
  sv_pc :: shutdown_pc

definition new_server :: "'db \<Rightarrow> int \<Rightarrow> bool \<Rightarrow> 'db server_state" where
  "new_server db workers in_memory =
     \<lparr>sv_http = NotStarted, sv_requests = 0, sv_queue = NewDeletionQueue db workers,
      sv_limiter = (if in_memory then Some new_stop_state else None), sv_storage_open = True, sv_pc = NotCalled\<rparr>"

definition server_listens :: "'db server_state \<Rightarrow> 'db server_state option" where
  "server_listens s = (if sv_http s = NotStarted then Some (s\<lparr>sv_http := Listening\<rparr>) else None)"

definition request_begins :: "'db server_state \<Rightarrow> 'db server_state option" where
  "request_begins s =
     (if sv_http s = Listening \<or> sv_http s = Draining then Some (s\<lparr>sv_requests := sv_requests s + 1\<rparr>) else None)"

definition request_ends :: "'db server_state \<Rightarrow> 'db server_state option" where
  "request_ends s = (if 0 < sv_requests s then Some (s\<lparr>sv_requests := sv_requests s - 1\<rparr>) else None)"

subsection \<open>The statements of Shutdown\<close>

definition shutdown_begin :: "'db server_state \<Rightarrow> 'db server_state option" where
  "shutdown_begin s =
     (if sv_pc s = NotCalled
      then Some (if sv_http s = NotStarted then s\<lparr>sv_pc := CloseQueue\<rparr>
                 else s\<lparr>sv_http := Draining, sv_pc := WaitHttp\<rparr>)
      else None)"

text \<open>\<^verbatim>\<open>httpServer.Shutdown\<close> returns nil when no request is left, or the error of the context at its deadline.\<close>

definition http_return :: "bool \<Rightarrow> 'db server_state \<Rightarrow> (string option \<times> 'db server_state) option" where
  "http_return timed_out s =
     (if sv_pc s \<noteq> WaitHttp then None
      else if timed_out then Some (Some ''context deadline exceeded'', s\<lparr>sv_pc := Returned (Some ''context deadline exceeded'')\<rparr>)
      else if sv_requests s = 0 then Some (None, s\<lparr>sv_http := HttpClosed, sv_pc := CloseQueue\<rparr>)
      else None)"

definition queue_close :: "'db server_state \<Rightarrow> 'db server_state option" where
  "queue_close s =
     (if sv_pc s = CloseQueue
      then map_option (\<lambda>q. s\<lparr>sv_queue := q, sv_pc := WaitQueue\<rparr>) (shutdown_close (sv_queue s)) else None)"

text \<open>An error of the queue is logged only.\<close>

definition queue_return :: "bool \<Rightarrow> 'db server_state \<Rightarrow> (string option \<times> 'db server_state) option" where
  "queue_return timed_out s =
     (if sv_pc s = WaitQueue
      then map_option (\<lambda>(r, q). (r, s\<lparr>sv_queue := q, sv_pc := StopLimiter\<rparr>)) (shutdown_return timed_out (sv_queue s)) else None)"

definition limiter_stop :: "'db server_state \<Rightarrow> 'db server_state option" where
  "limiter_stop s =
     (if sv_pc s \<noteq> StopLimiter then None
      else (case sv_limiter s of
              None \<Rightarrow> Some (s\<lparr>sv_pc := CloseStorage\<rparr>)
            | Some st \<Rightarrow> Some (s\<lparr>sv_limiter := Some (stop_begin st),
                                sv_pc := (if stop_buffer st < 1 then WaitLimiter else CloseStorage)\<rparr>)))"

definition limiter_stopped :: "'db server_state \<Rightarrow> 'db server_state option" where
  "limiter_stopped s =
     (if sv_pc s \<noteq> WaitLimiter then None
      else (case sv_limiter s of None \<Rightarrow> None
            | Some st \<Rightarrow> map_option (\<lambda>st. s\<lparr>sv_limiter := Some st, sv_pc := CloseStorage\<rparr>) (stop_finish st)))"

definition storage_close :: "string option \<Rightarrow> 'db server_state \<Rightarrow> 'db server_state option" where
  "storage_close err s =
     (if sv_pc s = CloseStorage then Some (s\<lparr>sv_storage_open := False, sv_pc := Returned err\<rparr>) else None)"

text \<open>The goroutine that cleans up takes the request to stop.\<close>

definition cleanup_ends :: "'db server_state \<Rightarrow> 'db server_state option" where
  "cleanup_ends s =
     (case sv_limiter s of None \<Rightarrow> None
      | Some st \<Rightarrow> map_option (\<lambda>st. s\<lparr>sv_limiter := Some st\<rparr>) (routine_stop st))"

lemmas lc_operations = server_listens_def request_begins_def request_ends_def shutdown_begin_def http_return_def
  queue_close_def queue_return_def limiter_stop_def limiter_stopped_def storage_close_def cleanup_ends_def

subsection \<open>Runs\<close>

datatype 'e lc_label =
    LcListen | LcRequest | LcAnswer
  | LcHandler "'e dq_label"
  | LcWorker "'e dq_label"
  | LcShutdown | LcHttp "string option" | LcCloseQueue | LcQueue "string option"
  | LcStop | LcStopped | LcCleanup | LcStorage "string option"

fun handler_label :: "'e dq_label \<Rightarrow> bool" where
  "handler_label (LQueue x r) = True"
| "handler_label (LOther e x) = True"
| "handler_label l = False"

inductive lc_step :: "('e \<Rightarrow> 'db backend) \<Rightarrow> 'db server_state \<Rightarrow> 'e lc_label \<Rightarrow> 'db server_state \<Rightarrow> bool"
  for K where
  listens: "server_listens s = Some s' \<Longrightarrow> lc_step K s LcListen s'"
| begins: "request_begins s = Some s' \<Longrightarrow> lc_step K s LcRequest s'"
| ends: "request_ends s = Some s' \<Longrightarrow> lc_step K s LcAnswer s'"
| handles: "0 < sv_requests s \<Longrightarrow> handler_label l \<Longrightarrow> dq_step K (sv_queue s) l q \<Longrightarrow>
    lc_step K s (LcHandler l) (s\<lparr>sv_queue := q\<rparr>)"
| works: "worker_label l \<Longrightarrow> dq_step K (sv_queue s) l q \<Longrightarrow> lc_step K s (LcWorker l) (s\<lparr>sv_queue := q\<rparr>)"
| called: "shutdown_begin s = Some s' \<Longrightarrow> lc_step K s LcShutdown s'"
| http: "http_return b s = Some (r, s') \<Longrightarrow> lc_step K s (LcHttp r) s'"
| closes: "queue_close s = Some s' \<Longrightarrow> lc_step K s LcCloseQueue s'"
| drained: "queue_return b s = Some (r, s') \<Longrightarrow> lc_step K s (LcQueue r) s'"
| stops: "limiter_stop s = Some s' \<Longrightarrow> lc_step K s LcStop s'"
| stopped: "limiter_stopped s = Some s' \<Longrightarrow> lc_step K s LcStopped s'"
| cleans: "cleanup_ends s = Some s' \<Longrightarrow> lc_step K s LcCleanup s'"
| storage: "storage_close err s = Some s' \<Longrightarrow> lc_step K s (LcStorage err) s'"

inductive lc_run :: "('e \<Rightarrow> 'db backend) \<Rightarrow> 'db server_state \<Rightarrow> 'e lc_label list \<Rightarrow> 'db server_state \<Rightarrow> bool"
  for K s where
  start: "lc_run K s [] s"
| step: "lc_run K s ls s' \<Longrightarrow> lc_step K s' l s'' \<Longrightarrow> lc_run K s (ls @ [l]) s''"

inductive_cases lc_stepE: "lc_step K s l s'"

inductive_simps dq_step_simps:
  "dq_step K q (LQueue x r) q'" "dq_step K q (LReceive w x) q'" "dq_step K q (LDelete w x r) q'" "dq_step K q (LExit w) q'"

inductive_simps lc_step_simps:
  "lc_step K s LcRequest s'" "lc_step K s LcAnswer s'" "lc_step K s (LcHandler d) s'" "lc_step K s (LcWorker d) s'"
  "lc_step K s LcShutdown s'" "lc_step K s LcCloseQueue s'" "lc_step K s LcStop s'" "lc_step K s LcStopped s'"
  "lc_step K s LcCleanup s'" "lc_step K s (LcStorage r) s'"

inductive_simps lc_wait_simps: "lc_step K s (LcHttp r) s'" "lc_step K s (LcQueue r) s'"

lemma lc_in_time:
  "lc_step K s (LcHttp None) s' \<longleftrightarrow> http_return False s = Some (None, s')"
  "lc_step K s (LcQueue None) s' \<longleftrightarrow> queue_return False s = Some (None, s')"
  by (auto simp: lc_wait_simps http_return_def queue_return_def shutdown_return_def split: if_splits)

inductive_cases lc_run_NilE: "lc_run K s [] s'"

text \<open>A run from its first step, for the simplifier.\<close>

lemma lc_run_first: "lc_run K s xs s'' \<Longrightarrow> xs = l # ls \<Longrightarrow> \<exists>s'. lc_step K s l s' \<and> lc_run K s' ls s''"
proof (induction arbitrary: ls rule: lc_run.induct)
  case (step xs s1 l1 s2)
  show ?case
  proof (cases xs)
    case Nil
    then show ?thesis using step.hyps step.prems by (auto elim!: lc_run_NilE intro: lc_run.start)
  next
    case (Cons a as)
    then have as: "xs = l # as" "ls = as @ [l1]" using step.prems by simp_all
    then obtain s' where "lc_step K s l s'" "lc_run K s' as s1" using step.IH [of as] by blast
    then show ?thesis using lc_run.step [OF _ step.hyps(2)] as(2) by blast
  qed
qed simp

lemma lc_run_Cons_back: "lc_run K s' ls s'' \<Longrightarrow> lc_step K s l s' \<Longrightarrow> lc_run K s (l # ls) s''"
proof (induction rule: lc_run.induct)
  case start
  from lc_run.step [OF lc_run.start start] show ?case by simp
next
  case (step ls s1 l1 s2)
  from lc_run.step [OF step.IH [OF step.prems] step.hyps(2)] show ?case by simp
qed

lemma lc_run_simps:
  "lc_run K s [] s' \<longleftrightarrow> s' = s"
  "lc_run K s (l # ls) s'' \<longleftrightarrow> (\<exists>s'. lc_step K s l s' \<and> lc_run K s' ls s'')"
  by (auto elim: lc_run_NilE intro: lc_run.start lc_run_Cons_back dest: lc_run_first)

text \<open>What a run does to the queue is a run of the queue.\<close>

fun queue_labels :: "'e lc_label \<Rightarrow> 'e dq_label list" where
  "queue_labels (LcHandler l) = [l]"
| "queue_labels (LcWorker l) = [l]"
| "queue_labels LcCloseQueue = [LShutdown]"
| "queue_labels (LcQueue r) = [LReturn r]"
| "queue_labels l = []"

subsection \<open>The invariant of a shutdown\<close>

definition limiter_at :: "(stop_state \<Rightarrow> bool) \<Rightarrow> 'db server_state \<Rightarrow> bool" where
  "limiter_at P s \<longleftrightarrow> (case sv_limiter s of None \<Rightarrow> True | Some st \<Rightarrow> P st)"

definition stop_pending :: "stop_state \<Rightarrow> bool" where
  "stop_pending st \<longleftrightarrow> stoppers st = 1 \<and>
     (if routine_running st then stop_buffer st = 1 \<and> done_buffer st = 0 else done_buffer st = 1)"

text \<open>Still serving: nothing is closed. Served: no request is left and none will come.\<close>

definition serving :: "'db server_state \<Rightarrow> bool" where
  "serving s \<longleftrightarrow> \<not> q_closed (sv_queue s) \<and> sv_storage_open s \<and> limiter_at (\<lambda>st. st = new_stop_state) s"

definition served_all :: "'db server_state \<Rightarrow> bool" where
  "served_all s \<longleftrightarrow> sv_http s = HttpClosed \<and> sv_requests s = 0"

fun pc_inv :: "shutdown_pc \<Rightarrow> 'db server_state \<Rightarrow> bool" where
  "pc_inv NotCalled s = (sv_http s = Listening \<and> serving s)"
| "pc_inv WaitHttp s = (sv_http s = Draining \<and> serving s)"
| "pc_inv CloseQueue s = (served_all s \<and> serving s)"
| "pc_inv WaitQueue s = (served_all s \<and> q_closed (sv_queue s) \<and> sv_storage_open s \<and> limiter_at (\<lambda>st. st = new_stop_state) s)"
| "pc_inv StopLimiter s = (served_all s \<and> q_closed (sv_queue s) \<and> sv_storage_open s \<and> limiter_at (\<lambda>st. st = new_stop_state) s)"
| "pc_inv WaitLimiter s = (served_all s \<and> q_closed (sv_queue s) \<and> sv_storage_open s \<and> sv_limiter s \<noteq> None \<and> limiter_at stop_pending s)"
| "pc_inv CloseStorage s = (served_all s \<and> q_closed (sv_queue s) \<and> sv_storage_open s \<and> limiter_at (\<lambda>st. \<not> routine_running st) s)"
| "pc_inv (Returned r) s =
     ((sv_http s = Draining \<and> r \<noteq> None \<and> serving s) \<or>
      (served_all s \<and> q_closed (sv_queue s) \<and> \<not> sv_storage_open s \<and> limiter_at (\<lambda>st. \<not> routine_running st) s))"

definition lc_inv :: "'db server_state \<Rightarrow> bool" where
  "lc_inv s \<longleftrightarrow> dq_ok (sv_queue s) \<and> pc_inv (sv_pc s) s"

lemmas pc_facts = serving_def served_all_def limiter_at_def

lemma closed_unless_shutdown: "dq_step K q l q' \<Longrightarrow> l \<noteq> LShutdown \<Longrightarrow> q_closed q' = q_closed q"
  by (auto elim!: dq_stepE QueueDeletion_cases worker_receive_cases worker_delete_cases worker_exit_cases shutdown_return_cases)

lemma pc_inv_queue:
  "q_closed q = q_closed (sv_queue s) \<Longrightarrow> pc_inv pc (s\<lparr>sv_queue := q\<rparr>) = pc_inv pc s"
  by (cases pc) (simp_all add: pc_facts)

lemma lc_inv_queue_step:
  assumes "lc_inv s" "dq_step K (sv_queue s) l q" "l \<noteq> LShutdown"
  shows "lc_inv (s\<lparr>sv_queue := q\<rparr>)"
  using assms dq_ok_step [OF _ assms(2)] closed_unless_shutdown [OF assms(2,3)]
  by (simp add: lc_inv_def pc_inv_queue)

lemma lc_inv_step:
  assumes "lc_step K s l s'" "lc_inv s"
  shows "lc_inv s'"
  using assms
proof (induction rule: lc_step.induct)
  case (handles s l q)
  moreover have "l \<noteq> LShutdown" using handles(2) by auto
  ultimately show ?case by (blast intro: lc_inv_queue_step)
next
  case (works l s q)
  moreover have "l \<noteq> LShutdown" using works(1) by auto
  ultimately show ?case by (blast intro: lc_inv_queue_step)
next
  case (closes s s')
  then obtain q where q: "sv_pc s = CloseQueue" "shutdown_close (sv_queue s) = Some q" "s' = s\<lparr>sv_queue := q, sv_pc := WaitQueue\<rparr>"
    by (auto simp: queue_close_def split: if_splits)
  have "dq_step K (sv_queue s) LShutdown q" using q(2) by (rule dq_step.shutdown)
  moreover have "q_closed q" using q(2) by (auto elim!: shutdown_close_cases)
  ultimately show ?case using q closes(2) dq_ok_step by (fastforce simp: lc_inv_def pc_facts)
next
  case (drained b s r s')
  then obtain q where q: "sv_pc s = WaitQueue" "shutdown_return b (sv_queue s) = Some (r, q)"
      "s' = s\<lparr>sv_queue := q, sv_pc := StopLimiter\<rparr>"
    by (auto simp: queue_return_def split: if_splits)
  have c: "q_closed (sv_queue s)" using drained(2) q(1) by (simp add: lc_inv_def)
  from q(2) have "q_closed q = q_closed (sv_queue s)" by (auto elim!: shutdown_return_cases)
  moreover have "dq_step K (sv_queue s) (LReturn r) q" using c q(2) by (rule dq_step.return)
  ultimately show ?case using q drained(2) dq_ok_step by (fastforce simp: lc_inv_def pc_facts)
next
  case (stops s s')
  then show ?case
    by (auto simp: lc_inv_def limiter_stop_def pc_facts new_stop_state_def stop_begin_def stop_pending_def split: if_splits option.splits)
next
  case (stopped s s')
  then show ?case
    by (auto simp: lc_inv_def limiter_stopped_def pc_facts stop_finish_def stop_pending_def split: if_splits option.splits)
next
  case (cleans s s')
  then show ?case
    by (cases "sv_pc s") (auto simp: lc_inv_def cleanup_ends_def pc_facts routine_stop_def stop_pending_def new_stop_state_def
        split: if_splits option.splits)
next
  case (begins s s')
  then show ?case by (cases "sv_pc s") (auto simp: lc_inv_def request_begins_def pc_facts split: if_splits)
next
  case (ends s s')
  then show ?case by (cases "sv_pc s") (auto simp: lc_inv_def request_ends_def pc_facts split: if_splits)
next
  case (listens s s')
  then show ?case by (cases "sv_pc s") (auto simp: lc_inv_def server_listens_def pc_facts split: if_splits)
next
  case (called s s')
  then show ?case by (auto simp: lc_inv_def shutdown_begin_def pc_facts split: if_splits)
next
  case (http b s r s')
  then show ?case by (auto simp: lc_inv_def http_return_def pc_facts split: if_splits)
next
  case (storage err s s')
  then show ?case by (auto simp: lc_inv_def storage_close_def pc_facts split: if_splits)
qed

lemma lc_inv_run: "lc_run K s ls s' \<Longrightarrow> lc_inv s \<Longrightarrow> lc_inv s'"
  by (induction rule: lc_run.induct) (auto dest: lc_inv_step)

lemma lc_queue_step:
  assumes "lc_step K s l s'" "lc_inv s"
  shows "dq_run K (sv_queue s) (queue_labels l) (sv_queue s')"
proof -
  have one: "dq_run K q [d] q'" if "dq_step K q d q'" for q d q'
    using dq_run.step [OF dq_run.start that] by simp
  from assms show ?thesis
  proof (induction rule: lc_step.induct)
    case (closes s s')
    then show ?case by (auto simp: queue_close_def split: if_splits intro!: one dq_step.shutdown)
  next
    case (drained b s r s')
    then show ?case by (auto simp: queue_return_def lc_inv_def split: if_splits intro!: one dq_step.return)
  qed (auto simp: lc_operations split: if_splits option.splits intro: one dq_run.start)
qed

lemma lc_queue_run:
  "lc_run K s ls s' \<Longrightarrow> lc_inv s \<Longrightarrow> dq_run K (sv_queue s) (concat (map queue_labels ls)) (sv_queue s')"
proof (induction rule: lc_run.induct)
  case (step ls s' l s'')
  from dq_run_append [OF lc_queue_step [OF step.hyps(2) lc_inv_run [OF step.hyps(1) step.prems]] step.IH [OF step.prems]]
  show ?case by simp
qed (simp add: dq_run.start)

subsection \<open>The order of a shutdown\<close>

text \<open>A server that listens before \<^verbatim>\<open>Shutdown\<close> is called.\<close>

lemma listening_inv: "server_listens (new_server db n m) = Some s0 \<Longrightarrow> lc_inv s0"
  using dq_ok_new [of db n] by (auto simp: server_listens_def new_server_def lc_inv_def pc_facts NewDeletionQueue_def Let_def)

lemma listening_queue: "server_listens (new_server db n m) = Some s0 \<Longrightarrow> sv_queue s0 = NewDeletionQueue db n"
  by (auto simp: server_listens_def new_server_def)

text \<open>While a request runs the queue is open.\<close>

lemma requests_find_queue_open: "lc_inv s \<Longrightarrow> 0 < sv_requests s \<Longrightarrow> \<not> q_closed (sv_queue s)"
  by (cases "sv_pc s") (auto simp: lc_inv_def pc_facts)

lemma handler_not_refused:
  assumes "lc_step K s (LcHandler (LQueue x r)) s'" "lc_inv s"
  shows "r \<noteq> Some ''deletion queue shutting down''"
  using assms requests_find_queue_open [OF assms(2)]
  by (auto elim!: lc_stepE dq_stepE simp: QueueDeletion_def chan_try_send_def split: if_splits)

lemma handlers_not_refused:
  "lc_run K s ls s' \<Longrightarrow> lc_inv s \<Longrightarrow> LcHandler (LQueue x r) \<in> set ls \<Longrightarrow> r \<noteq> Some ''deletion queue shutting down''"
proof (induction rule: lc_run.induct)
  case (step ls s' l s'')
  then show ?case using handler_not_refused [of K s' x r s''] lc_inv_run [OF step.hyps(1)] by auto
qed simp

lemma queue_labels_return: "LcQueue r \<in> set ls \<Longrightarrow> LReturn r \<in> set (concat (map queue_labels ls))"
  by force

text \<open>A paste queued by a request that is answered after \<^verbatim>\<open>Shutdown\<close> was called; one worker, the limiter in memory.\<close>

definition calm_backend :: "unit \<Rightarrow> sqldb backend" where
  "calm_backend u = sqlite_backend \<lparr>now = 0, db_now = 0, fails = (\<lambda>q. False)\<rparr>"

definition sample_serving :: "'e lc_label list" where
  "sample_serving = [LcRequest, LcHandler (LQueue ''a'' None), LcShutdown]"

definition sample_closing :: "'e lc_label list" where
  "sample_closing = [LcAnswer, LcHttp None, LcCloseQueue, LcWorker (LReceive 0 ''a''), LcWorker (LDelete 0 ''a'' (Inr ())),
     LcWorker (LExit 0), LcQueue None, LcStop, LcCleanup, LcStopped, LcStorage None]"

definition listening_server :: "sqldb server_state" where
  "listening_server = (new_server empty_db 1 True)\<lparr>sv_http := Listening\<rparr>"

lemma sample_runs:
  "\<exists>s. lc_run calm_backend listening_server sample_serving s \<and> sv_pc s = WaitHttp \<and>
     (\<exists>s'. lc_run calm_backend s sample_closing s' \<and> sv_pc s' = Returned None)"
proof -
  note states = listening_server_def new_server_def NewDeletionQueue_def queue_buffer_def new_stop_state_def
  note queue = QueueDeletion_def chan_try_send_def shutdown_close_def chan_close_def worker_receive_def worker_at_def
    worker_delete_def worker_exit_def set_worker_def shutdown_return_def all_stopped_def
  note store = calm_backend_def sqlite_DeletePaste_def delete_paste_def empty_db_def
  note stops = stop_begin_def routine_stop_def stop_finish_def
  show ?thesis
    unfolding sample_serving_def sample_closing_def lc_run_simps
    by (simp add: states queue store stops lc_operations lc_step_simps lc_in_time dq_step_simps)
qed

lemma sample_listens: "server_listens (new_server empty_db 1 True) = Some listening_server"
  by (simp add: server_listens_def new_server_def listening_server_def)

lemma lc_run_append: "lc_run K s' ls' s'' \<Longrightarrow> lc_run K s ls s' \<Longrightarrow> lc_run K s (ls @ ls') s''"
proof (induction rule: lc_run.induct)
  case (step ls1 s1 l s2)
  from lc_run.step [OF step.IH [OF step.prems] step.hyps(2)] show ?case by simp
qed simp

text \<open>C36: The order of a shutdown. In any run of a server that was listening, with requests, workers and the limiter's
  goroutine in any order beside \<^verbatim>\<open>Shutdown\<close>: no request finds the deletion queue closed; the storage is closed only when no
  request is left, the queue is closed, the limiter's goroutine has ended and, unless the queue timed out,
  every worker has returned, so that each accepted deletion has been carried out. When \<^verbatim>\<open>Shutdown\<close> has returned and
  the storage is open, it has returned the error of the HTTP server and nothing else has been closed.\<close>

theorem shutdown_sequence:
  assumes "server_listens (new_server db n m) = Some s0" "lc_run K s0 ls s"
  shows "(\<forall>x r. LcHandler (LQueue x r) \<in> set ls \<longrightarrow> r \<noteq> Some ''deletion queue shutting down'') \<and>
    (\<not> sv_storage_open s \<longrightarrow> served_all s \<and> q_closed (sv_queue s) \<and> limiter_at (\<lambda>st. \<not> routine_running st) s) \<and>
    (LcQueue None \<in> set ls \<longrightarrow> all_stopped (sv_queue s) \<and>
       accepted (concat (map queue_labels ls)) = deleted (concat (map queue_labels ls))) \<and>
    (\<forall>r. sv_pc s = Returned r \<and> sv_storage_open s \<longrightarrow> r \<noteq> None \<and> serving s)"
proof (intro conjI allI impI)
  note inv0 = listening_inv [OF assms(1)]
  note run = lc_queue_run [OF assms(2) inv0, unfolded listening_queue [OF assms(1)]]
  have inv: "lc_inv s" using assms(2) inv0 by (rule lc_inv_run)
  show "r \<noteq> Some ''deletion queue shutting down''" if "LcHandler (LQueue x r) \<in> set ls" for x r
    using assms(2) inv0 that by (rule handlers_not_refused)
  show "served_all s" "q_closed (sv_queue s)" "limiter_at (\<lambda>st. \<not> routine_running st) s" if "\<not> sv_storage_open s"
    using inv that by (cases "sv_pc s"; auto simp: lc_inv_def serving_def)+
  show "all_stopped (sv_queue s)" if "LcQueue None \<in> set ls"
    using returned_all_stopped [OF run queue_labels_return [OF that]] .
  show "accepted (concat (map queue_labels ls)) = deleted (concat (map queue_labels ls))" if "LcQueue None \<in> set ls"
    using graceful_shutdown_lemma [OF run queue_labels_return [OF that]] .
  show "r \<noteq> None" "serving s" if "sv_pc s = Returned r \<and> sv_storage_open s" for r
    using inv that by (auto simp: lc_inv_def)
qed

theorem shutdown_sequence_witness:
  "\<exists>s. lc_run calm_backend listening_server (sample_serving @ sample_closing) s \<and> sv_pc s = Returned None \<and>
     all_stopped (sv_queue s) \<and> \<not> sv_storage_open s"
proof -
  obtain s where s: "lc_run calm_backend listening_server (sample_serving @ sample_closing) s" "sv_pc s = Returned None"
    using sample_runs lc_run_append by blast
  show ?thesis using shutdown_sequence [OF sample_listens s(1)] s by (auto simp: sample_closing_def)
qed

subsection \<open>A shutdown comes to an end\<close>

text \<open>The steps that go on after \<^verbatim>\<open>Shutdown\<close> has been called when no deadline fires and no request begins.\<close>

fun winding_down :: "'e lc_label \<Rightarrow> bool" where
  "winding_down LcAnswer = True"
| "winding_down (LcWorker l) = True"
| "winding_down (LcHttp r) = (r = None)"
| "winding_down LcCloseQueue = True"
| "winding_down (LcQueue r) = (r = None)"
| "winding_down LcStop = True"
| "winding_down LcStopped = True"
| "winding_down LcCleanup = True"
| "winding_down (LcStorage r) = (r = None)"
| "winding_down _ = False"

fun pc_rank :: "shutdown_pc \<Rightarrow> nat" where
  "pc_rank NotCalled = 7"
| "pc_rank WaitHttp = 6"
| "pc_rank CloseQueue = 5"
| "pc_rank WaitQueue = 4"
| "pc_rank StopLimiter = 3"
| "pc_rank WaitLimiter = 2"
| "pc_rank CloseStorage = 1"
| "pc_rank (Returned r) = 0"

definition steps_left :: "'db server_state \<Rightarrow> nat" where
  "steps_left s = pc_rank (sv_pc s) + sv_requests s + work_left (sv_queue s) +
     (case sv_limiter s of None \<Rightarrow> 0 | Some st \<Rightarrow> if routine_running st then 1 else 0)"

lemma winding_down_step:
  assumes "lc_step K s l s'" "winding_down l"
  shows "steps_left s' < steps_left s"
  using assms
proof (induction rule: lc_step.induct)
  case (works l s q)
  have "work_left q < work_left (sv_queue s)" using work_step [OF works(2)] works(1) by simp
  then show ?case by (simp add: steps_left_def)
next
  case (closes s s')
  then show ?case by (auto simp: steps_left_def queue_close_def work_left_def split: if_splits elim!: shutdown_close_cases)
next
  case (drained b s r s')
  then show ?case by (auto simp: steps_left_def queue_return_def work_left_def split: if_splits elim!: shutdown_return_cases)
qed (auto simp: steps_left_def lc_operations routine_stop_def stop_begin_def stop_finish_def split: if_splits option.splits)

lemma winding_down_run:
  "lc_run K s ls s' \<Longrightarrow> list_all winding_down ls \<Longrightarrow> length ls + steps_left s' \<le> steps_left s"
proof (induction rule: lc_run.induct)
  case (step ls s' l s'')
  then show ?case using winding_down_step [OF step.hyps(2)] by fastforce
qed simp

lemma called_stays: "lc_step K s l s' \<Longrightarrow> sv_pc s \<noteq> NotCalled \<Longrightarrow> sv_pc s' \<noteq> NotCalled"
  by (induction rule: lc_step.induct) (auto simp: lc_operations split: if_splits option.splits)

lemma called_stays_run: "lc_run K s ls s' \<Longrightarrow> sv_pc s \<noteq> NotCalled \<Longrightarrow> sv_pc s' \<noteq> NotCalled"
  by (induction rule: lc_run.induct) (auto dest: called_stays)

lemma shutdown_progress:
  fixes K :: "'e \<Rightarrow> 'db backend"
  assumes "lc_inv s" "sv_pc s \<noteq> NotCalled" "\<nexists>r. sv_pc s = Returned r"
  shows "\<exists>l s'. winding_down l \<and> lc_step K s l s'"
proof (cases "sv_pc s")
  case WaitHttp
  show ?thesis
  proof (cases "sv_requests s = 0")
    case True
    then have "\<exists>s'. http_return False s = Some (None, s')" using WaitHttp by (simp add: http_return_def)
    then show ?thesis using lc_step.http [of False s None _ K] by (metis winding_down.simps(3))
  next
    case False
    then have "request_ends s \<noteq> None" by (simp add: request_ends_def)
    then show ?thesis using lc_step.ends [of s _ K] by (metis not_None_eq winding_down.simps(1))
  qed
next
  case CloseQueue
  then have "queue_close s \<noteq> None"
    using assms(1) by (auto simp: queue_close_def shutdown_close_def chan_close_def lc_inv_def pc_facts dq_ok_def)
  then show ?thesis using lc_step.closes [of s _ K] by (metis not_None_eq winding_down.simps(4))
next
  case WaitQueue
  show ?thesis
  proof (cases "all_stopped (sv_queue s)")
    case True
    then have "\<exists>s'. queue_return False s = Some (None, s')" using WaitQueue by (simp add: queue_return_def shutdown_return_def)
    then show ?thesis using lc_step.drained [of False s None _ K] by (metis winding_down.simps(5))
  next
    case False
    then obtain l q where "worker_label l" "dq_step K (sv_queue s) l q"
      using worker_progress [of "sv_queue s" K] assms(1) WaitQueue by (auto simp: lc_inv_def)
    then show ?thesis using lc_step.works by (metis winding_down.simps(2))
  qed
next
  case StopLimiter
  then have "limiter_stop s \<noteq> None" by (simp add: limiter_stop_def split: option.split)
  then show ?thesis using lc_step.stops [of s _ K] by (metis not_None_eq winding_down.simps(6))
next
  case WaitLimiter
  then obtain st where st: "sv_limiter s = Some st" "stop_pending st" using assms(1) by (auto simp: lc_inv_def pc_facts)
  then have "cleanup_ends s \<noteq> None \<or> limiter_stopped s \<noteq> None"
    using WaitLimiter by (auto simp: cleanup_ends_def limiter_stopped_def routine_stop_def stop_finish_def stop_pending_def split: if_splits)
  then show ?thesis using lc_step.cleans [of s _ K] lc_step.stopped [of s _ K]
    by (metis not_None_eq winding_down.simps(7,8))
next
  case CloseStorage
  then have "storage_close None s \<noteq> None" by (simp add: storage_close_def)
  then show ?thesis using lc_step.storage [of None s _ K] by (metis not_None_eq winding_down.simps(9))
qed (use assms in auto)

text \<open>C37: A shutdown comes to an end. From every state in which \<^verbatim>\<open>Shutdown\<close> has been called on a server that was
  listening, when no deadline fires and no request begins any more, the requests, the workers, the limiter and
  \<^verbatim>\<open>Shutdown\<close> itself take a bounded number of steps, and until \<^verbatim>\<open>Shutdown\<close> has returned one of them can be taken.\<close>

theorem shutdown_completes:
  assumes "server_listens (new_server db n m) = Some s0" "lc_run K s0 ls s" "sv_pc s \<noteq> NotCalled"
    and "lc_run K s ls' s'" "list_all winding_down ls'"
  shows "length ls' \<le> steps_left s \<and>
    ((\<exists>r. sv_pc s' = Returned r) \<or> (\<exists>l s''. winding_down l \<and> lc_step K s' l s''))"
proof -
  have "lc_inv s'" using lc_inv_run assms(2,4) listening_inv [OF assms(1)] by metis
  then show ?thesis
    using winding_down_run [OF assms(4,5)] shutdown_progress called_stays_run [OF assms(4,3)] by fastforce
qed

theorem shutdown_completes_witness:
  "\<exists>s. lc_run calm_backend listening_server sample_serving s \<and> length (sample_closing :: unit lc_label list) \<le> steps_left s"
proof -
  obtain s s' where s: "lc_run calm_backend listening_server sample_serving s" "sv_pc s = WaitHttp"
      "lc_run calm_backend s sample_closing s'"
    using sample_runs by blast
  have "list_all winding_down (sample_closing :: unit lc_label list)" by (simp add: sample_closing_def)
  with shutdown_completes [OF sample_listens s(1) _ s(3)] s show ?thesis by auto
qed

end
