(* ===== verification/PasteSite.thy ===== *)
theory PasteSite
  imports Site Handlers
begin

text \<open>
  The whole server on one storage backend: the routes of \<^verbatim>\<open>src/server.go\<close> with the paste handlers behind them, seen from
  outside. What a client is answered with status 200 is what a handler answered, so the guarantees of
  the handlers hold for requests to the site.
\<close>

subsection \<open>The application behind the routes\<close>

text \<open>What the handlers read from outside in one call.\<close>

record 'e paste_call =
  pc_env :: 'e
  pc_env2 :: 'e
  pc_clock :: gotime
  pc_random :: "string option"

text \<open>\<^verbatim>\<open>mux.Vars(r)["id"]\<close>.\<close>

definition path_id :: "http_request \<Rightarrow> string" where
  "path_id rq = (case map_of (rq_vars rq) ''id'' of None \<Rightarrow> [] | Some s \<Rightarrow> s)"

text \<open>The pages, the configuration, the metrics and the payment routes do not touch pastes: \<open>other\<close> answers them.\<close>

definition paste_app ::
  "('e \<Rightarrow> 'db backend) \<Rightarrow> (route \<Rightarrow> http_request \<Rightarrow> outcome) \<Rightarrow> 'e paste_call \<Rightarrow> route \<Rightarrow> 'db server app_handler" where
  "paste_app K other c route rq srv =
     (case route of
        CreatePasteRoute \<Rightarrow>
          (case CreatePaste (K (pc_env c)) (pc_random c) (rq_body rq) srv of (r, s) \<Rightarrow> (Answered r, s))
      | GetPasteRoute \<Rightarrow> GetPasteAPI K (pc_env c) (pc_env2 c) (pc_clock c) (path_id rq) srv
      | HealthRoute \<Rightarrow> (Answered (HealthCheck (K (pc_env c)) (pc_clock c) srv), srv)
      | _ \<Rightarrow> (other route rq, srv))"

text \<open>The body that a handler reads.\<close>

definition seen_request :: "http_request \<Rightarrow> http_request" where
  "seen_request rq = parse_form (max_bytes_reader (5 * 2 ^ 20) rq)"

subsection \<open>A 200 comes from the handler\<close>

text \<open>The next handler has answered 200 and left the application in the state that \<open>s'\<close> shows.\<close>

definition handed_on :: "('rl, 'w) handler \<Rightarrow> http_request \<Rightarrow> ('rl, 'w) site \<Rightarrow> ('rl, 'w) site \<Rightarrow> bool" where
  "handed_on next rq s s' \<longleftrightarrow> (\<exists>t r t'. next rq t = (Answered r, t') \<and> http_status r = 200 \<and>
     site_app t = site_app s \<and> site_app s' = site_app t')"

lemma handed_onI:
  "next rq s = (Answered r, s') \<Longrightarrow> http_status r = 200 \<Longrightarrow> handed_on next rq s s'"
  "next rq (s\<lparr>site_limiter := rl\<rparr>) = (Answered r, s') \<Longrightarrow> http_status r = 200 \<Longrightarrow> handed_on next rq s s'"
  "next rq (s\<lparr>site_requests := c\<rparr>) = (Answered r, s') \<Longrightarrow> http_status r = 200 \<Longrightarrow> handed_on next rq s s'"
  "next rq (s\<lparr>site_requests := c\<rparr>) = (Answered r, s') \<Longrightarrow> http_status r = 200 \<Longrightarrow> handed_on next rq s (s'\<lparr>site_errors := d\<rparr>)"
  unfolding handed_on_def by fastforce+

text \<open>A middleware that answers 200 to anything but a preflight has had the answer from the next handler, on the request
  that \<open>f\<close> makes of its own, with some nonce.\<close>

definition transparent :: "(http_request \<Rightarrow> http_request) \<Rightarrow> (('rl, 'w) handler \<Rightarrow> ('rl, 'w) handler) \<Rightarrow> bool" where
  "transparent f m \<longleftrightarrow>
     (\<forall>rq. rq_method (f rq) = rq_method rq) \<and> (\<forall>rq n. f (rq\<lparr>rq_nonce := n\<rparr>) = (f rq)\<lparr>rq_nonce := n\<rparr>) \<and>
     (\<forall>next rq s r s'. m next rq s = (Answered r, s') \<longrightarrow> http_status r = 200 \<longrightarrow> rq_method rq \<noteq> ''OPTIONS'' \<longrightarrow>
       (\<exists>n. handed_on next ((f rq)\<lparr>rq_nonce := n\<rparr>) s s'))"

lemma transparentI:
  assumes "\<And>rq. rq_method (f rq) = rq_method rq" "\<And>rq n. f (rq\<lparr>rq_nonce := n\<rparr>) = (f rq)\<lparr>rq_nonce := n\<rparr>"
    and "\<And>next rq s r s'. m next rq s = (Answered r, s') \<Longrightarrow> http_status r = 200 \<Longrightarrow> rq_method rq \<noteq> ''OPTIONS'' \<Longrightarrow>
       \<exists>n. handed_on next ((f rq)\<lparr>rq_nonce := n\<rparr>) s s'"
  shows "transparent f m"
  using assms unfolding transparent_def by blast

lemma transparent_comp:
  assumes "transparent f m" "transparent g m'"
  shows "transparent (\<lambda>rq. g (f rq)) (\<lambda>next. m (m' next))"
proof (rule transparentI)
  fix "next" rq s r s'
  assume "m (m' next) rq s = (Answered r, s')" "http_status r = 200" "rq_method rq \<noteq> ''OPTIONS''"
  then obtain n where n: "handed_on (m' next) ((f rq)\<lparr>rq_nonce := n\<rparr>) s s'" using assms(1) unfolding transparent_def by blast
  have "rq_method ((f rq)\<lparr>rq_nonce := n\<rparr>) \<noteq> ''OPTIONS''"
    using assms(1) \<open>rq_method rq \<noteq> ''OPTIONS''\<close> by (simp add: transparent_def)
  then obtain t r0 t' where 1: "m' next ((f rq)\<lparr>rq_nonce := n\<rparr>) t = (Answered r0, t')"
    "http_status r0 = 200" "site_app t = site_app s" "site_app s' = site_app t'" "rq_method ((f rq)\<lparr>rq_nonce := n\<rparr>) \<noteq> ''OPTIONS''"
    using n unfolding handed_on_def by blast
  then obtain n2 where "handed_on next ((g ((f rq)\<lparr>rq_nonce := n\<rparr>))\<lparr>rq_nonce := n2\<rparr>) t t'"
    using assms(2) unfolding transparent_def by blast
  moreover have "(g ((f rq)\<lparr>rq_nonce := n\<rparr>))\<lparr>rq_nonce := n2\<rparr> = (g (f rq))\<lparr>rq_nonce := n2\<rparr>"
    using assms(2) by (simp add: transparent_def)
  ultimately show "\<exists>n. handed_on next ((g (f rq))\<lparr>rq_nonce := n\<rparr>) s s'"
    using 1(3,4) by (auto simp: handed_on_def)
qed (use assms in \<open>simp_all add: transparent_def\<close>)

text \<open>Most middleware passes the request on as it came.\<close>

lemma transparent_idI:
  assumes "\<And>next rq s r s'. m next rq s = (Answered r, s') \<Longrightarrow> http_status r = 200 \<Longrightarrow> rq_method rq \<noteq> ''OPTIONS'' \<Longrightarrow>
       handed_on next rq s s'"
  shows "transparent (\<lambda>rq. rq) m"
proof (rule transparentI)
  fix "next" rq s r s'
  assume "m next rq s = (Answered r, s')" "http_status r = 200" "rq_method rq \<noteq> ''OPTIONS''"
  from assms [OF this] show "\<exists>n. handed_on next (rq\<lparr>rq_nonce := n\<rparr>) s s'"
    by (intro exI [of _ "rq_nonce rq"]) simp
qed simp_all

lemma before_200: "before hs x = (Answered r, s) \<Longrightarrow> \<exists>r0. x = (Answered r0, s) \<and> http_status r0 = http_status r"
  by (cases x; cases "fst x") (auto simp: before_def)

lemma transparent_recovery: "transparent (\<lambda>rq. rq) Recovery"
  by (rule transparent_idI) (auto simp: Recovery_def http_error_def split: prod.splits outcome.splits
      dest!: before_200 intro: handed_onI)

lemma transparent_logging: "transparent (\<lambda>rq. rq) (Logging rnd)"
  by (rule transparent_idI) (auto simp: Logging_def Let_def split: prod.splits outcome.splits if_splits
      dest!: before_200 intro: handed_onI)

lemma transparent_global: "transparent (\<lambda>rq. rq) (GlobalRateLimit check proxy t n)"
  by (rule transparent_idI) (auto simp: GlobalRateLimit_def http_error_def split: prod.splits sum.splits if_splits
      dest!: before_200 intro: handed_onI)

lemma transparent_limiter: "transparent (\<lambda>rq. rq) (RateLimiter check proxy t u action n w)"
  by (rule transparent_idI) (auto simp: RateLimiter_def http_error_def split: prod.splits sum.splits if_splits
      dest!: before_200 intro: handed_onI)

lemma transparent_input: "transparent (\<lambda>rq. rq) InputValidation"
  by (rule transparent_idI) (auto simp: InputValidation_def split: option.splits dest: input_error_status intro: handed_onI)

lemma transparent_cors: "transparent (\<lambda>rq. rq) (CORS secret)"
  by (rule transparent_idI) (auto simp: CORS_def Let_def split: if_splits dest!: before_200 intro: handed_onI)

lemma transparent_nonce: "transparent (\<lambda>rq. rq) InjectNonceMiddleware"
  by (rule transparent_idI) (auto simp: InjectNonceMiddleware_def split: if_splits prod.splits outcome.splits intro: handed_onI)

lemma transparent_csp: "transparent (\<lambda>rq. rq) (CSP secret rnd)"
proof (rule transparentI)
  fix "next" rq s r s'
  assume "CSP secret rnd next rq s = (Answered r, s')" "http_status r = 200"
  then obtain n r0 where "next (rq\<lparr>rq_nonce := n\<rparr>) s = (Answered r0, s')" "http_status r0 = 200"
    by (auto simp: CSP_def http_error_def split: option.splits dest!: before_200)
  then show "\<exists>n. handed_on next (rq\<lparr>rq_nonce := n\<rparr>) s s'" by (blast intro: handed_onI)
qed simp_all

lemma transparent_size: "transparent (\<lambda>rq. parse_form (max_bytes_reader n rq)) (RequestSizeLimit n)"
proof (rule transparentI)
  fix "next" rq s r s'
  assume "RequestSizeLimit n next rq s = (Answered r, s')" "http_status r = 200"
  then show "\<exists>k. handed_on next ((parse_form (max_bytes_reader n rq))\<lparr>rq_nonce := k\<rparr>) s s'"
    by (intro exI [of _ "rq_nonce (parse_form (max_bytes_reader n rq))"]) (simp add: RequestSizeLimit_def handed_onI)
qed (auto simp: parse_form_def max_bytes_reader_def header_value_def)

lemmas transparent_chain = transparent_comp [OF transparent_recovery transparent_comp [OF transparent_logging
  transparent_comp [OF transparent_global transparent_comp [OF transparent_size transparent_comp [OF transparent_input
  transparent_comp [OF transparent_cors transparent_comp [OF transparent_csp transparent_nonce]]]]]]]

text \<open>An answer 200 of the site is one of the handler, to the request as the handler sees it.\<close>

lemma serve_200:
  assumes "serve check proxy secret env route h rq s = (Answered r, s')" "http_status r = 200" "rq_method rq \<noteq> ''OPTIONS''"
  obtains n r0 where "h ((seen_request rq)\<lparr>rq_nonce := n\<rparr>) (site_app s) = (Answered r0, site_app s')" "http_status r0 = 200"
proof -
  obtain n where n: "handed_on (route_handler check proxy env route h) ((seen_request rq)\<lparr>rq_nonce := n\<rparr>) s s'"
    using assms transparent_chain [unfolded transparent_def] unfolding serve_def seen_request_def by blast
  then obtain t r0 t' where 1: "route_handler check proxy env route h ((seen_request rq)\<lparr>rq_nonce := n\<rparr>) t = (Answered r0, t')"
    "http_status r0 = 200" "site_app t = site_app s" "site_app s' = site_app t'"
    unfolding handed_on_def by blast
  show thesis
  proof (cases "route_limit route")
    case None
    then show ?thesis using 1 that [of n r0] by (auto simp: route_handler_def app_def split: prod.splits)
  next
    case (Some an)
    then obtain rl r1 where "app h ((seen_request rq)\<lparr>rq_nonce := n\<rparr>) (t\<lparr>site_limiter := rl\<rparr>) = (Answered r1, t')" "http_status r1 = 200"
      using 1(1,2) by (cases an) (auto simp: route_handler_def RateLimiter_def http_error_def
          split: prod.splits sum.splits if_splits dest!: before_200)
    then show ?thesis using 1(3,4) that [of n r1] by (auto simp: app_def split: prod.splits)
  qed
qed

subsection \<open>Histories of the site\<close>

datatype 'e site_call =
    Call serve_env route "'e paste_call" http_request
  | QueueDeletes 'e string
  | LimiterTidies gotime

fun paste_site_step ::
  "('e \<Rightarrow> 'db backend) \<Rightarrow> (route \<Rightarrow> http_request \<Rightarrow> outcome) \<Rightarrow> 'rl limit_check \<Rightarrow> (gotime \<Rightarrow> 'rl \<Rightarrow> 'rl) \<Rightarrow> proxy_config \<Rightarrow>
   (string \<Rightarrow> string) \<Rightarrow> 'e site_call \<Rightarrow> ('rl, 'db server) site \<Rightarrow> http_response option \<times> ('rl, 'db server) site" where
  "paste_site_step K other check tidy proxy secret (Call env route c rq) s =
     (case serve check proxy secret env route (paste_app K other c route) rq s of
        (Answered r, s') \<Rightarrow> (Some r, s') | (Panicked hs, s') \<Rightarrow> (None, s'))"
| "paste_site_step K other check tidy proxy secret (QueueDeletes e i) s =
     (None, s\<lparr>site_app := set_store (snd (DeletePaste (K e) (srv_store (site_app s)) i)) (site_app s)\<rparr>)"
| "paste_site_step K other check tidy proxy secret (LimiterTidies t) s = (None, s\<lparr>site_limiter := tidy t (site_limiter s)\<rparr>)"

fun delivered_to_client :: "string \<Rightarrow> 'e site_call \<Rightarrow> http_response option \<Rightarrow> bool" where
  "delivered_to_client i (Call env route c rq) (Some r) =
     (route = GetPasteRoute \<and> rq_method rq = ''GET'' \<and> SanitizeString (path_id rq) = i \<and> http_status r = 200)"
| "delivered_to_client i _ _ = False"

fun times_delivered ::
  "('e \<Rightarrow> 'db backend) \<Rightarrow> (route \<Rightarrow> http_request \<Rightarrow> outcome) \<Rightarrow> 'rl limit_check \<Rightarrow> (gotime \<Rightarrow> 'rl \<Rightarrow> 'rl) \<Rightarrow> proxy_config \<Rightarrow>
   (string \<Rightarrow> string) \<Rightarrow> string \<Rightarrow> 'e site_call list \<Rightarrow> ('rl, 'db server) site \<Rightarrow> nat" where
  "times_delivered K other check tidy proxy secret i [] s = 0"
| "times_delivered K other check tidy proxy secret i (x # xs) s =
     (case paste_site_step K other check tidy proxy secret x s of
        (r, s') \<Rightarrow> (if delivered_to_client i x r then 1 else 0) + times_delivered K other check tidy proxy secret i xs s')"

fun call_generates :: "string \<Rightarrow> 'e site_call \<Rightarrow> bool" where
  "call_generates i (Call env route c rq) = (route = CreatePasteRoute \<and> GenerateID (pc_random c) = Some i)"
| "call_generates i _ = False"

text \<open>What an event does to the application is what the handlers' operations do, and what it delivers they serve.\<close>

definition srv_after :: "('e \<Rightarrow> 'db backend) \<Rightarrow> 'e srv_op list \<Rightarrow> 'db server \<Rightarrow> 'db server" where
  "srv_after K ops srv = fold (\<lambda>x s. snd (srv_step K x s)) ops srv"

lemma times_served_append:
  "times_served K i (xs @ ys) srv = times_served K i xs srv + times_served K i ys (srv_after K xs srv)"
  by (induction xs arbitrary: srv) (simp_all add: srv_after_def split: prod.split)

lemma paste_app_ops:
  obtains ops where "snd (paste_app K other c route rq srv) = srv_after K ops srv"
    "list_all (\<lambda>x. generates i x \<longrightarrow> route = CreatePasteRoute \<and> GenerateID (pc_random c) = Some i) ops"
    "route = GetPasteRoute \<Longrightarrow> ops = [HGet (pc_env c) (pc_env2 c) (pc_clock c) (path_id rq)]"
proof (cases route)
  case CreatePasteRoute
  then show ?thesis
    by (intro that [of "[HCreate (pc_env c) (pc_random c) (rq_body rq)]"]) (auto simp: paste_app_def srv_after_def split: prod.split)
next
  case GetPasteRoute
  then show ?thesis
    by (intro that [of "[HGet (pc_env c) (pc_env2 c) (pc_clock c) (path_id rq)]"])
      (auto simp: paste_app_def srv_after_def split: prod.split outcome.split)
qed (auto simp: paste_app_def srv_after_def intro: that [of "[]"])

lemma path_id_seen [simp]: "path_id ((seen_request rq)\<lparr>rq_nonce := n\<rparr>) = path_id rq"
  by (simp add: path_id_def seen_request_def parse_form_def max_bytes_reader_def)

lemma serve_app_effect:
  "\<exists>rq'. site_app (snd (serve check proxy secret env route h rq s)) \<in> {site_app s, snd (h rq' (site_app s))}"
  by (cases rule: serve_effect [OF refl, where check = check and proxy = proxy and env = env and s = s and secret = secret
        and route = route and h = h and rq = rq]) auto

lemma paste_site_step_ops:
  fixes K :: "'e \<Rightarrow> 'db backend" and s :: "('rl, 'db server) site"
  assumes "paste_site_step K other check tidy proxy secret x s = (r, s')"
  obtains ops where "site_app s' = srv_after K ops (site_app s)"
    "(if delivered_to_client i x r then 1 else 0) \<le> times_served K i ops (site_app s)"
    "list_all (\<lambda>y. generates i y \<longrightarrow> call_generates i x) ops"
proof (cases x)
  case (Call env route c rq)
  define h where "h = paste_app K other c route"
  obtain out s1 where serve: "serve check proxy secret env route h rq s = (out, s1)" by fastforce
  then have out: "s1 = s'" "\<And>a. r = Some a \<Longrightarrow> out = Answered a"
    using assms Call by (auto simp: h_def split: outcome.splits)
  show ?thesis
  proof (cases "delivered_to_client i x r")
    case True
    then obtain a where a: "r = Some a" "route = GetPasteRoute" "rq_method rq = ''GET''" "SanitizeString (path_id rq) = i"
        "http_status a = 200"
      using Call by (cases r) auto
    obtain n r0 where "h ((seen_request rq)\<lparr>rq_nonce := n\<rparr>) (site_app s) = (Answered r0, site_app s')" "http_status r0 = 200"
      using serve_200 [OF serve [unfolded out(2) [OF a(1)] out(1)] a(5)] a(3) by auto
    then have "srv_step K (HGet (pc_env c) (pc_env2 c) (pc_clock c) (path_id rq)) (site_app s) = (Some r0, site_app s')"
      using a(2) by (simp add: h_def paste_app_def)
    then show ?thesis
      using True a \<open>http_status r0 = 200\<close> by (intro that [of "[HGet (pc_env c) (pc_env2 c) (pc_clock c) (path_id rq)]"])
        (auto simp: srv_after_def simp del: srv_step.simps)
  next
    case False
    obtain rq' where "site_app s' \<in> {site_app s, snd (h rq' (site_app s))}"
      using serve_app_effect [of check proxy secret env route h rq s] serve out(1) by auto
    moreover obtain ops where "snd (h rq' (site_app s)) = srv_after K ops (site_app s)"
        "list_all (\<lambda>x. generates i x \<longrightarrow> route = CreatePasteRoute \<and> GenerateID (pc_random c) = Some i) ops"
      unfolding h_def by (rule paste_app_ops [of K other c route rq' "site_app s" i])
    ultimately show ?thesis
      using False Call that [of "[]"] that [of ops] by (auto simp: srv_after_def list_all_iff)
  qed
next
  case (QueueDeletes e j)
  then show ?thesis using assms by (intro that [of "[HWorker e j]"]) (auto simp: srv_after_def)
next
  case (LimiterTidies t)
  then show ?thesis using assms by (intro that [of "[]"]) (auto simp: srv_after_def)
qed

lemma times_delivered_ops:
  "list_all (\<lambda>x. \<not> call_generates i x) xs \<Longrightarrow>
   \<exists>ops. times_delivered K other check tidy proxy secret i xs s \<le> times_served K i ops (site_app s) \<and>
     list_all (\<lambda>y. \<not> generates i y) ops"
proof (induction xs arbitrary: s)
  case (Cons x xs)
  obtain r s' where st: "paste_site_step K other check tidy proxy secret x s = (r, s')" by fastforce
  obtain ops where ops: "site_app s' = srv_after K ops (site_app s)"
      "(if delivered_to_client i x r then 1 else 0) \<le> times_served K i ops (site_app s)"
      "list_all (\<lambda>y. generates i y \<longrightarrow> call_generates i x) ops"
    by (rule paste_site_step_ops [OF st, of i])
  obtain ops' where "times_delivered K other check tidy proxy secret i xs s' \<le> times_served K i ops' (site_app s')"
      "list_all (\<lambda>y. \<not> generates i y) ops'"
    using Cons.IH [of s'] Cons.prems by auto
  then show ?case using ops st Cons.prems
    by (intro exI [of _ "ops @ ops'"]) (auto simp: times_served_append list_all_iff)
qed (auto intro: exI [of _ "[]"])

text \<open>A request to create the sample paste, and a site with a limiter that admits everything.\<close>

definition free_check :: "unit limit_check" where
  "free_check t k n w rl = (Inr \<lparr>lr_allowed = True, lr_remaining = 1, lr_reset_at = 0, lr_retry_after = 0\<rparr>, rl)"

definition create_call :: http_request where
  "create_call = \<lparr>rq_method = ''POST'', rq_path = ''/api/paste'', rq_query = [],
     rq_headers = [(''Content-Type'', [''application/json''])], rq_remote = ''192.0.2.1:4711'', rq_vars = [],
     rq_body = sample_body, rq_too_large = False, rq_nonce = []\<rparr>"

definition sample_env :: serve_env where
  "sample_env = \<lparr>se_id_random = None, se_nonce_random = Some ''n'', se_global_clock = 0, se_route_clock = 0, se_fail_clock = 0\<rparr>"

definition sample_call :: "env paste_call" where
  "sample_call = \<lparr>pc_env = calm 0, pc_env2 = calm 0, pc_clock = 0, pc_random = Some sample_random\<rparr>"

definition sample_site :: "(unit, sqldb server) site" where
  "sample_site = \<lparr>site_limiter = (), site_requests = Map.empty, site_errors = Map.empty, site_app = sample_server\<rparr>"

lemma create_call_seen: "seen_request create_call = create_call"
proof -
  have "length sample_body = 64" by (simp add: sample_body_def)
  moreover have "header_value create_call ''Content-Type'' = ''application/json''"
    unfolding create_call_def by code_simp
  ultimately show ?thesis
    by (simp add: seen_request_def parse_form_def max_bytes_reader_def create_call_def header_value_def)
qed

lemma create_call_valid: "input_error create_call = None"
  unfolding create_call_def sample_body_def by code_simp

text \<open>C2: Burn-after-read holds for the whole server. When a request to create a burn-after-read paste has been answered 200
  by a server on SQLite, then over any later history of requests to any route, from any clients, under any limiter,
  with deletions by the workers in between, in which the identifier is not generated again, at most one
  client is answered 200 by the route that delivers the paste.\<close>

theorem site_burn_once:
  assumes "db_ok (srv_store (site_app s))" "pastes (srv_store (site_app s)) i = None"
    and "serve check proxy secret env CreatePasteRoute (paste_app sqlite_backend other c CreatePasteRoute) rq s = (Answered resp, s')"
    and "http_status resp = 200" "rq_method rq = ''POST''"
    and "decode_create_request (rq_body (seen_request rq)) = Some r" "burn_after_read r" "GenerateID (pc_random c) = Some i"
    and "list_all (\<lambda>x. \<not> call_generates i x) xs"
  shows "times_delivered sqlite_backend other check tidy proxy secret i xs s' \<le> 1"
proof -
  obtain n r0 where "paste_app sqlite_backend other c CreatePasteRoute ((seen_request rq)\<lparr>rq_nonce := n\<rparr>) (site_app s) =
      (Answered r0, site_app s')" and r0: "http_status r0 = 200"
    using serve_200 [OF assms(3,4)] assms(5) by auto
  then have create: "CreatePaste (sqlite_backend (pc_env c)) (pc_random c) (rq_body (seen_request rq)) (site_app s) = (r0, site_app s')"
    by (simp add: paste_app_def split: prod.splits)
  obtain content len plain res where sv: "sqlite_SavePaste (pc_env c) (srv_store (site_app s)) i content len True plain =
      (Inr res, srv_store (site_app s'))"
    by (rule CreatePaste_200 [OF create r0]) (use assms(6-8) in auto)
  have ok: "db_ok (srv_store (site_app s'))" using assms(1) sv by (rule sqlite_SavePaste_inv)
  have "sql_pending (srv_store (site_app s')) i \<or> sql_spent (srv_store (site_app s')) i"
    using assms(1,2) sv by (rule sqlite_saved_pending)
  moreover obtain ops where "times_delivered sqlite_backend other check tidy proxy secret i xs s' \<le>
      times_served sqlite_backend i ops (site_app s')" "list_all (\<lambda>y. \<not> generates i y) ops"
    using times_delivered_ops [OF assms(9)] by blast
  ultimately show ?thesis using sqlite.served_once [OF ok, of i ops] by (simp split: if_splits)
qed

theorem site_burn_once_witness:
  "\<exists>resp s'. serve free_check disabled_proxies (\<lambda>_. []) sample_env CreatePasteRoute
      (paste_app sqlite_backend (\<lambda>_ _. Panicked Map.empty) sample_call CreatePasteRoute) create_call sample_site = (Answered resp, s') \<and>
    http_status resp = 200 \<and>
    times_delivered sqlite_backend (\<lambda>_ _. Panicked Map.empty) free_check (\<lambda>_ rl. rl) disabled_proxies (\<lambda>_. [])
      (b64_encode RawURLEncoding sample_random) [Call sample_env GetPasteRoute sample_call create_call, LimiterTidies 1] s' \<le> 1"
proof -
  let ?h = "paste_app sqlite_backend (\<lambda>_ _. Panicked Map.empty) sample_call CreatePasteRoute"
  obtain resp srv' where c: "CreatePaste (sqlite_backend (calm 0)) (Some sample_random) sample_body sample_server = (resp, srv')"
    "http_status resp = 200" using sample_created by blast
  have h: "?h (create_call\<lparr>rq_nonce := n\<rparr>) sample_server = (Answered resp, srv')" for n
    using c by (simp add: paste_app_def sample_call_def create_call_def)
  have seen: "parse_form (max_bytes_reader 5242880 create_call) = create_call"
    using create_call_seen by (simp add: seen_request_def)
  obtain resp' s' where s: "serve free_check disabled_proxies (\<lambda>_. []) sample_env CreatePasteRoute ?h create_call sample_site =
      (Answered resp', s')" "http_status resp' = 200"
    using c(2) h
    by (simp add: serve_def Recovery_def Logging_def GlobalRateLimit_def RequestSizeLimit_def seen
        InputValidation_def create_call_valid CORS_def CSP_def InjectNonceMiddleware_def route_handler_def
        RateLimiter_def app_def free_check_def generateCSPNonce_def sample_env_def sample_site_def before_def Let_def split: prod.splits)
  have "times_delivered sqlite_backend (\<lambda>_ _. Panicked Map.empty) free_check (\<lambda>_ rl. rl) disabled_proxies (\<lambda>_. [])
      (b64_encode RawURLEncoding sample_random) [Call sample_env GetPasteRoute sample_call create_call, LimiterTidies 1] s' \<le> 1"
  proof (rule site_burn_once [OF _ _ s(1) s(2)])
    show "decode_create_request (rq_body (seen_request create_call)) = Some sample_request"
      unfolding create_call_seen by (simp add: create_call_def sample_decode)
  qed (simp_all add: sample_site_def db_ok_empty create_call_def sample_request_def sample_call_def GenerateID_def)
  with s show ?thesis by blast
qed

end
