(* ===== verification/LogSetup.thy ===== *)
theory LogSetup
  imports AuditLog Endpoints
begin

text \<open>
  Where log lines go: the global loggers of \<^verbatim>\<open>src/logger/logger.go\<close> and \<^verbatim>\<open>src/logger/audit.go\<close>, their set-up in \<^verbatim>\<open>src/main.go\<close>,
  the writer of \<^verbatim>\<open>src/logger/cloud.go\<close>, and the periodic metrics of \<^verbatim>\<open>src/logger/monitor.go\<close>. An output takes the writes of
  a call one by one: standard output as bytes, Cloud Logging as entries.
\<close>

subsection \<open>Outputs\<close>

text \<open>The log of a Cloud Logging client, with its project, name and labels.\<close>

datatype log_output = Stdout | CloudOutput string string "(string \<times> string) list"

record log_sinks =
  sk_stdout :: string
  sk_entries :: "(log_output \<times> string \<times> string) list" \<comment> \<open>payload and severity\<close>

definition cloud_write :: "log_output \<Rightarrow> string \<Rightarrow> log_sinks \<Rightarrow> log_sinks" where
  "cloud_write out p s = s\<lparr>sk_entries := sk_entries s @ [(out, p, ''Info'')]\<rparr>"

fun write_to :: "log_output \<Rightarrow> string \<Rightarrow> log_sinks \<Rightarrow> log_sinks" where
  "write_to Stdout p s = s\<lparr>sk_stdout := sk_stdout s @ p\<rparr>"
| "write_to out p s = cloud_write out p s"

text \<open>The writes of one call: the message of a failed encoding is one write with its newline, an entry and its
  newline are two.\<close>

definition log_writes ::
  "logger \<Rightarrow> gotime \<times> gotime \<Rightarrow> (string \<times> int \<times> string) option \<Rightarrow> log_level \<Rightarrow> string \<Rightarrow> log_fields \<Rightarrow> string list" where
  "log_writes lg clocks caller level msg given =
     (if level < lg_level lg then []
      else (case entry_json (make_entry lg (fst clocks) caller level msg given) of
              None \<Rightarrow> [marshal_failure (snd clocks) @ [CHR 10]]
            | Some j \<Rightarrow> [json_encode j, [CHR 10]]))"

lemma concat_log_writes:
  "concat (log_writes lg clocks caller level msg given) =
     (case log_text lg clocks caller level msg given of None \<Rightarrow> [] | Some s \<Rightarrow> s @ [CHR 10])"
  by (simp add: log_writes_def log_text_def split: option.split)

record log_request =
  lq_clocks :: "gotime \<times> gotime"
  lq_caller :: "(string \<times> int \<times> string) option"
  lq_level :: log_level
  lq_message :: string
  lq_given :: log_fields

definition call_log :: "log_output \<times> logger \<Rightarrow> log_request \<Rightarrow> log_sinks \<Rightarrow> log_sinks" where
  "call_log l q s = fold (write_to (fst l))
     (log_writes (snd l) (lq_clocks q) (lq_caller q) (lq_level q) (lq_message q) (lq_given q)) s"

subsection \<open>The global loggers\<close>

record log_globals =
  once_done :: bool
  default_logger :: "(log_output \<times> logger) option"
  audit_logger :: "(log_output \<times> logger) option"

definition unset_globals :: log_globals where
  "unset_globals = \<lparr>once_done = False, default_logger = None, audit_logger = None\<rparr>"

definition Init :: "log_level \<Rightarrow> bool \<Rightarrow> log_globals \<Rightarrow> log_globals" where
  "Init level with_caller g =
     (if once_done g then g
      else g\<lparr>once_done := True, default_logger := Some (Stdout, NewLogger 0 level with_caller)\<rparr>)"

definition Default :: "log_globals \<Rightarrow> (log_output \<times> logger) option \<times> log_globals" where
  "Default g = (let g1 = Init INFO True g in (default_logger g1, g1))"

definition InitAuditLogger :: "(log_output \<times> logger) option \<Rightarrow> log_globals \<Rightarrow> log_globals" where
  "InitAuditLogger l g = g\<lparr>audit_logger := l\<rparr>"

definition GetAuditLogger :: "log_globals \<Rightarrow> (log_output \<times> logger) option \<times> log_globals" where
  "GetAuditLogger g =
     (case audit_logger g of
        Some l \<Rightarrow> (Some l, g)
      | None \<Rightarrow> (case Default g of (l, g1) \<Rightarrow> (l, InitAuditLogger l g1)))"

record cloud_config =
  cc_project :: string
  cc_log_name :: string
  cc_service_name :: string
  cc_service_version :: string

text \<open>\<open>client\<close> tells whether a client for a project can be created, with or without authentication.\<close>

definition NewCloudLogger ::
  "environ \<Rightarrow> (string \<Rightarrow> bool \<Rightarrow> bool) \<Rightarrow> cloud_config \<Rightarrow> log_level \<Rightarrow> string + log_output \<times> logger" where
  "NewCloudLogger env client config level =
     (let p1 = cc_project config;
          p2 = (if p1 = [] then os_getenv ''GOOGLE_CLOUD_PROJECT'' env else p1);
          project = (if p2 = [] then os_getenv ''GCP_PROJECT'' env else p2)
      in if project = [] then Inl ''no Google Cloud project ID found''
         else if \<not> client project (os_getenv ''LOGGING_EMULATOR_HOST'' env \<noteq> []) then Inl ''failed to create logging client''
         else Inr (CloudOutput project (if cc_log_name config = [] then ''bincrypt'' else cc_log_name config)
                [(''service_name'', cc_service_name config), (''service_version'', cc_service_version config)],
              NewLogger 1 level True))"

definition InitCloudLogging ::
  "bool \<Rightarrow> environ \<Rightarrow> (string \<Rightarrow> bool \<Rightarrow> bool) \<Rightarrow> cloud_config \<Rightarrow> log_level \<Rightarrow> log_globals \<Rightarrow> string option \<times> log_globals" where
  "InitCloudLogging gcp_build env client config level g =
     (if \<not> gcp_build then (Some ''Cloud Logging not available (build with -tags gcp)'', g)
      else (case NewCloudLogger env client config level of
              Inl err \<Rightarrow> (Some err, g)
            | Inr l \<Rightarrow> (None, InitAuditLogger (Some l) (g\<lparr>default_logger := Some l\<rparr>))))"

text \<open>The package functions log to the default logger.\<close>

definition global_log :: "log_request \<Rightarrow> log_globals \<times> log_sinks \<Rightarrow> log_globals \<times> log_sinks" where
  "global_log q st = (case Default (fst st) of (l, g) \<Rightarrow> (g, case l of None \<Rightarrow> snd st | Some l \<Rightarrow> call_log l q (snd st)))"

subsection \<open>The set-up and the end of the program\<close>

definition main_level :: "environ \<Rightarrow> log_level" where
  "main_level env = (if os_getenv ''DEBUG'' env = ''true'' then DEBUG else INFO)"

definition main_logging :: "environ \<Rightarrow> log_globals \<Rightarrow> log_globals" where
  "main_logging env g =
     (case Default (Init (main_level env) True g) of (l, g1) \<Rightarrow> snd (GetAuditLogger (InitAuditLogger l g1)))"

definition system_start_call :: "string \<Rightarrow> string \<Rightarrow> environ \<Rightarrow> audit_call" where
  "system_start_call version commit env = SystemStart version
     [(''version'', JStr version), (''commit'', JStr commit), (''port'', JStr (os_getenv ''PORT'' env))]"

text \<open>The program ends when \<^verbatim>\<open>Shutdown\<close> has returned after a signal, whatever it returned, or when the server has.\<close>

datatype main_event = ShutdownReturned "string option" | ServerReturned "string option"

fun exit_status :: "main_event \<Rightarrow> int" where
  "exit_status (ShutdownReturned err) = 0"
| "exit_status (ServerReturned err) = (if err = None then 0 else 1)"

subsection \<open>Periodic metrics\<close>

text \<open>The channels that the loop waits for; the metrics at a tick are an argument.\<close>

datatype ticker_event = Tick "gotime \<times> gotime" json | Done

fun LogMetricsPeriodically :: "ticker_event list \<Rightarrow> log_output \<times> logger \<Rightarrow> log_sinks \<Rightarrow> log_sinks" where
  "LogMetricsPeriodically [] l s = s"
| "LogMetricsPeriodically (Tick t metrics # es) l s = LogMetricsPeriodically es l
     (call_log l \<lparr>lq_clocks = t, lq_caller = None, lq_level = INFO, lq_message = ''metrics_snapshot'',
        lq_given = [(''metrics'', VJson metrics)]\<rparr> s)"
| "LogMetricsPeriodically (Done # es) l s = s"

subsection \<open>Which logger is the default\<close>

datatype global_op = OpInit log_level bool | OpDefault | OpGetAudit | OpCloud bool environ "string \<Rightarrow> bool \<Rightarrow> bool" cloud_config log_level

fun global_step :: "global_op \<Rightarrow> log_globals \<Rightarrow> log_globals" where
  "global_step (OpInit level c) g = Init level c g"
| "global_step OpDefault g = snd (Default g)"
| "global_step OpGetAudit g = snd (GetAuditLogger g)"
| "global_step (OpCloud b env client config level) g = snd (InitCloudLogging b env client config level g)"

lemmas globals_simps = Init_def Default_def InitAuditLogger_def GetAuditLogger_def InitCloudLogging_def Let_def

text \<open>Once the program has set up its loggers, they stay the same, unless Cloud Logging is set up.\<close>

lemma default_settled:
  assumes "once_done g" "default_logger g = Some l" "list_all (\<lambda>x. \<nexists>b env client config level. x = OpCloud b env client config level) ops"
  shows "fst (Default (fold global_step ops g)) = Some l"
  using assms
proof (induction ops arbitrary: g)
  case (Cons x ops)
  then have "once_done (global_step x g) \<and> default_logger (global_step x g) = Some l"
    by (cases x) (auto simp: globals_simps split: option.splits)
  then show ?case using Cons by simp
qed (simp add: globals_simps)

lemma main_loggers:
  assumes "list_all (\<lambda>x. \<nexists>b env client config level. x = OpCloud b env client config level) ops"
  shows "fst (Default (fold global_step ops (main_logging env unset_globals))) = Some (Stdout, NewLogger 0 (main_level env) True)"
  using assms by (intro default_settled) (simp_all add: main_logging_def globals_simps unset_globals_def)

text \<open>What the program writes on standard output is whole lines, one for each call that is logged.\<close>

lemma stdout_writes: "fold (write_to Stdout) ws s = s\<lparr>sk_stdout := sk_stdout s @ concat ws\<rparr>"
  by (induction ws arbitrary: s) simp_all

lemma global_log_lines:
  assumes "fst (Default g) = Some (Stdout, lg)"
  shows "sk_stdout (snd (global_log q (g, s))) = sk_stdout s @
     (case log_text lg (lq_clocks q) (lq_caller q) (lq_level q) (lq_message q) (lq_given q) of None \<Rightarrow> [] | Some t \<Rightarrow> t @ [CHR 10])"
  using assms by (auto simp: global_log_def call_log_def stdout_writes concat_log_writes split: prod.split)

subsection \<open>Cloud Logging\<close>

text \<open>C40: Setting up Cloud Logging in place of \<^verbatim>\<open>Init\<close> does not last. As the comment on \<^verbatim>\<open>InitCloudLogging\<close> advises, it is called
  before anything is logged, and succeeds; the next use of the default logger replaces it by one on standard output
  at level INFO, while audit events go to Cloud Logging. There, each event becomes two entries, the second with
  nothing but a newline, and both with the severity of information.\<close>

theorem cloud_logging_replaced:
  assumes "InitCloudLogging True env client config level unset_globals = (None, g)"
  shows "\<exists>out. fst (Default g) = Some (Stdout, NewLogger 0 INFO True) \<and>
    fst (GetAuditLogger g) = Some (out, NewLogger 1 level True) \<and> out \<noteq> Stdout \<and>
    (\<forall>q j. lq_level q = AUDIT \<and>
       entry_json (make_entry (NewLogger 1 level True) (fst (lq_clocks q)) (lq_caller q) AUDIT (lq_message q) (lq_given q)) = Some j \<longrightarrow>
       sk_entries (call_log (out, NewLogger 1 level True) q s) = sk_entries s @ [(out, json_encode j, ''Info''), (out, [CHR 10], ''Info'')])"
proof -
  obtain out where out: "NewCloudLogger env client config level = Inr (out, NewLogger 1 level True)" "out \<noteq> Stdout"
    "g = InitAuditLogger (Some (out, NewLogger 1 level True)) (unset_globals\<lparr>default_logger := Some (out, NewLogger 1 level True)\<rparr>)"
    using assms by (auto simp: InitCloudLogging_def NewCloudLogger_def Let_def split: sum.splits if_splits)
  then have "fst (Default g) = Some (Stdout, NewLogger 0 INFO True)" "fst (GetAuditLogger g) = Some (out, NewLogger 1 level True)"
    by (simp_all add: globals_simps unset_globals_def)
  moreover have "\<not> AUDIT < level" using audit_highest [of level] by simp
  moreover have "write_to out p t = cloud_write out p t" for p t using out(2) by (cases out) simp_all
  ultimately show ?thesis
    using out(2) by (intro exI [of _ out]) (auto simp: call_log_def log_writes_def NewLogger_def cloud_write_def)
qed

theorem cloud_logging_replaced_witness:
  "\<exists>g. InitCloudLogging True Map.empty (\<lambda>_ _. True) \<lparr>cc_project = ''p'', cc_log_name = [], cc_service_name = ''bincrypt'',
       cc_service_version = ''1''\<rparr> WARN unset_globals = (None, g) \<and>
     fst (Default g) = Some (Stdout, NewLogger 0 INFO True)"
proof -
  let ?c = "\<lparr>cc_project = ''p'', cc_log_name = [], cc_service_name = ''bincrypt'', cc_service_version = ''1''\<rparr>"
  obtain g where g: "InitCloudLogging True Map.empty (\<lambda>_ _. True) ?c WARN unset_globals = (None, g)"
    by (simp add: InitCloudLogging_def NewCloudLogger_def)
  from cloud_logging_replaced [OF g] g show ?thesis by blast
qed

end
