(* ===== verification/Spec2Isabelle.thy ===== *)
theory Spec2Isabelle
  imports Prelude Codec Utf8 Json Gotime Sha256 Strconv Models Storage Sqldb Sqlite SqliteSpec Postgres
    Gcs GcsBurn DeletionQueue Validation Float64 FloatText RateLimit RequestJson Http Handlers ClientIp
    Middleware Site
    Timeparse Invoice SlidingLog FirestoreLimit RedisLimit Secrets Startup
    Endpoints JsonRoundtrip FloatLiteral DecodedJson PlainDocument Tools Logger AuditLog Migrate Lifecycle PasteSite LogSetup
begin

text \<open>
  BinCrypt: a server for pastes that are encrypted in the browser, kept until they expire and, on
  request, burned by the first read. The development models the server's own logic, in Go under
  \<^verbatim>\<open>src/\<close>; paths below are relative to the repository.

  \<^bold>\<open>The program and its parts.\<close> A request passes the middleware of \<^verbatim>\<open>src/middleware.go\<close> in the order that
  \<^verbatim>\<open>Start\<close> in \<^verbatim>\<open>src/server.go\<close> gives it, is routed, rate limited per client address
  (\<^verbatim>\<open>src/utils/ip.go\<close>, \<^verbatim>\<open>src/config/trusted_proxies.go\<close>, \<^verbatim>\<open>src/services/ratelimit.go\<close>) and reaches a handler
  (\<^verbatim>\<open>src/handlers_paste.go\<close>), which validates it (\<^verbatim>\<open>src/validation.go\<close>) and calls the storage backend behind
  the interface of \<^verbatim>\<open>src/services/storage_backend.go\<close>: SQLite, PostgreSQL or Cloud Storage. A read that burns
  a paste hands its deletion to the queue of \<^verbatim>\<open>src/services/deletion_queue.go\<close>, whose workers call the backend
  again, concurrently with other requests. Invoices (\<^verbatim>\<open>src/handlers_invoice.go\<close>) go to a BTCPay server, whose webhook
  comes back signed. \<^verbatim>\<open>src/main.go\<close> chooses storage, limiter and payments from the configuration that
  \<^verbatim>\<open>src/config/\<close> looks up; \<^verbatim>\<open>Shutdown\<close> takes the parts down in order. Beside the server there are the tools that ban
  content (\<^verbatim>\<open>src/cmd/\<close>) and the migration of the PostgreSQL schema (\<^verbatim>\<open>migrations/\<close>).

  \<^bold>\<open>Theories and code.\<close>
  \<^item> \<^verbatim>\<open>Prelude\<close>, \<^verbatim>\<open>Codec\<close>, \<^verbatim>\<open>Utf8\<close>, \<^verbatim>\<open>Json\<close>, \<^verbatim>\<open>Gotime\<close>, \<^verbatim>\<open>Sha256\<close>, \<^verbatim>\<open>Strconv\<close>, \<^verbatim>\<open>Float64\<close>, \<^verbatim>\<open>FloatText\<close>, \<^verbatim>\<open>Http\<close>: Go's
    strings (lists of bytes), times (integer nanoseconds), \<^verbatim>\<open>float64\<close>, and those functions of its standard
    library that the sources call, executable.
  \<^item> \<^verbatim>\<open>Models\<close>: \<^verbatim>\<open>src/models/\<close>. \<^verbatim>\<open>Storage\<close>: the record \<open>backend\<close> of operations, the facade, histories of
    operations, and the contract \<open>paste_store\<close>.
  \<^item> \<^verbatim>\<open>Sqldb\<close>: the tables of \<^verbatim>\<open>initSchema\<close> with their constraints. \<^verbatim>\<open>Sqlite\<close> and \<^verbatim>\<open>Postgres\<close>: every method of the two
    SQL backends, statement by statement, under an environment that may fail any driver call.
    \<^verbatim>\<open>SqliteSpec\<close>: the abstract paste map and the refinement.
  \<^item> \<^verbatim>\<open>Gcs\<close>: every method of \<^verbatim>\<open>src/services/storage_gcs.go\<close>, as a whole and as a machine that takes one call of the
    client library at a time. \<^verbatim>\<open>GcsBurn\<close>: any number of those machines interleaved.
  \<^item> \<^verbatim>\<open>DeletionQueue\<close>: channel, workers and shutdown as the step relation \<open>dq_step\<close>.
  \<^item> \<^verbatim>\<open>Validation\<close>, \<^verbatim>\<open>RequestJson\<close>, \<^verbatim>\<open>Handlers\<close>: request bodies, their checks, and the handlers over any backend.
    A handler returns the response, or a panic, with the new state of store, queue and counters.
  \<^item> \<^verbatim>\<open>RateLimit\<close>: the token bucket with its \<^verbatim>\<open>float64\<close> arithmetic, its clean-up and stop protocol.
    \<^verbatim>\<open>ClientIp\<close>: the address of a client, with the parsers of package \<^verbatim>\<open>net\<close>.
  \<^item> \<^verbatim>\<open>Middleware\<close>: each middleware as a function from handler to handler. \<^verbatim>\<open>Site\<close>: the routes, their limits and the
    whole chain, for any handler behind it. \<^verbatim>\<open>PasteSite\<close>: the chain with the paste handlers behind it, as clients see it.
  \<^item> \<^verbatim>\<open>SlidingLog\<close>, \<^verbatim>\<open>FirestoreLimit\<close>, \<^verbatim>\<open>RedisLimit\<close>: the shared limiters, with the documents of Firestore and the sorted sets of
    Redis as interfaces, and the Lua script command by command.
  \<^item> \<^verbatim>\<open>Timeparse\<close>, \<^verbatim>\<open>Invoice\<close>: \<^verbatim>\<open>src/handlers_invoice.go\<close> and \<^verbatim>\<open>src/services/btcpay.go\<close>, the webhook and its times included.
  \<^item> \<^verbatim>\<open>Secrets\<close>: the providers of \<^verbatim>\<open>src/config/\<close> with the parser of env files. \<^verbatim>\<open>Startup\<close>: \<^verbatim>\<open>src/main.go\<close> and \<^verbatim>\<open>New\<close> as lookups in
    the order of the code, ending in a plan of the server. \<^verbatim>\<open>Endpoints\<close>: the client configuration and the metrics.
  \<^item> \<^verbatim>\<open>Lifecycle\<close>: \<^verbatim>\<open>Shutdown\<close>, each of its waits one operation, against requests, workers and the limiter's goroutine.
  \<^item> \<^verbatim>\<open>Logger\<close>, \<^verbatim>\<open>AuditLog\<close>: \<^verbatim>\<open>src/logger/\<close>, from the fields of a call to the text of its line, and calls interleaved
    write by write. \<^verbatim>\<open>LogSetup\<close>: the global loggers, their outputs, and the status with which the program ends.
  \<^item> \<^verbatim>\<open>JsonRoundtrip\<close>: the reader inverts the writer of JSON. \<^verbatim>\<open>FloatLiteral\<close>: the number texts of the writer are literals
    within range that read back as the same \<^verbatim>\<open>float64\<close>. \<^verbatim>\<open>DecodedJson\<close>: what a request body can decode to, whatever its bytes.
    \<^verbatim>\<open>PlainDocument\<close>: the document a plaintext request is stored as, and what is found in it again.
  \<^item> \<^verbatim>\<open>Tools\<close>, \<^verbatim>\<open>Migrate\<close>: the command-line tools, from their flags to the exit status.

  \<^bold>\<open>What the lemmas show.\<close> For the SQL backends: the tables stay well formed, a failed operation changes
  nothing, reads implement the abstract map, content is stored once, bans hold, and over any history a
  burn-after-read paste is delivered at most once; PostgreSQL agrees with SQLite. For Cloud Storage: at
  most one concurrent reader gets a burn-after-read paste with new content, while a deduplicated one can be
  delivered twice. For the queue: nothing accepted is lost by a graceful shutdown, and it ends. For the
  handlers: what is created is what is viewed, and over any history of requests a burning paste is served once,
  also to the clients of the whole site, since an answer 200 passes the middleware only when a handler gave it.
  For the limiter: the bound on admitted requests in any window, with the rounding of \<^verbatim>\<open>float64\<close>, and in total
  through the whole chain; for the shared limiters no burst on top of the limit. For the middleware: what is let through, what
  reaches the logs, and which headers are set. For payments: which webhooks are accepted, and that only valid
  invoices are asked for. For configuration and start: the values a file gives, what a start depends on, and
  that public and guarded endpoints show nothing else. For a shutdown: its order, and that it ends. For the
  logs: one line for a call, and nothing of what is to be concealed. For the tools: a ban holds against every
  later request, and migrations are applied once, in order, whatever fails.

  The contracts between parts are locales: \<open>paste_store\<close> and \<open>deleting_store\<close> (interpreted for both SQL
  backends), \<open>rate_limiter\<close> (for the in-memory limiter) and \<open>sliding_log\<close> (for the shared ones), \<open>object_store\<close>,
  \<open>document_store\<close> and \<open>sorted_sets\<close> (the laws of Cloud Storage, Firestore and Redis as documented, each for a store in
  memory in which any call may fail).

  \<^bold>\<open>Bounds and fuel.\<close> The JSON reader has fuel \<open>2 * length + 2\<close>, which every step of it consumes with at least half a
  character, and the depth limit 10000 of \<^verbatim>\<open>encoding/json\<close>; the reader of IPv6 groups has fuel 8, the number of
  groups of an address. The queue holds 1000 deletions, as the code says.

  \<^bold>\<open>Modelling decisions.\<close> An SQL operation is one atomic step, its ban check included; the order of concurrent
  operations is the order of the steps. Driver and library failures come from the environment of each
  operation, as do clocks and random bytes. Log and audit lines are output only and left out, unless they
  are what a property is about. Maps that the code iterates over are lists, in any order. The router, the SQL
  drivers and the Cloud Storage client are not part of the repository: their calls are arguments or the table
  operations that the statements stand for. Requests pass the limits of the chain one after another, as the
  limiter's mutex makes them. Each limiter reads its clock before it takes the mutex or starts the transaction; the bounds are
  for histories in which no call overtakes another in between, and in which the servers that share a limiter agree on the time.

  \<^bold>\<open>Not modelled.\<close> The parsing of flags and of the command line, signals and the connections of \<^verbatim>\<open>net/http\<close>, the
  clients of Google Cloud beyond their documented results, what the tools print, the tests, and the files of the web client: they are input and
  output, or code outside the repository.
\<close>

end
